(* ===== verification/Prelude.thy ===== *)
theory Prelude
  imports Main "HOL-Library.Char_ord" "HOL-Library.List_Lexorder" "HOL-Library.Sublist"
    "HOL-Library.Multiset" "HOL-Library.Word"
begin

text \<open>
  Shared material of the development: the fact collections, the transaction monad the store
  operations are written in, and generic lemmas on lists and sums.

  A store operation that runs inside a transaction is a function from the database to either
  an error or a result with the new database; \<open>with_tx\<close> commits the new database on success
  and rolls back to the old one on an error, as \<open>Store.withTx\<close> and its \<open>finish\<close> callback do.
\<close>

named_theorems str_simps
named_theorems tx_simps
named_theorems row_simps

section \<open>The transaction monad\<close>

type_synonym ('s, 'e, 'a) txn = "'s \<Rightarrow> 'e + ('a \<times> 's)"

definition tx_return :: "'a \<Rightarrow> ('s, 'e, 'a) txn" where
  "tx_return a = (\<lambda>s. Inr (a, s))"

definition tx_fail :: "'e \<Rightarrow> ('s, 'e, 'a) txn" where
  "tx_fail e = (\<lambda>s. Inl e)"

definition tx_bind :: "('s, 'e, 'a) txn \<Rightarrow> ('a \<Rightarrow> ('s, 'e, 'b) txn) \<Rightarrow> ('s, 'e, 'b) txn" where
  "tx_bind m f = (\<lambda>s. case m s of Inl e \<Rightarrow> Inl e | Inr (a, s') \<Rightarrow> f a s')"

definition tx_map_error :: "('e \<Rightarrow> 'e) \<Rightarrow> ('s, 'e, 'a) txn \<Rightarrow> ('s, 'e, 'a) txn" where
  "tx_map_error g m = (\<lambda>s. case m s of Inl e \<Rightarrow> Inl (g e) | Inr r \<Rightarrow> Inr r)"

definition tx_lift :: "('s \<Rightarrow> 'e + 'a) \<Rightarrow> ('s, 'e, 'a) txn" where
  "tx_lift q = (\<lambda>s. case q s of Inl e \<Rightarrow> Inl e | Inr a \<Rightarrow> Inr (a, s))"

definition tx_get :: "('s \<Rightarrow> 'a) \<Rightarrow> ('s, 'e, 'a) txn" where
  "tx_get q = (\<lambda>s. Inr (q s, s))"

definition tx_put :: "('s \<Rightarrow> 's) \<Rightarrow> ('s, 'e, unit) txn" where
  "tx_put f = (\<lambda>s. Inr ((), f s))"

text \<open>Commit on success, roll back on an error (\<open>internal/store/sqlite/store.go\<close>, \<open>withTx\<close>).\<close>

definition with_tx :: "('s, 'e, 'a) txn \<Rightarrow> 's \<Rightarrow> ('e + 'a) \<times> 's" where
  "with_tx body s = (case body s of Inl e \<Rightarrow> (Inl e, s) | Inr (a, s') \<Rightarrow> (Inr a, s'))"

lemma tx_return_apply [tx_simps]: "tx_return a s = Inr (a, s)"
  by (simp add: tx_return_def)

lemma tx_fail_apply [tx_simps]: "tx_fail e s = Inl e"
  by (simp add: tx_fail_def)

lemma tx_get_apply [tx_simps]: "tx_get q s = Inr (q s, s)"
  by (simp add: tx_get_def)

lemma tx_put_apply [tx_simps]: "tx_put f s = Inr ((), f s)"
  by (simp add: tx_put_def)

lemma tx_lift_Inr [tx_simps]: "tx_lift q s = Inr (a, s') \<longleftrightarrow> q s = Inr a \<and> s' = s"
  by (auto simp: tx_lift_def split: sum.splits)

lemma tx_lift_Inl [tx_simps]: "tx_lift q s = Inl e \<longleftrightarrow> q s = Inl e"
  by (auto simp: tx_lift_def split: sum.splits)

lemma tx_bind_Inr [tx_simps]:
  "tx_bind m f s = Inr r \<longleftrightarrow> (\<exists>a s'. m s = Inr (a, s') \<and> f a s' = Inr r)"
  by (auto simp: tx_bind_def split: sum.splits)

lemma tx_bind_Inl [tx_simps]:
  "tx_bind m f s = Inl e \<longleftrightarrow> m s = Inl e \<or> (\<exists>a s'. m s = Inr (a, s') \<and> f a s' = Inl e)"
  by (auto simp: tx_bind_def split: sum.splits)

lemma tx_bind_step: "m s = Inr (a, s') \<Longrightarrow> tx_bind m f s = f a s'"
  by (simp add: tx_bind_def)

lemma tx_map_error_Inr [tx_simps]: "tx_map_error g m s = Inr r \<longleftrightarrow> m s = Inr r"
  by (auto simp: tx_map_error_def split: sum.splits)

lemma tx_map_error_Inl [tx_simps]: "tx_map_error g m s = Inl e \<longleftrightarrow> (\<exists>e'. m s = Inl e' \<and> e = g e')"
  by (auto simp: tx_map_error_def split: sum.splits)

lemma with_tx_Inr [tx_simps]: "with_tx body s = (Inr a, s') \<longleftrightarrow> body s = Inr (a, s')"
  by (auto simp: with_tx_def split: sum.splits)

lemma with_tx_Inl [tx_simps]: "with_tx body s = (Inl e, s') \<longleftrightarrow> body s = Inl e \<and> s' = s"
  by (auto simp: with_tx_def split: sum.splits)

text \<open>A predicate that the body keeps on success is kept by the whole transaction.\<close>

lemma with_tx_preserves:
  assumes "\<And>a s'. body s = Inr (a, s') \<Longrightarrow> P s'" and "P s"
  shows "P (snd (with_tx body s))"
  using assms by (auto simp: with_tx_def split: sum.splits)

lemma with_tx_rollback:
  "with_tx body s = (r, s') \<Longrightarrow> s' \<noteq> s \<Longrightarrow> \<exists>a. r = Inr a \<and> body s = Inr (a, s')"
  by (auto simp: with_tx_def split: sum.splits)

text \<open>A loop over a list inside a transaction, threading an accumulator.\<close>

fun tx_fold :: "('a \<Rightarrow> 'b \<Rightarrow> ('s, 'e, 'b) txn) \<Rightarrow> 'a list \<Rightarrow> 'b \<Rightarrow> ('s, 'e, 'b) txn" where
  "tx_fold f [] acc = tx_return acc"
| "tx_fold f (x # xs) acc = tx_bind (f x acc) (\<lambda>acc'. tx_fold f xs acc')"

lemma tx_fold_invariant:
  assumes "tx_fold f xs acc s = Inr (acc', s')" and "I acc s"
    and "\<And>x a t a' t'. x \<in> set xs \<Longrightarrow> I a t \<Longrightarrow> f x a t = Inr (a', t') \<Longrightarrow> I a' t'"
  shows "I acc' s'"
  using assms
proof (induction xs arbitrary: acc s)
  case Nil
  then show ?case by (simp add: tx_simps)
next
  case (Cons x xs)
  from Cons.prems(1) obtain a t where a: "f x acc s = Inr (a, t)"
    and rest: "tx_fold f xs a t = Inr (acc', s')"
    by (auto simp: tx_simps)
  have "I a t" by (rule Cons.prems(3) [OF _ Cons.prems(2) a]) simp
  with rest show ?case by (rule Cons.IH) (metis Cons.prems(3) list.set_intros(2))
qed

section \<open>Lists used as tables\<close>

lemma filter_neq_id: "x \<notin> f ` set xs \<Longrightarrow> filter (\<lambda>r. f r \<noteq> x) xs = xs"
  by (induction xs) auto

lemma distinct_map_filter: "distinct (map f xs) \<Longrightarrow> distinct (map f (filter P xs))"
  by (induction xs) auto

lemma find_Some_iff_distinct:
  assumes "distinct (map f xs)"
  shows "find (\<lambda>r. f r = k) xs = Some r \<longleftrightarrow> r \<in> set xs \<and> f r = k"
  using assms by (induction xs) (auto intro: rev_image_eqI)

lemma find_None_key: "find (\<lambda>r. f r = k) xs = None \<longleftrightarrow> k \<notin> f ` set xs"
  by (auto simp: find_None_iff)

lemma find_append: "find P (xs @ ys) = (case find P xs of None \<Rightarrow> find P ys | Some r \<Rightarrow> Some r)"
  by (induction xs) auto

lemma find_filter_other: "(\<And>r. P r \<Longrightarrow> Q r) \<Longrightarrow> find P (filter Q xs) = find P xs"
  by (induction xs) auto

lemma find_map_upd:
  "(\<And>r. r \<in> set xs \<Longrightarrow> P (g r) = P r) \<Longrightarrow> find P (map g xs) = map_option g (find P xs)"
  by (induction xs) auto

lemma find_unique:
  assumes "y \<in> set xs" and "P y" and "\<And>d. d \<in> set xs \<Longrightarrow> P d \<Longrightarrow> d = y"
  shows "find P xs = Some y"
proof (cases "find P xs")
  case None
  with assms(1,2) show ?thesis by (simp add: find_None_iff)
next
  case (Some d)
  then have "d \<in> set xs" "P d" by (auto simp: find_Some_iff)
  with assms(3) Some show ?thesis by simp
qed

end
