(* ===== verification/GoStrings.thy ===== *)
theory GoStrings
  imports Prelude
begin

text \<open>
  The functions of Go's \<open>strings\<close>, \<open>strconv\<close> and \<open>slices\<close> packages that the program calls, on
  strings as byte sequences (\<open>char list\<close>, one \<open>char\<close> per byte): \<open>Split\<close>, \<open>Join\<close>, \<open>TrimSpace\<close>,
  \<open>LastIndex\<close>, \<open>Contains\<close>, \<open>HasPrefix\<close>, \<open>Count\<close>, \<open>ToUpper\<close>, \<open>ParseInt\<close>, \<open>ParseUint\<close> and the
  decimal \<open>%d\<close>.  The path lemmas at the end are the ones the directory model rests on.
\<close>

section \<open>Split and Join\<close>

text \<open>\<open>strings.Split(s, sep)\<close> for a separator of one byte: never the empty list.\<close>

fun go_split :: "char \<Rightarrow> string \<Rightarrow> string list" where
  "go_split c [] = [[]]"
| "go_split c (x # xs) =
     (if x = c then [] # go_split c xs
      else (case go_split c xs of [] \<Rightarrow> [[x]] | p # ps \<Rightarrow> (x # p) # ps))"

text \<open>\<open>strings.Join(parts, sep)\<close>.\<close>

fun go_join :: "string \<Rightarrow> string list \<Rightarrow> string" where
  "go_join sep [] = []"
| "go_join sep [p] = p"
| "go_join sep (p # q # ps) = p @ sep @ go_join sep (q # ps)"

lemma go_split_not_Nil [simp]: "go_split c s \<noteq> []"
  by (cases s) (auto split: list.splits)

lemma go_split_no_sep [str_simps]: "c \<notin> set s \<Longrightarrow> go_split c s = [s]"
  by (induction s) auto

lemma go_split_append_sep [str_simps]:
  "c \<notin> set p \<Longrightarrow> go_split c (p @ c # s) = p # go_split c s"
  by (induction p) auto

lemma go_split_parts: "p \<in> set (go_split c s) \<Longrightarrow> c \<notin> set p"
  by (induction s arbitrary: p) (auto split: if_splits list.splits)

lemma go_join_Cons: "ps \<noteq> [] \<Longrightarrow> go_join sep (p # ps) = p @ sep @ go_join sep ps"
  by (cases ps) auto

lemma go_join_snoc: "ps \<noteq> [] \<Longrightarrow> go_join sep (ps @ [p]) = go_join sep ps @ sep @ p"
  by (induction sep ps rule: go_join.induct) (auto simp: go_join_Cons)

lemma go_split_join:
  assumes "\<forall>p \<in> set ps. c \<notin> set p" and "ps \<noteq> []"
  shows "go_split c (go_join [c] ps) = ps"
  using assms by (induction "[c]" ps rule: go_join.induct) (auto simp: str_simps)

lemma go_join_split: "go_join [c] (go_split c s) = s"
proof (induction s)
  case Nil
  show ?case by simp
next
  case (Cons x xs)
  obtain p ps where p: "go_split c xs = p # ps" by (cases "go_split c xs") auto
  with Cons show ?case by (cases ps) auto
qed

section \<open>TrimSpace\<close>

text \<open>
  \<open>unicode.IsSpace\<close> as the UTF-8 encodings of the code points it accepts: the six ASCII ones,
  U+0085, U+00A0, U+1680, U+2000 to U+200A, U+2028, U+2029, U+202F, U+205F and U+3000.
  A valid encoding at either end of a byte string is what \<open>DecodeRune\<close> and \<open>DecodeLastRune\<close>
  find there.
\<close>

definition space_runes :: "string list" where
  "space_runes = [
     [CHR 0x09], [CHR 0x0A], [CHR 0x0B], [CHR 0x0C], [CHR 0x0D], [CHR 0x20],
     [CHR 0xC2, CHR 0x85], [CHR 0xC2, CHR 0xA0], [CHR 0xE1, CHR 0x9A, CHR 0x80],
     [CHR 0xE2, CHR 0x80, CHR 0x80], [CHR 0xE2, CHR 0x80, CHR 0x81],
     [CHR 0xE2, CHR 0x80, CHR 0x82], [CHR 0xE2, CHR 0x80, CHR 0x83],
     [CHR 0xE2, CHR 0x80, CHR 0x84], [CHR 0xE2, CHR 0x80, CHR 0x85],
     [CHR 0xE2, CHR 0x80, CHR 0x86], [CHR 0xE2, CHR 0x80, CHR 0x87],
     [CHR 0xE2, CHR 0x80, CHR 0x88], [CHR 0xE2, CHR 0x80, CHR 0x89],
     [CHR 0xE2, CHR 0x80, CHR 0x8A], [CHR 0xE2, CHR 0x80, CHR 0xA8],
     [CHR 0xE2, CHR 0x80, CHR 0xA9], [CHR 0xE2, CHR 0x80, CHR 0xAF],
     [CHR 0xE2, CHR 0x81, CHR 0x9F], [CHR 0xE3, CHR 0x80, CHR 0x80]]"

text \<open>Remove the runes of \<open>rs\<close> from the front for as long as one is there.\<close>

function strip :: "string list \<Rightarrow> string \<Rightarrow> string" where
  "strip rs s = (case find (\<lambda>r. r \<noteq> [] \<and> prefix r s) rs of
                   None \<Rightarrow> s
                 | Some r \<Rightarrow> strip rs (drop (length r) s))"
  by pat_completeness auto
termination
proof (relation "measure (\<lambda>(rs, s). length s)", simp)
  fix rs :: "string list" and s r :: string
  assume "find (\<lambda>r. r \<noteq> [] \<and> prefix r s) rs = Some r"
  then have "r \<noteq> []" and "prefix r s" by (auto simp: find_Some_iff)
  then show "((rs, drop (length r) s), rs, s) \<in> measure (\<lambda>(rs, s). length s)"
    by (auto simp: prefix_def)
qed

declare strip.simps [simp del]

definition trim_left :: "string \<Rightarrow> string" where
  "trim_left s = strip space_runes s"

definition trim_right :: "string \<Rightarrow> string" where
  "trim_right s = rev (strip (map rev space_runes) (rev s))"

definition trim_space :: "string \<Rightarrow> string" where
  "trim_space s = trim_right (trim_left s)"

definition stripped :: "string list \<Rightarrow> string \<Rightarrow> bool" where
  "stripped rs s \<longleftrightarrow> (\<forall>r \<in> set rs. r \<noteq> [] \<longrightarrow> \<not> prefix r s)"

lemma strip_stripped: "stripped rs (strip rs s)"
proof (induction rs s rule: strip.induct)
  case (1 rs s)
  show ?case
  proof (cases "find (\<lambda>r. r \<noteq> [] \<and> prefix r s) rs")
    case None
    then have "strip rs s = s" by (simp add: strip.simps [of rs s])
    with None show ?thesis by (auto simp: stripped_def find_None_iff)
  next
    case (Some r)
    with 1 show ?thesis by (simp add: strip.simps [of rs s])
  qed
qed

lemma strip_id: "stripped rs s \<Longrightarrow> strip rs s = s"
proof -
  assume "stripped rs s"
  then have "find (\<lambda>r. r \<noteq> [] \<and> prefix r s) rs = None"
    by (auto simp: stripped_def find_None_iff)
  then show ?thesis by (simp add: strip.simps [of rs s])
qed

lemma suffix_strip: "suffix (strip rs s) s"
proof (induction rs s rule: strip.induct)
  case (1 rs s)
  show ?case
  proof (cases "find (\<lambda>r. r \<noteq> [] \<and> prefix r s) rs")
    case None
    then show ?thesis by (simp add: strip.simps [of rs s])
  next
    case (Some r)
    with 1 have "suffix (strip rs (drop (length r) s)) (drop (length r) s)" by blast
    with Some show ?thesis
      by (simp add: strip.simps [of rs s]) (metis suffix_drop suffix_order.trans)
  qed
qed

lemma stripped_prefix: "stripped rs s \<Longrightarrow> prefix t s \<Longrightarrow> stripped rs t"
  by (auto simp: stripped_def)

text \<open>A string that carries no space rune at either end.\<close>

definition trimmed :: "string \<Rightarrow> bool" where
  "trimmed s \<longleftrightarrow> trim_space s = s"

lemma prefix_trim_right: "prefix (trim_right s) s"
  using suffix_strip [of "map rev space_runes" "rev s"]
  by (simp add: trim_right_def suffix_to_prefix)

lemma trim_right_idem: "trim_right (trim_right s) = trim_right s"
  by (simp add: trim_right_def strip_id strip_stripped)

lemma trim_left_stripped: "stripped space_runes s \<Longrightarrow> trim_left s = s"
  by (simp add: trim_left_def strip_id)

lemma trim_space_stripped: "stripped space_runes (trim_space s)"
  unfolding trim_space_def
  by (rule stripped_prefix [OF _ prefix_trim_right]) (simp add: trim_left_def strip_stripped)

lemma trim_space_idem [simp]: "trim_space (trim_space s) = trim_space s"
  using trim_left_stripped [OF trim_space_stripped [of s]]
  by (metis trim_right_idem trim_space_def)

lemma trimmed_trim_space [simp]: "trimmed (trim_space s)"
  by (simp add: trimmed_def)

lemma set_trim_space: "set (trim_space s) \<subseteq> set s"
proof -
  have "set (trim_right t) \<subseteq> set t" for t using prefix_trim_right by (rule set_mono_prefix)
  moreover have "set (trim_left t) \<subseteq> set t" for t
    unfolding trim_left_def using suffix_strip by (rule set_mono_suffix)
  ultimately show ?thesis unfolding trim_space_def by blast
qed

section \<open>LastIndex, Contains, HasPrefix, Count, ToUpper\<close>

text \<open>\<open>strings.LastIndex(s, sep)\<close> for one byte: \<open>None\<close> is Go's \<open>-1\<close>.\<close>

fun last_index :: "char \<Rightarrow> string \<Rightarrow> nat option" where
  "last_index c [] = None"
| "last_index c (x # xs) =
     (case last_index c xs of
        Some i \<Rightarrow> Some (Suc i)
      | None \<Rightarrow> if x = c then Some 0 else None)"

lemma last_index_none [str_simps]: "c \<notin> set s \<Longrightarrow> last_index c s = None"
  by (induction s) auto

lemma last_index_append [str_simps]:
  "c \<notin> set n \<Longrightarrow> last_index c (p @ c # n) = Some (length p)"
  by (induction p) (auto simp: str_simps)

definition contains_str :: "string \<Rightarrow> string \<Rightarrow> bool" where
  "contains_str s sub = sublist sub s"

definition has_prefix :: "string \<Rightarrow> string \<Rightarrow> bool" where
  "has_prefix s p = prefix p s"

definition count_char :: "char \<Rightarrow> string \<Rightarrow> nat" where
  "count_char c s = count_list s c"

text \<open>\<open>strings.ToUpper\<close>; the program only compares its result with ASCII level names.\<close>

definition upper_char :: "char \<Rightarrow> char" where
  "upper_char c = (let n = of_char c :: int in if 97 \<le> n \<and> n \<le> 122 then char_of (n - 32) else c)"

definition to_upper :: "string \<Rightarrow> string" where
  "to_upper = map upper_char"

section \<open>Decimal numbers\<close>

definition digit_char :: "int \<Rightarrow> char" where
  "digit_char d = char_of (48 + d)"

definition digit_val :: "char \<Rightarrow> int option" where
  "digit_val c = (let n = of_char c :: int in if 48 \<le> n \<and> n \<le> 57 then Some (n - 48) else None)"

text \<open>The decimal digits of a nonnegative number.\<close>

function show_digits :: "int \<Rightarrow> string" where
  "show_digits n =
     (if n < 10 then [digit_char n] else show_digits (n div 10) @ [digit_char (n mod 10)])"
  by pat_completeness auto
termination
  by (relation "measure nat") auto

declare show_digits.simps [simp del]

text \<open>\<open>fmt.Sprintf("%d", i)\<close>, also \<open>strconv.FormatInt(i, 10)\<close>.\<close>

definition show_int :: "int \<Rightarrow> string" where
  "show_int i = (if i < 0 then CHR ''-'' # show_digits (- i) else show_digits i)"

fun parse_digits :: "int \<Rightarrow> string \<Rightarrow> int option" where
  "parse_digits acc [] = Some acc"
| "parse_digits acc (c # cs) =
     (case digit_val c of None \<Rightarrow> None | Some d \<Rightarrow> parse_digits (10 * acc + d) cs)"

text \<open>
  \<open>strconv.ParseUint(s, 10, 64)\<close> and \<open>strconv.ParseInt(s, 10, 64)\<close>; \<open>None\<close> is a syntax or
  range error.  Base 10 takes no underscores; \<open>ParseInt\<close> takes one sign, \<open>ParseUint\<close> none.
\<close>

definition parse_uint64 :: "string \<Rightarrow> int option" where
  "parse_uint64 s =
     (if s = [] then None
      else case parse_digits 0 s of
             None \<Rightarrow> None
           | Some n \<Rightarrow> if n < 2 ^ 64 then Some n else None)"

definition parse_int64 :: "string \<Rightarrow> int option" where
  "parse_int64 s =
     (case s of
        [] \<Rightarrow> None
      | c # cs \<Rightarrow>
          if c = CHR ''-'' then
            (case parse_uint64 cs of
               None \<Rightarrow> None
             | Some n \<Rightarrow> if n \<le> 2 ^ 63 then Some (- n) else None)
          else
            (case parse_uint64 (if c = CHR ''+'' then cs else s) of
               None \<Rightarrow> None
             | Some n \<Rightarrow> if n < 2 ^ 63 then Some n else None))"

lemma parse_int64_Nil [simp]: "parse_int64 [] = None"
  by (simp add: parse_int64_def)

lemma of_digit_char: "0 \<le> d \<Longrightarrow> d < 10 \<Longrightarrow> (of_char (digit_char d) :: int) = 48 + d"
  by (simp add: digit_char_def)

lemma digit_val_char [simp]: "0 \<le> d \<Longrightarrow> d < 10 \<Longrightarrow> digit_val (digit_char d) = Some d"
  by (simp add: digit_val_def of_digit_char)

lemma digit_char_no_sign:
  assumes "0 \<le> d" and "d < 10"
  shows "digit_char d \<noteq> CHR ''-''" and "digit_char d \<noteq> CHR ''+''"
proof -
  have "(of_char (CHR ''-'') :: int) = 45" and "(of_char (CHR ''+'') :: int) = 43" by simp_all
  with of_digit_char [OF assms] assms(1)
  show "digit_char d \<noteq> CHR ''-''" and "digit_char d \<noteq> CHR ''+''" by auto
qed

lemma parse_digits_append:
  "parse_digits a (s @ t) = (case parse_digits a s of None \<Rightarrow> None | Some b \<Rightarrow> parse_digits b t)"
  by (induction a s rule: parse_digits.induct) (auto split: option.splits)

lemma parse_show_digits: "0 \<le> n \<Longrightarrow> parse_digits 0 (show_digits n) = Some n"
proof (induction n rule: show_digits.induct)
  case (1 n)
  show ?case
  proof (cases "n < 10")
    case True
    with 1 show ?thesis by (simp add: show_digits.simps [of n])
  next
    case False
    with 1 show ?thesis by (simp add: show_digits.simps [of n] parse_digits_append)
  qed
qed

lemma hd_show_digits: "0 \<le> n \<Longrightarrow> \<exists>d cs. 0 \<le> d \<and> d < 10 \<and> show_digits n = digit_char d # cs"
proof (induction n rule: show_digits.induct)
  case (1 n)
  show ?case
  proof (cases "n < 10")
    case True
    with 1 show ?thesis by (auto simp: show_digits.simps [of n])
  next
    case False
    moreover from False have "0 \<le> n div 10" by simp
    ultimately obtain d cs where "0 \<le> d" "d < 10" "show_digits (n div 10) = digit_char d # cs"
      using "1.IH" by blast
    with False show ?thesis by (auto simp: show_digits.simps [of n])
  qed
qed

lemma show_int_not_Nil [simp]: "show_int i \<noteq> []"
  by (simp add: show_int_def show_digits.simps [of i])

text \<open>Printing an identifier and parsing it back gives the same number.\<close>

lemma parse_uint64_show: "0 \<le> n \<Longrightarrow> n < 2 ^ 64 \<Longrightarrow> parse_uint64 (show_digits n) = Some n"
  using hd_show_digits [of n] by (auto simp: parse_uint64_def parse_show_digits)

lemma parse_int64_show [simp]:
  assumes "0 \<le> i" and "i < 2 ^ 63"
  shows "parse_int64 (show_int i) = Some i"
proof -
  obtain d cs where d: "0 \<le> d" "d < 10" "show_digits i = digit_char d # cs"
    using hd_show_digits [OF assms(1)] by blast
  have "i < 2 ^ 64" using assms(2) by simp
  then have p: "parse_uint64 (digit_char d # cs) = Some i"
    using parse_uint64_show [of i] d assms(1) by simp
  have "show_int i = digit_char d # cs" using assms d by (simp add: show_int_def)
  then show ?thesis using p digit_char_no_sign [OF d(1,2)] assms(2)
    by (simp only: parse_int64_def list.case if_False option.case if_True)
qed

lemma show_int_inject:
  assumes "0 \<le> i" "i < 2 ^ 63" "0 \<le> j" "j < 2 ^ 63" "show_int i = show_int j"
  shows "i = j"
  using assms by (metis parse_int64_show option.inject)

end
