(* ===== verification/ProtoTypes.thy ===== *)
theory ProtoTypes
  imports GoStrings
begin

text \<open>
  The message types of \<open>proto/configfs.proto\<close> and their methods in \<open>internal/proto/extra.go\<close>:
  access levels, ACL entries, configs and directories, the paths and inode numbers derived from
  them, and the two access checks.  A Go pointer that may be nil is an \<open>option\<close>; the generated
  getters return the zero value on nil, which the \<open>option\<close> cases below write out.
\<close>

section \<open>Messages\<close>

text \<open>\<open>type Acl int32\<close>: an open proto3 enumeration, so any number can arrive.\<close>

datatype Acl = Acl (acl_num: int)

definition UNKNOWN_ACL :: Acl where "UNKNOWN_ACL = Acl 0"
definition Acl_READ :: Acl where "Acl_READ = Acl 1"
definition Acl_WRITE :: Acl where "Acl_WRITE = Acl 2"

lemmas Acl_levels = UNKNOWN_ACL_def Acl_READ_def Acl_WRITE_def

text \<open>Levels are ordered by their number: every level below grants less.\<close>

instantiation Acl :: linorder
begin

definition less_eq_Acl :: "Acl \<Rightarrow> Acl \<Rightarrow> bool" where
  "less_eq_Acl a b \<longleftrightarrow> acl_num a \<le> acl_num b"

definition less_Acl :: "Acl \<Rightarrow> Acl \<Rightarrow> bool" where
  "less_Acl a b \<longleftrightarrow> acl_num a < acl_num b"

instance
  by standard (auto simp: less_eq_Acl_def less_Acl_def intro: Acl.expand)

end

record config_acl =
  acl_level :: Acl
  acl_tag :: string
  acl_everyone :: bool

text \<open>\<open>google.protobuf.Timestamp\<close>.\<close>

record timestamp =
  ts_seconds :: int
  ts_nanos :: int

type_synonym bytes = "8 word list"

text \<open>
  \<open>Config\<close>: \<open>content\<close> is an optional field (\<open>None\<close> is the nil slice, \<open>Some []\<close> the present but
  empty one) and \<open>content_size\<close> a \<open>uint64\<close>.
\<close>

record config =
  c_id :: string
  c_name :: string
  c_content :: "bytes option"
  c_content_size :: "64 word"
  c_path :: string
  c_acls :: "config_acl list"
  c_created_at :: "timestamp option"
  c_updated_at :: "timestamp option"
  c_current_content_id :: string

datatype directory = Directory
  (d_id: string) (d_name: string) (d_path: string)
  (d_directories: "directory list") (d_configs: "config list") (d_acls: "config_acl list")

section \<open>Paths and inode numbers\<close>

text \<open>\<open>Directory.FullPath\<close>; an empty path means the root whatever the name is.\<close>

definition full_path :: "string \<Rightarrow> string \<Rightarrow> string" where
  "full_path path name =
     (if path = [] then ''/''
      else if path = ''/'' then ''/'' @ name
      else go_join ''/'' [path, name])"

definition Directory_FullPath :: "directory \<Rightarrow> string" where
  "Directory_FullPath d = full_path (d_path d) (d_name d)"

definition Config_FullPath :: "config \<Rightarrow> string" where
  "Config_FullPath c = go_join ''/'' [c_path c, c_name c]"

definition inode_of_id :: "string \<Rightarrow> 64 word" where
  "inode_of_id i = (case parse_uint64 i of None \<Rightarrow> 0 | Some n \<Rightarrow> word_of_int n)"

definition Directory_NumericalInode :: "directory option \<Rightarrow> 64 word" where
  "Directory_NumericalInode d = (case d of None \<Rightarrow> 1 | Some d \<Rightarrow> inode_of_id (d_id d))"

definition Config_NumericalInode :: "config option \<Rightarrow> 64 word" where
  "Config_NumericalInode c = (case c of None \<Rightarrow> 1 | Some c \<Rightarrow> inode_of_id (c_id c))"

section \<open>Access checks\<close>

definition aclGrants :: "Acl \<Rightarrow> Acl \<Rightarrow> bool" where
  "aclGrants have_level required =
     (if required = Acl_READ then have_level = Acl_READ \<or> have_level = Acl_WRITE
      else if required = Acl_WRITE then have_level = Acl_WRITE
      else False)"

text \<open>The inner loop over the caller's tags.\<close>

fun tag_matches :: "config_acl \<Rightarrow> string list \<Rightarrow> bool" where
  "tag_matches acl [] = False"
| "tag_matches acl (providedTag # tags) =
     (if acl_tag acl \<noteq> [] \<and> acl_tag acl = providedTag then True else tag_matches acl tags)"

text \<open>The loop over the entries that both \<open>Allows\<close> methods share.\<close>

fun acls_grant :: "config_acl list \<Rightarrow> string list \<Rightarrow> Acl \<Rightarrow> bool" where
  "acls_grant [] tags required = False"
| "acls_grant (acl # acls) tags required =
     (if \<not> aclGrants (acl_level acl) required then acls_grant acls tags required
      else if acl_everyone acl then True
      else if tag_matches acl tags then True
      else acls_grant acls tags required)"

definition Config_Allows :: "config \<Rightarrow> string list \<Rightarrow> Acl \<Rightarrow> bool" where
  "Config_Allows c tags required = acls_grant (c_acls c) tags required"

definition Config_VisibileTo :: "config \<Rightarrow> string list \<Rightarrow> bool" where
  "Config_VisibileTo c tags = Config_Allows c tags Acl_READ"

definition Directory_GetAcls :: "directory option \<Rightarrow> config_acl list" where
  "Directory_GetAcls d = (case d of None \<Rightarrow> [] | Some d \<Rightarrow> d_acls d)"

definition Directory_Allows :: "directory option \<Rightarrow> string list \<Rightarrow> Acl \<Rightarrow> bool" where
  "Directory_Allows d tags required =
     (let acls = Directory_GetAcls d
      in if length acls = 0 then True else acls_grant acls tags required)"

definition Directory_VisibileTo :: "directory option \<Rightarrow> string list \<Rightarrow> bool" where
  "Directory_VisibileTo d tags = Directory_Allows d tags Acl_READ"

section \<open>What the access checks decide\<close>

lemma tag_matches_iff [simp]: "tag_matches acl tags \<longleftrightarrow> acl_tag acl \<noteq> [] \<and> acl_tag acl \<in> set tags"
  by (induction tags) auto

text \<open>An entry matches a caller if it is for everyone or its nonempty tag is one of theirs.\<close>

definition acl_matches :: "config_acl \<Rightarrow> string list \<Rightarrow> bool" where
  "acl_matches acl tags \<longleftrightarrow> acl_everyone acl \<or> (acl_tag acl \<noteq> [] \<and> acl_tag acl \<in> set tags)"

lemma acls_grant_iff:
  "acls_grant acls tags required \<longleftrightarrow>
     (\<exists>acl \<in> set acls. aclGrants (acl_level acl) required \<and> acl_matches acl tags)"
  by (induction acls) (auto simp: acl_matches_def)

text \<open>\<open>aclGrants\<close> is the order of the levels, restricted to the two recognised ones.\<close>

lemma aclGrants_iff:
  "aclGrants a required \<longleftrightarrow>
     required \<in> {Acl_READ, Acl_WRITE} \<and> a \<in> {Acl_READ, Acl_WRITE} \<and> required \<le> a"
  by (auto simp: aclGrants_def Acl_levels less_eq_Acl_def)

text \<open>
  The contract both access checks share: the answer only grows with the caller's tags, depends
  on their set alone, and WRITE implies READ.
\<close>

locale access_gate =
  fixes allows :: "'o \<Rightarrow> string list \<Rightarrow> Acl \<Rightarrow> bool"
  assumes allows_mono: "allows x tags r \<Longrightarrow> set tags \<subseteq> set tags' \<Longrightarrow> allows x tags' r"
    and allows_write_read: "allows x tags Acl_WRITE \<Longrightarrow> allows x tags Acl_READ"
begin

lemma allows_set: "set tags = set tags' \<Longrightarrow> allows x tags r = allows x tags' r"
  by (metis allows_mono order_refl)

lemma allows_anonymous: "allows x [] r \<Longrightarrow> allows x tags r"
  by (erule allows_mono) simp

lemma write_anonymous_read: "allows x [] Acl_WRITE \<Longrightarrow> allows x tags Acl_READ"
  by (rule allows_write_read) (rule allows_anonymous)

end

lemma acls_grant_mono: "acls_grant acls tags r \<Longrightarrow> set tags \<subseteq> set tags' \<Longrightarrow> acls_grant acls tags' r"
  by (auto simp: acls_grant_iff acl_matches_def)

lemma acls_grant_write_read: "acls_grant acls tags Acl_WRITE \<Longrightarrow> acls_grant acls tags Acl_READ"
  by (auto simp: acls_grant_iff aclGrants_iff less_eq_Acl_def Acl_levels)

interpretation config_gate: access_gate Config_Allows
  by unfold_locales
    (auto simp: Config_Allows_def intro: acls_grant_mono acls_grant_write_read)

interpretation directory_gate: access_gate Directory_Allows
  by unfold_locales
    (auto simp: Directory_Allows_def Let_def split: if_splits
      intro: acls_grant_mono acls_grant_write_read)

text \<open>Entries the store drops grant nothing: filtering them out changes no answer.\<close>

definition recognised :: "config_acl \<Rightarrow> bool" where
  "recognised acl \<longleftrightarrow> acl_level acl = Acl_READ \<or> acl_level acl = Acl_WRITE"

lemma acls_grant_recognised: "acls_grant (filter recognised acls) tags r = acls_grant acls tags r"
  by (auto simp: acls_grant_iff recognised_def aclGrants_def split: if_splits)

lemma full_path_cases [simp]:
  "full_path [] n = ''/''" "full_path ''/'' n = CHR ''/'' # n"
  by (simp_all add: full_path_def)

end
