(* ===== verification/Paths.thy ===== *)
theory Paths
  imports ProtoTypes
begin

text \<open>
  Path strings and their components.  \<open>clean_parts\<close> is the split-trim-drop loop the store runs on
  every path it is given (\<open>getDirectoriesByPathString\<close> and \<open>ensureDirectories\<close> in
  \<open>internal/store/sqlite/store.go\<close>); \<open>abs_path\<close> is the string it rebuilds from components.  On
  clean components the two are inverse, so a path string of the store and its component list
  name the same directory.
\<close>

definition clean_parts :: "string \<Rightarrow> string list" where
  "clean_parts s = filter (\<lambda>p. 0 < length p) (map trim_space (go_split CHR ''/'' s))"

definition abs_path :: "string list \<Rightarrow> string" where
  "abs_path ps = ''/'' @ go_join ''/'' ps"

definition good_name :: "string \<Rightarrow> bool" where
  "good_name n \<longleftrightarrow> n \<noteq> [] \<and> CHR ''/'' \<notin> set n \<and> trimmed n"

definition good_path :: "string list \<Rightarrow> bool" where
  "good_path ps \<longleftrightarrow> list_all good_name ps"

lemma good_path_simps [simp]:
  "good_path []" "good_path (p # ps) \<longleftrightarrow> good_name p \<and> good_path ps"
  "good_path (ps @ qs) \<longleftrightarrow> good_path ps \<and> good_path qs"
  by (simp_all add: good_path_def)

lemma good_path_take [simp]: "good_path ps \<Longrightarrow> good_path (take n ps)"
  by (metis append_take_drop_id good_path_simps(3))

lemma good_path_butlast [simp]: "good_path ps \<Longrightarrow> good_path (butlast ps)"
  by (simp add: butlast_conv_take)

lemma good_clean_parts [simp]: "good_path (clean_parts s)"
proof -
  have "good_name (trim_space p)" if "p \<in> set (go_split CHR ''/'' s)" "trim_space p \<noteq> []" for p
    using that go_split_parts set_trim_space [of p] by (fastforce simp: good_name_def)
  then show ?thesis by (auto simp: clean_parts_def good_path_def list_all_iff)
qed

lemma map_trim_good: "good_path ps \<Longrightarrow> map trim_space ps = ps"
  by (induction ps) (auto simp: good_name_def trimmed_def)

lemma trim_space_Nil [simp]: "trim_space [] = []"
  using set_trim_space [of "[]"] by simp

lemma clean_parts_abs_path [simp]:
  assumes "good_path ps"
  shows "clean_parts (abs_path ps) = ps"
proof (cases "ps = []")
  case True
  then show ?thesis by (simp add: clean_parts_def abs_path_def)
next
  case False
  have sep: "\<forall>p \<in> set ps. CHR ''/'' \<notin> set p" and ne: "\<forall>p \<in> set ps. 0 < length p"
    using assms by (auto simp: good_path_def list_all_iff good_name_def)
  have "go_split CHR ''/'' (abs_path ps) = [] # ps"
    using go_split_join [OF sep False] by (simp add: abs_path_def)
  then show ?thesis using ne by (simp add: clean_parts_def map_trim_good [OF assms] filter_id_conv)
qed

lemma abs_path_inject [simp]:
  "good_path ps \<Longrightarrow> good_path qs \<Longrightarrow> abs_path ps = abs_path qs \<longleftrightarrow> ps = qs"
  by (metis clean_parts_abs_path)

lemma abs_path_Nil [simp]: "abs_path [] = ''/''"
  by (simp add: abs_path_def)

lemma abs_path_not_Nil [simp]: "abs_path ps \<noteq> []"
  by (simp add: abs_path_def)

lemma abs_path_single: "abs_path [n] = CHR ''/'' # n"
  by (simp add: abs_path_def)

lemma abs_path_snoc: "ps \<noteq> [] \<Longrightarrow> abs_path (ps @ [n]) = abs_path ps @ CHR ''/'' # n"
  by (simp add: abs_path_def go_join_snoc)

lemma abs_path_root_iff [simp]: "good_path ps \<Longrightarrow> abs_path ps = ''/'' \<longleftrightarrow> ps = []"
  using abs_path_inject [of ps "[]"] by simp

lemma full_path_abs [simp]: "good_path ps \<Longrightarrow> full_path (abs_path ps) n = abs_path (ps @ [n])"
  by (cases "ps = []") (simp_all add: full_path_def abs_path_single abs_path_snoc)

lemma last_index_abs_path:
  assumes "good_name n"
  shows "last_index CHR ''/'' (abs_path (ps @ [n])) =
           Some (if ps = [] then 0 else length (abs_path ps))"
proof (cases "ps = []")
  case True
  then show ?thesis
    using assms last_index_append [of "CHR ''/''" n "[]"]
    by (simp add: abs_path_single good_name_def del: last_index.simps)
next
  case False
  then show ?thesis
    using assms by (simp add: abs_path_snoc good_name_def last_index_append del: last_index.simps)
qed

lemma prefix_abs_path: "prefix (abs_path ps) (abs_path (ps @ qs))"
proof (induction qs arbitrary: ps)
  case Nil
  show ?case by simp
next
  case (Cons q qs)
  have "prefix (abs_path ps) (abs_path (ps @ [q]))"
    by (cases "ps = []") (simp_all add: abs_path_single abs_path_snoc)
  with Cons.IH [of "ps @ [q]"] show ?case by (simp add: prefix_order.trans)
qed

lemma prefix_less_eq: "prefix xs ys \<Longrightarrow> xs \<le> (ys :: string)"
  by (auto simp: prefix_def list_le_def list_less_def lexord_append_rightI neq_Nil_conv
      intro: lexord_append_rightI)

lemma abs_path_le_append: "abs_path ps \<le> abs_path (ps @ qs)"
  by (intro prefix_less_eq prefix_abs_path)

lemma length_abs_path_append: "good_path qs \<Longrightarrow> qs \<noteq> [] \<Longrightarrow> ps \<noteq> [] \<Longrightarrow>
    length (abs_path ps) < length (abs_path (ps @ qs))"
proof -
  assume "good_path qs" "qs \<noteq> []" "ps \<noteq> []"
  then obtain q qs' where q: "qs = q # qs'" by (cases qs) auto
  have "length (abs_path ps) < length (abs_path (ps @ [q]))"
    using \<open>ps \<noteq> []\<close> by (simp add: abs_path_snoc)
  also have "\<dots> \<le> length (abs_path ((ps @ [q]) @ qs'))"
    by (rule prefix_length_le) (rule prefix_abs_path)
  finally show ?thesis by (simp add: q)
qed

text \<open>The nesting depth \<open>readableDirectories\<close> sorts by is the number of components.\<close>

lemma count_slash_abs_path:
  assumes "good_path ps" and "ps \<noteq> []"
  shows "count_char CHR ''/'' (abs_path ps) = length ps"
  using assms
proof (induction ps rule: rev_induct)
  case Nil
  then show ?case by simp
next
  case (snoc p ps)
  then show ?case
    by (cases "ps = []")
      (simp_all add: abs_path_single abs_path_snoc count_char_def good_name_def count_list_0_iff)
qed

end
