(* ===== verification/Tables.thy ===== *)
theory Tables
  imports Paths
begin

text \<open>
  The database of \<open>internal/store/sqlite/store.go\<close>: the rows of the tables declared in its schema,
  the errors a store operation returns, the inode allocator, the \<open>LIKE\<close> operator of its queries,
  and the shared ACL-table code (\<open>loadACLs\<close>, \<open>insertACLs\<close>, \<open>deleteACLs\<close>, \<open>replaceACLs\<close>) with
  the contract its two instances satisfy.  A table is the list of its rows in primary-key order.
\<close>

section \<open>Rows and the database\<close>

record config_row =
  cr_id :: int
  cr_name :: string
  cr_path :: string
  cr_current_content_id :: "int option"
  cr_created_at :: int
  cr_updated_at :: int

record content_row =
  cc_id :: int
  cc_config_id :: int
  cc_content :: bytes
  cc_content_size :: int
  cc_created_at :: int
  cc_updated_at :: int

record directory_row =
  dr_id :: int
  dr_name :: string
  dr_path :: string
  dr_parent_id :: "int option"

record acl_row =
  ar_id :: int
  ar_owner_id :: int
  ar_acl :: int
  ar_tag :: string
  ar_everyone :: int

text \<open>\<open>inode_top\<close> is the largest id in table \<open>inode\<close> (0 when it is empty): ids are never deleted there.\<close>

record db =
  inode_top :: int
  config_table :: "config_row list"
  config_content_table :: "content_row list"
  directory_table :: "directory_row list"
  config_acl_table :: "acl_row list"
  directory_acl_table :: "acl_row list"

definition empty_db :: db where
  "empty_db = \<lparr>inode_top = 0, config_table = [], config_content_table = [], directory_table = [],
     config_acl_table = [], directory_acl_table = []\<rparr>"

section \<open>Errors\<close>

text \<open>
  One constructor per error a store method builds, in the order of the source; \<open>GoPanic\<close> is a
  run-time panic and \<open>NotReturning\<close> an unbounded recursion.
\<close>

datatype store_error =
    MissingDirectory string string
  | InodeExhausted
  | CreatingDirectoryRow string string store_error
  | DirectoryDoesNotExist string
  | BadId string
  | BadVersion string
  | DirectoryNameRequired
  | DirectoryAlreadyExists string
  | CreatingDirectory string store_error
  | DirectoryNotFoundAfterCreation string
  | DirectoryIdDoesNotExist string
  | DirectoryNameMismatch string
  | DirectoryPathMismatch string
  | DirectoryHasSubdirectories string nat
  | DirectoryHasConfigs string nat
  | ContentIsNull
  | ConfigAlreadyExists
  | ConfigNameMismatch string
  | ConfigPathMismatch string
  | GoPanic
  | NotReturning

text \<open>
  The message \<open>err.Error()\<close> of those errors that the API layer inspects, for the quoting function
  \<open>q\<close> of the \<open>%q\<close> verb (\<open>strconv.Quote\<close>).
\<close>

fun error_text :: "(string \<Rightarrow> string) \<Rightarrow> store_error \<Rightarrow> string" where
  "error_text q InodeExhausted = ''error getting inode''"
| "error_text q (CreatingDirectoryRow p n e) =
     ''error creating directory '' @ p @ ''/'' @ n @ '': '' @ error_text q e"
| "error_text q (BadId i) = ''unable to convert ID to number: '' @ q i"
| "error_text q DirectoryNameRequired = ''a directory name must be provided''"
| "error_text q (DirectoryAlreadyExists p) = ''a directory already exists at '' @ q p"
| "error_text q (CreatingDirectory p e) = ''error creating directory '' @ q p @ '': '' @ error_text q e"
| "error_text q (DirectoryNotFoundAfterCreation p) =
     ''created directory '' @ q p @ '' not found after creation''"
| "error_text q (DirectoryIdDoesNotExist i) = ''directory with id '' @ q i @ '' does not exist''"
| "error_text q (DirectoryNameMismatch n) =
     ''supplied directory name does not match existing value of '' @ q n"
| "error_text q (DirectoryPathMismatch p) =
     ''supplied directory path does not match existing value of '' @ q p"
| "error_text q (DirectoryHasSubdirectories p n) =
     ''directory '' @ q p @ '' is not empty: it contains '' @ show_int (int n) @ '' subdirectories''"
| "error_text q (DirectoryHasConfigs p n) =
     ''directory '' @ q p @ '' is not empty: it contains '' @ show_int (int n) @ '' configs''"
| "error_text q _ = []"

type_synonym 'a tx = "(db, store_error, 'a) txn"

section \<open>The inode allocator\<close>

text \<open>
  \<open>nextInode\<close>: inserting a NULL primary key takes the largest id plus one.  Ids are signed 64-bit;
  with the last one in use the insert is modelled as failing (SQLite's \<open>SQLITE_FULL\<close>).
\<close>

definition max_id :: int where
  "max_id = 2 ^ 63 - 1"

definition nextInode :: "int tx" where
  "nextInode = (\<lambda>s. if inode_top s < max_id
     then Inr (inode_top s + 1, s\<lparr>inode_top := inode_top s + 1\<rparr>)
     else Inl InodeExhausted)"

lemma nextInode_Inr [tx_simps]:
  "nextInode s = Inr (i, s') \<longleftrightarrow>
     inode_top s < max_id \<and> i = inode_top s + 1 \<and> s' = s\<lparr>inode_top := inode_top s + 1\<rparr>"
  by (auto simp: nextInode_def)

lemma nextInode_Inl [tx_simps]: "nextInode s = Inl e \<longleftrightarrow> \<not> inode_top s < max_id \<and> e = InodeExhausted"
  by (auto simp: nextInode_def)

section \<open>LIKE\<close>

text \<open>
  SQLite's \<open>x LIKE pattern\<close> without an escape character: \<open>%\<close> matches any characters, \<open>_\<close> one
  character (a whole UTF-8 sequence), ASCII letters match in either case.
\<close>

definition lower_char :: "char \<Rightarrow> char" where
  "lower_char c = (let n = of_char c :: int in if 65 \<le> n \<and> n \<le> 90 then char_of (n + 32) else c)"

definition skip_utf8 :: "string \<Rightarrow> string" where
  "skip_utf8 s = (case s of
       [] \<Rightarrow> []
     | c # t \<Rightarrow> if 192 \<le> (of_char c :: int)
                then dropWhile (\<lambda>d. 128 \<le> (of_char d :: int) \<and> (of_char d :: int) < 192) t else t)"

lemma length_skip_utf8: "s \<noteq> [] \<Longrightarrow> length (skip_utf8 s) < length s"
  by (cases s) (auto simp: skip_utf8_def intro: le_imp_less_Suc length_dropWhile_le)

function (sequential) sql_like :: "string \<Rightarrow> string \<Rightarrow> bool" where
  "sql_like [] s = (s = [])"
| "sql_like (p # ps) s =
     (if p = CHR ''%'' then
        (if sql_like ps s then True else if s = [] then False else sql_like (p # ps) (skip_utf8 s))
      else if s = [] then False
      else if p = CHR ''_'' then sql_like ps (skip_utf8 s)
      else if lower_char p = lower_char (hd s) then sql_like ps (tl s) else False)"
  by pat_completeness auto
termination
  by (relation "measures [\<lambda>(p, s). length s, \<lambda>(p, s). length p]") (auto simp: length_skip_utf8)

declare sql_like.simps(2) [simp del]

text \<open>A pattern built from a path matches what continues that path, whatever characters it holds.\<close>

lemma sql_like_append: "sql_like q s \<Longrightarrow> sql_like (p @ q) (p @ s)"
proof (induction p)
  case Nil
  then show ?case by simp
next
  case (Cons c p)
  then have IH: "sql_like (p @ q) (p @ s)" by blast
  consider "c = CHR ''%''" | "c = CHR ''_''" | "c \<noteq> CHR ''%''" "c \<noteq> CHR ''_''" by blast
  then show ?case
  proof cases
    case 1
    then have "skip_utf8 ((c # p) @ s) = p @ s" by (simp add: skip_utf8_def)
    moreover have "sql_like ((c # p) @ q) (p @ s)"
      by (subst append_Cons, subst sql_like.simps(2)) (simp add: 1 IH)
    ultimately show ?thesis
      by (subst append_Cons, subst sql_like.simps(2)) (simp add: 1)
  next
    case 2
    then show ?thesis using IH by (simp add: sql_like.simps(2) skip_utf8_def)
  next
    case 3
    then show ?thesis using IH by (simp add: sql_like.simps(2))
  qed
qed

lemma sql_like_percent: "sql_like ''%'' s"
proof (induction s rule: length_induct)
  case (1 s)
  then have "s \<noteq> [] \<Longrightarrow> sql_like ''%'' (skip_utf8 s)" by (simp add: length_skip_utf8)
  then show ?case by (subst sql_like.simps(2)) simp
qed

lemma sql_like_subtree: "prefix (p @ ''/'') s \<Longrightarrow> sql_like (p @ ''/%'') s"
proof -
  assume "prefix (p @ ''/'') s"
  then obtain t where s: "s = (p @ ''/'') @ t" by (auto simp: prefix_def)
  have "sql_like ((p @ ''/'') @ ''%'') s"
    unfolding s by (intro sql_like_append sql_like_percent)
  then show ?thesis by simp
qed

end
