(* ===== verification/AclTables.thy ===== *)
theory AclTables
  imports Tables
begin

text \<open>
  \<open>config_acl\<close> and \<open>directory_acl\<close>: the load, insert, delete and replace code of
  \<open>internal/store/sqlite/store.go\<close> that both tables share, parameterised by the table, and the
  contract \<open>owner_acls\<close> that the store operations rely on, interpreted for both tables.
\<close>

datatype acl_table = Config_acl | Directory_acl

fun acl_rows :: "acl_table \<Rightarrow> db \<Rightarrow> acl_row list" where
  "acl_rows Config_acl s = config_acl_table s"
| "acl_rows Directory_acl s = directory_acl_table s"

fun acl_rows_update :: "acl_table \<Rightarrow> (acl_row list \<Rightarrow> acl_row list) \<Rightarrow> db \<Rightarrow> db" where
  "acl_rows_update Config_acl f s = s\<lparr>config_acl_table := f (config_acl_table s)\<rparr>"
| "acl_rows_update Directory_acl f s = s\<lparr>directory_acl_table := f (directory_acl_table s)\<rparr>"

text \<open>\<open>types.Acl(r.Acl)\<close> keeps the low 32 bits of the stored integer, as a signed value.\<close>

definition aclRow_toProto :: "acl_row \<Rightarrow> config_acl" where
  "aclRow_toProto r = \<lparr>acl_level = Acl (signed_take_bit 31 (ar_acl r)), acl_tag = ar_tag r,
     acl_everyone = (ar_everyone r \<noteq> 0)\<rparr>"

text \<open>\<open>loadACLs\<close>: a map from owner id to entries, absent owners reading as the nil slice.\<close>

definition loadACLs :: "acl_table \<Rightarrow> db \<Rightarrow> int list \<Rightarrow> (int \<Rightarrow> config_acl list)" where
  "loadACLs tbl s ownerIDs =
     (if length ownerIDs = 0 then (\<lambda>_. [])
      else foldl (\<lambda>out row. out(ar_owner_id row := out (ar_owner_id row) @ [aclRow_toProto row])) (\<lambda>_. [])
             (sort_key ar_id (filter (\<lambda>r. ar_owner_id r \<in> set ownerIDs) (acl_rows tbl s))))"

definition aclsForOwner :: "acl_table \<Rightarrow> db \<Rightarrow> int \<Rightarrow> config_acl list" where
  "aclsForOwner tbl s ownerID = loadACLs tbl s [ownerID] ownerID"

text \<open>The primary key a new row gets: the largest of the table plus one.\<close>

definition next_row_id :: "acl_row list \<Rightarrow> int" where
  "next_row_id rows = foldl max 0 (map ar_id rows) + 1"

definition new_acl_row :: "acl_row list \<Rightarrow> int \<Rightarrow> config_acl \<Rightarrow> acl_row" where
  "new_acl_row rows ownerID acl =
     \<lparr>ar_id = next_row_id rows, ar_owner_id = ownerID, ar_acl = acl_num (acl_level acl),
      ar_tag = acl_tag acl, ar_everyone = (if acl_everyone acl then 1 else 0)\<rparr>"

text \<open>The loop of \<open>insertACLs\<close>, appending one row per entry it does not skip.\<close>

fun insert_acl_rows :: "int \<Rightarrow> config_acl list \<Rightarrow> acl_row list \<Rightarrow> acl_row list" where
  "insert_acl_rows ownerID [] rows = rows"
| "insert_acl_rows ownerID (acl # acls) rows =
     (if acl_level acl \<noteq> Acl_READ \<and> acl_level acl \<noteq> Acl_WRITE
      then insert_acl_rows ownerID acls rows
      else insert_acl_rows ownerID acls (rows @ [new_acl_row rows ownerID acl]))"

definition insertACLs :: "acl_table \<Rightarrow> int \<Rightarrow> config_acl list \<Rightarrow> db \<Rightarrow> db" where
  "insertACLs tbl ownerID acls = acl_rows_update tbl (insert_acl_rows ownerID acls)"

definition deleteACLs :: "acl_table \<Rightarrow> int \<Rightarrow> db \<Rightarrow> db" where
  "deleteACLs tbl ownerID = acl_rows_update tbl (filter (\<lambda>r. ar_owner_id r \<noteq> ownerID))"

definition replaceACLs :: "acl_table \<Rightarrow> int \<Rightarrow> config_acl list \<Rightarrow> db \<Rightarrow> db" where
  "replaceACLs tbl ownerID acls s = insertACLs tbl ownerID acls (deleteACLs tbl ownerID s)"

section \<open>Reading back what was written\<close>

text \<open>The table invariant: ids ascending from 1, levels recognised, the flag a bit.\<close>

definition acl_row_ok :: "acl_row \<Rightarrow> bool" where
  "acl_row_ok r \<longleftrightarrow> 0 < ar_id r \<and> ar_acl r \<in> {1, 2} \<and> ar_everyone r \<in> {0, 1}"

definition acl_rows_ok :: "acl_row list \<Rightarrow> bool" where
  "acl_rows_ok rows \<longleftrightarrow> sorted_wrt (<) (map ar_id rows) \<and> list_all acl_row_ok rows"

lemma acl_rows_upd [simp]: "acl_rows tbl (acl_rows_update tbl f s) = f (acl_rows tbl s)"
  by (cases tbl) simp_all

lemma acl_rows_upd_other [simp]:
  "tbl \<noteq> tbl' \<Longrightarrow> acl_rows tbl (acl_rows_update tbl' f s) = acl_rows tbl s"
  by (cases tbl; cases tbl') simp_all

lemma fold_max_ge: "a \<le> foldl max a xs \<and> (\<forall>x \<in> set xs. x \<le> foldl max a (xs :: int list))"
proof (induction xs arbitrary: a)
  case Nil
  then show ?case by simp
next
  case (Cons x xs)
  have "max a x \<le> foldl max (max a x) xs" and "\<forall>y \<in> set xs. y \<le> foldl max (max a x) xs"
    using Cons [of "max a x"] by blast+
  then show ?case by auto
qed

lemma next_row_id_less: "r \<in> set rows \<Longrightarrow> ar_id r < next_row_id rows"
  using fold_max_ge [of 0 "map ar_id rows"] by (force simp: next_row_id_def)

lemma next_row_id_pos: "0 < next_row_id rows"
  using fold_max_ge [of 0 "map ar_id rows"] by (simp add: next_row_id_def)

lemma new_acl_row_fields [simp]:
  "ar_id (new_acl_row rows oid acl) = next_row_id rows"
  "ar_owner_id (new_acl_row rows oid acl) = oid"
  by (simp_all add: new_acl_row_def)

lemma new_acl_row_ok: "recognised acl \<Longrightarrow> acl_row_ok (new_acl_row rows oid acl)"
  by (auto simp: acl_row_ok_def new_acl_row_def recognised_def Acl_levels next_row_id_pos)

lemma acl_rows_ok_snoc:
  "acl_rows_ok rows \<Longrightarrow> recognised acl \<Longrightarrow> acl_rows_ok (rows @ [new_acl_row rows oid acl])"
  by (auto simp: acl_rows_ok_def sorted_wrt_append next_row_id_less new_acl_row_ok)

lemma insert_acl_rows_Cons:
  "insert_acl_rows oid (acl # acls) rows =
     insert_acl_rows oid acls (if recognised acl then rows @ [new_acl_row rows oid acl] else rows)"
  by (simp add: recognised_def)

declare insert_acl_rows.simps(2) [simp del]

lemma insert_acl_rows_ok: "acl_rows_ok rows \<Longrightarrow> acl_rows_ok (insert_acl_rows oid acls rows)"
  by (induction acls arbitrary: rows) (auto simp: insert_acl_rows_Cons acl_rows_ok_snoc)

lemma filter_acl_rows_ok: "acl_rows_ok rows \<Longrightarrow> acl_rows_ok (filter P rows)"
  by (auto simp: acl_rows_ok_def list_all_iff sorted_wrt_map intro: sorted_wrt_filter)

lemma sort_key_ids: "sorted_wrt (<) (map f xs) \<Longrightarrow> sort_key f (xs :: 'a list) = xs"
  for f :: "'a \<Rightarrow> int"
  by (intro sort_key_id_if_sorted) (simp add: strict_sorted_imp_sorted)

lemma foldl_group:
  "foldl (\<lambda>out row. out(k row := out (k row) @ [v row])) m rows o' =
     m o' @ map v (filter (\<lambda>r. k r = o') rows)"
  by (induction rows arbitrary: m) auto

lemma loadACLs_eq:
  assumes "acl_rows_ok (acl_rows tbl s)"
  shows "loadACLs tbl s ids oid =
    (if oid \<in> set ids
     then map aclRow_toProto (filter (\<lambda>r. ar_owner_id r = oid) (acl_rows tbl s)) else [])"
proof -
  let ?rs = "filter (\<lambda>r. ar_owner_id r \<in> set ids) (acl_rows tbl s)"
  have "acl_rows_ok ?rs" using assms by (rule filter_acl_rows_ok)
  then have "sort_key ar_id ?rs = ?rs" by (intro sort_key_ids) (simp add: acl_rows_ok_def)
  then show ?thesis
    by (cases ids) (auto simp: loadACLs_def foldl_group filter_empty_conv intro!: arg_cong [where f = "map _"] filter_cong)
qed

lemma aclsForOwner_eq:
  "acl_rows_ok (acl_rows tbl s) \<Longrightarrow> aclsForOwner tbl s oid =
     map aclRow_toProto (filter (\<lambda>r. ar_owner_id r = oid) (acl_rows tbl s))"
  by (simp add: aclsForOwner_def loadACLs_eq)

lemma loadACLs_owner:
  "acl_rows_ok (acl_rows tbl s) \<Longrightarrow> oid \<in> set ids \<Longrightarrow> loadACLs tbl s ids oid = aclsForOwner tbl s oid"
  by (simp add: aclsForOwner_eq loadACLs_eq)

lemma toProto_new_row: "recognised acl \<Longrightarrow> aclRow_toProto (new_acl_row rows oid acl) = acl"
  by (cases acl, cases "acl_level acl")
    (auto simp: recognised_def aclRow_toProto_def new_acl_row_def Acl_levels signed_take_bit_int_eq_self)

lemma filter_insert_acl_rows:
  "map aclRow_toProto (filter (\<lambda>r. ar_owner_id r = o') (insert_acl_rows oid acls rows)) =
     map aclRow_toProto (filter (\<lambda>r. ar_owner_id r = o') rows) @
       (if o' = oid then filter recognised acls else [])"
  by (induction acls arbitrary: rows) (simp_all add: insert_acl_rows_Cons toProto_new_row)

text \<open>
  The contract the configs and directories rely on: entries are kept per owner, inserting appends
  the recognised ones, deleting removes them all and no other owner is affected.
\<close>

locale owner_acls =
  fixes load :: "'s \<Rightarrow> int \<Rightarrow> config_acl list"
    and ins :: "int \<Rightarrow> config_acl list \<Rightarrow> 's \<Rightarrow> 's"
    and del :: "int \<Rightarrow> 's \<Rightarrow> 's"
    and ok :: "'s \<Rightarrow> bool"
  assumes load_ins: "ok s \<Longrightarrow>
      load (ins oid acls s) o' = (if o' = oid then load s oid @ filter recognised acls else load s o')"
    and load_del: "ok s \<Longrightarrow> load (del oid s) o' = (if o' = oid then [] else load s o')"
    and ok_ins: "ok s \<Longrightarrow> ok (ins oid acls s)"
    and ok_del: "ok s \<Longrightarrow> ok (del oid s)"
begin

lemma load_replace:
  "ok s \<Longrightarrow> load (ins oid acls (del oid s)) o' = (if o' = oid then filter recognised acls else load s o')"
  by (simp add: load_ins load_del ok_del)

lemma load_replace_owner: "ok s \<Longrightarrow> load (ins oid acls (del oid s)) oid = filter recognised acls"
  by (simp add: load_replace)

lemma ok_replace: "ok s \<Longrightarrow> ok (ins oid acls (del oid s))"
  by (simp add: ok_ins ok_del)

lemma replace_grants:
  "ok s \<Longrightarrow> acls_grant (load (ins oid acls (del oid s)) oid) tags r = acls_grant acls tags r"
  by (simp add: load_replace acls_grant_recognised)

lemma replace_twice: "ok s \<Longrightarrow>
    load (ins oid acls2 (del oid (ins oid acls1 (del oid s)))) o' = load (ins oid acls2 (del oid s)) o'"
  by (simp add: load_replace ok_replace)

end

lemma owner_acls_table:
  "owner_acls (aclsForOwner tbl) (insertACLs tbl) (deleteACLs tbl) (\<lambda>s. acl_rows_ok (acl_rows tbl s))"
proof (unfold_locales, goal_cases)
  case (1 s oid acls o')
  then show ?case
    by (simp add: aclsForOwner_eq insertACLs_def insert_acl_rows_ok filter_insert_acl_rows)
next
  case (2 s oid o')
  then show ?case
    by (auto simp: aclsForOwner_eq deleteACLs_def filter_acl_rows_ok filter_empty_conv
        intro!: arg_cong [where f = "map _"] filter_cong)
next
  case (3 s oid acls)
  then show ?case by (simp add: insertACLs_def insert_acl_rows_ok)
next
  case (4 s oid)
  then show ?case by (simp add: deleteACLs_def filter_acl_rows_ok)
qed

interpretation config_acls: owner_acls "aclsForOwner Config_acl" "insertACLs Config_acl"
    "deleteACLs Config_acl" "\<lambda>s. acl_rows_ok (acl_rows Config_acl s)"
  by (rule owner_acls_table)

interpretation directory_acls: owner_acls "aclsForOwner Directory_acl" "insertACLs Directory_acl"
    "deleteACLs Directory_acl" "\<lambda>s. acl_rows_ok (acl_rows Directory_acl s)"
  by (rule owner_acls_table)

end
