(* ===== verification/StoreDirectories.thy ===== *)
theory StoreDirectories
  imports AclTables
begin

text \<open>
  The directory operations of \<open>internal/store/sqlite/store.go\<close>: the lookup by path strings, the
  creation of missing ancestors, and the five methods of \<open>DirectoryStore\<close>.  Reads are functions
  of the database; writes are transactions.  Failures of the SQL driver itself (lost connection,
  cancelled context) are not modelled; every other error and early return is.
\<close>

section \<open>Reading directories\<close>

definition directory_of_row :: "config_acl list \<Rightarrow> directory_row \<Rightarrow> directory" where
  "directory_of_row acls r = Directory (show_int (dr_id r)) (dr_name r) (dr_path r) [] [] acls"

text \<open>The (path, name) pairs the WHERE clause accepts for one target.\<close>

definition path_constraints :: "string \<Rightarrow> (string \<times> string) list" where
  "path_constraints target =
     (let pathParts = clean_parts target
      in map (\<lambda>idx. (''/'' @ go_join ''/'' (take idx pathParts), pathParts ! idx))
             [0..<length pathParts])"

definition getDirectoriesByPathString :: "db \<Rightarrow> string list \<Rightarrow> directory list \<times> string list" where
  "getDirectoriesByPathString s targets =
     (let constraints = concat (map path_constraints targets)
      in if length constraints = 0 then ([], targets)
         else
           (let rows = sort_key dr_path
                  (filter (\<lambda>r. (dr_path r, dr_name r) \<in> set constraints) (directory_table s));
                aclsByDir = loadACLs Directory_acl s (map dr_id rows);
                protoDirectories = map (\<lambda>d. directory_of_row (aclsByDir (dr_id d)) d) rows;
                fetchedPaths = map Directory_FullPath protoDirectories;
                missing = filter (\<lambda>target. target \<notin> set fetchedPaths) targets
            in (protoDirectories, missing)))"

definition allDirectoriesWithACLs :: "db \<Rightarrow> directory list" where
  "allDirectoriesWithACLs s =
     (let rows = sort_key dr_path (directory_table s);
          aclsByDir = loadACLs Directory_acl s (map dr_id rows)
      in map (\<lambda>r. directory_of_row (aclsByDir (dr_id r)) r) rows)"

definition DirectoryChain :: "db \<Rightarrow> string \<Rightarrow> directory list \<times> string list" where
  "DirectoryChain s fullPath =
     (if fullPath = [] \<or> fullPath = ''/'' then ([], [])
      else getDirectoriesByPathString s [fullPath])"

definition requireDirectoryExists :: "db \<Rightarrow> string \<Rightarrow> store_error + unit" where
  "requireDirectoryExists s path =
     (if path = [] \<or> path = ''/'' then Inr ()
      else (case getDirectoriesByPathString s [path] of (_, missing) \<Rightarrow>
              if 0 < length missing then Inl (DirectoryDoesNotExist path) else Inr ()))"

text \<open>\<open>Inr None\<close> is the \<open>(nil, nil)\<close> result for an id without a row.\<close>

definition GetDirectoryByID :: "db \<Rightarrow> string \<Rightarrow> store_error + directory option" where
  "GetDirectoryByID s i =
     (case parse_int64 i of
        None \<Rightarrow> Inl (BadId i)
      | Some numericID \<Rightarrow>
          (case find (\<lambda>r. dr_id r = numericID) (directory_table s) of
             None \<Rightarrow> Inr None
           | Some ds \<Rightarrow> Inr (Some (directory_of_row (aclsForOwner Directory_acl s (dr_id ds)) ds))))"

section \<open>Creating directories\<close>

text \<open>The \<open>parent_id\<close> column has integer affinity, so the decimal id string is stored as its number.\<close>

definition createDirectory ::
    "string \<Rightarrow> string \<Rightarrow> string option \<Rightarrow> config_acl list \<Rightarrow> directory tx" where
  "createDirectory path name parentID acls =
     tx_bind nextInode (\<lambda>inode.
     tx_bind (tx_put (\<lambda>s. s\<lparr>directory_table := directory_table s @
        [\<lparr>dr_id = inode, dr_name = name, dr_path = path,
          dr_parent_id = Option.bind parentID parse_int64\<rparr>]\<rparr>)) (\<lambda>_.
     tx_bind (tx_put (insertACLs Directory_acl inode acls)) (\<lambda>_.
     tx_return (Directory (show_int inode) name path [] [] acls))))"

text \<open>One iteration of the loop over the missing paths; \<open>miss[:-1]\<close> would panic.\<close>

definition ensure_step ::
    "config_acl list \<Rightarrow> string \<Rightarrow> directory list \<Rightarrow> directory list tx" where
  "ensure_step acls miss directories =
     (case last_index CHR ''/'' miss of
        None \<Rightarrow> tx_fail GoPanic
      | Some lastSlash \<Rightarrow>
          (let parentPath = (if take lastSlash miss = [] then ''/'' else take lastSlash miss);
               name = drop (lastSlash + 1) miss;
               parentID = (if parentPath \<noteq> ''/''
                           then map_option d_id
                                  (find (\<lambda>existing. Directory_FullPath existing = parentPath) directories)
                           else None)
           in tx_bind (tx_map_error (CreatingDirectoryRow parentPath name)
                         (createDirectory parentPath name parentID acls))
                (\<lambda>newDir. tx_return (directories @ [newDir]))))"

definition paths_to_fetch :: "string list \<Rightarrow> string list" where
  "paths_to_fetch pathParts =
     map (\<lambda>idx. ''/'' @ go_join ''/'' (take (idx + 1) pathParts)) [0..<length pathParts]"

definition ensureDirectories :: "string \<Rightarrow> config_acl list \<Rightarrow> directory list tx" where
  "ensureDirectories fullPath acls =
     tx_bind (tx_get (\<lambda>s. getDirectoriesByPathString s (paths_to_fetch (clean_parts fullPath))))
       (\<lambda>(directories, missing).
          if length missing = 0 then tx_return directories
          else tx_fold (ensure_step acls) (sort missing) directories)"

definition create_full_path :: "string \<Rightarrow> string \<Rightarrow> string" where
  "create_full_path path name =
     (let parent = (if path = [] then ''/'' else path)
      in if parent = ''/'' then ''/'' @ name else parent @ ''/'' @ name)"

definition create_directory_body :: "string \<Rightarrow> config_acl list \<Rightarrow> directory option tx" where
  "create_directory_body fullPath acls =
     tx_bind (tx_get (\<lambda>s. getDirectoriesByPathString s [fullPath])) (\<lambda>(_, missing).
       if fullPath \<notin> set missing then tx_fail (DirectoryAlreadyExists fullPath)
       else tx_bind (tx_map_error (CreatingDirectory fullPath) (ensureDirectories fullPath acls))
         (\<lambda>components.
            case find (\<lambda>c. Directory_FullPath c = fullPath) components of
              Some c \<Rightarrow> tx_lift (\<lambda>s. GetDirectoryByID s (d_id c))
            | None \<Rightarrow> tx_fail (DirectoryNotFoundAfterCreation fullPath)))"

definition CreateDirectory :: "directory \<Rightarrow> db \<Rightarrow> (store_error + directory option) \<times> db" where
  "CreateDirectory dir s =
     (let name = trim_space (d_name dir)
      in if name = [] then (Inl DirectoryNameRequired, s)
         else with_tx (create_directory_body (create_full_path (d_path dir) name) (d_acls dir)) s)"

section \<open>Updating and deleting directories\<close>

definition update_directory_body :: "int \<Rightarrow> directory \<Rightarrow> directory option tx" where
  "update_directory_body numericID dir =
     tx_bind (tx_lift (\<lambda>s. GetDirectoryByID s (d_id dir))) (\<lambda>found.
       case found of
         None \<Rightarrow> tx_fail (DirectoryIdDoesNotExist (d_id dir))
       | Some existing \<Rightarrow>
           if d_name dir \<noteq> [] \<and> d_name dir \<noteq> d_name existing
           then tx_fail (DirectoryNameMismatch (d_name existing))
           else if d_path dir \<noteq> [] \<and> d_path dir \<noteq> d_path existing
           then tx_fail (DirectoryPathMismatch (d_path existing))
           else tx_bind (tx_put (replaceACLs Directory_acl numericID (d_acls dir))) (\<lambda>_.
                  tx_lift (\<lambda>s. GetDirectoryByID s (d_id dir))))"

definition UpdateDirectory :: "directory \<Rightarrow> db \<Rightarrow> (store_error + directory option) \<times> db" where
  "UpdateDirectory dir s =
     (case parse_int64 (d_id dir) of
        None \<Rightarrow> (Inl (BadId (d_id dir)), s)
      | Some numericID \<Rightarrow> with_tx (update_directory_body numericID dir) s)"

definition count_child_directories :: "db \<Rightarrow> int \<Rightarrow> nat" where
  "count_child_directories s numericID =
     length (filter (\<lambda>r. dr_parent_id r = Some numericID) (directory_table s))"

definition count_child_configs :: "db \<Rightarrow> string \<Rightarrow> nat" where
  "count_child_configs s fullPath =
     length (filter (\<lambda>r. cr_path r = fullPath \<or> sql_like (fullPath @ ''/%'') (cr_path r))
               (config_table s))"

definition delete_directory_body :: "int \<Rightarrow> string \<Rightarrow> unit tx" where
  "delete_directory_body numericID i =
     tx_bind (tx_lift (\<lambda>s. GetDirectoryByID s i)) (\<lambda>found.
       case found of
         None \<Rightarrow> tx_fail (DirectoryIdDoesNotExist i)
       | Some existing \<Rightarrow>
           (let fullPath = Directory_FullPath existing
            in tx_bind (tx_get (\<lambda>s. count_child_directories s numericID)) (\<lambda>childDirs.
                 if 0 < childDirs then tx_fail (DirectoryHasSubdirectories fullPath childDirs)
                 else tx_bind (tx_get (\<lambda>s. count_child_configs s fullPath)) (\<lambda>childConfigs.
                   if 0 < childConfigs then tx_fail (DirectoryHasConfigs fullPath childConfigs)
                   else tx_bind (tx_put (deleteACLs Directory_acl numericID)) (\<lambda>_.
                          tx_put (\<lambda>s. s\<lparr>directory_table :=
                            filter (\<lambda>r. dr_id r \<noteq> numericID) (directory_table s)\<rparr>))))))"

definition DeleteDirectory :: "string \<Rightarrow> db \<Rightarrow> (store_error + unit) \<times> db" where
  "DeleteDirectory i s =
     (case parse_int64 i of
        None \<Rightarrow> (Inl (BadId i), s)
      | Some numericID \<Rightarrow> with_tx (delete_directory_body numericID i) s)"

end
