(* ===== verification/StoreConfigs.thy ===== *)
theory StoreConfigs
  imports StoreDirectories
begin

text \<open>
  The config operations of \<open>internal/store/sqlite/store.go\<close>: lookups by path and by id, immutable
  content versions, \<open>insert\<close>, \<open>update\<close>, \<open>Upsert\<close> and \<open>Delete\<close>.  The time source \<open>s.now\<close> is an
  argument: the nanosecond stamp \<open>now\<close> of the call.
\<close>

section \<open>Reading configs\<close>

definition idStringFromNullInt :: "int option \<Rightarrow> string" where
  "idStringFromNullInt v = (case v of None \<Rightarrow> [] | Some i \<Rightarrow> show_int i)"

text \<open>Zero nanoseconds mean unknown; \<open>time.Unix\<close> normalises the nanosecond part to 0 up to 10^9.\<close>

definition timestampFromUnixNano :: "int \<Rightarrow> timestamp option" where
  "timestampFromUnixNano ns =
     (if ns = 0 then None
      else Some \<lparr>ts_seconds = ns div 10 ^ 9, ts_nanos = ns mod 10 ^ 9\<rparr>)"

text \<open>The LEFT JOIN on the current version: \<open>COALESCE(cc.content_size, 0)\<close>.\<close>

definition joined_content_size :: "db \<Rightarrow> config_row \<Rightarrow> int" where
  "joined_content_size s r =
     (case cr_current_content_id r of
        None \<Rightarrow> 0
      | Some i \<Rightarrow> (case find (\<lambda>cc. cc_id cc = i) (config_content_table s) of
                     None \<Rightarrow> 0 | Some cc \<Rightarrow> cc_content_size cc))"

text \<open>The proto config of a selected row; \<open>uint64(c.ContentSize)\<close> wraps.\<close>

definition config_of_row :: "db \<Rightarrow> config_acl list \<Rightarrow> config_row \<Rightarrow> config" where
  "config_of_row s acls r =
     \<lparr>c_id = show_int (cr_id r), c_name = cr_name r, c_content = None,
      c_content_size = word_of_int (joined_content_size s r), c_path = cr_path r, c_acls = acls,
      c_created_at = timestampFromUnixNano (cr_created_at r),
      c_updated_at = timestampFromUnixNano (cr_updated_at r),
      c_current_content_id = idStringFromNullInt (cr_current_content_id r)\<rparr>"

definition getConfigByPathAndName :: "db \<Rightarrow> string \<Rightarrow> string \<Rightarrow> config option" where
  "getConfigByPathAndName s path name =
     map_option (config_of_row s [])
       (find (\<lambda>r. cr_name r = name \<and> cr_path r = path) (config_table s))"

text \<open>The content part of \<open>GetConfigByID\<close>, for the version string \<open>version\<close> (empty: the current one).\<close>

definition load_content ::
    "db \<Rightarrow> int \<Rightarrow> config_row \<Rightarrow> string \<Rightarrow> config \<Rightarrow> store_error + config option" where
  "load_content s numericID cs version conf =
     (case (if version \<noteq> []
            then (case parse_int64 version of None \<Rightarrow> Inl (BadVersion version) | Some v \<Rightarrow> Inr (Some v))
            else Inr (cr_current_content_id cs)) of
        Inl e \<Rightarrow> Inl e
      | Inr None \<Rightarrow> Inr None
      | Inr (Some contentID) \<Rightarrow>
          (case find (\<lambda>cc. cc_id cc = contentID \<and> cc_config_id cc = numericID)
                  (config_content_table s) of
             None \<Rightarrow> Inr None
           | Some cc \<Rightarrow> Inr (Some (conf\<lparr>c_content := Some (cc_content cc),
                                       c_content_size := word_of_int (cc_content_size cc)\<rparr>))))"

definition GetConfigByID :: "db \<Rightarrow> string \<Rightarrow> bool \<Rightarrow> string \<Rightarrow> store_error + config option" where
  "GetConfigByID s i includeContent version =
     (case parse_int64 i of
        None \<Rightarrow> Inl (BadId i)
      | Some numericID \<Rightarrow>
          (case find (\<lambda>r. cr_id r = numericID) (config_table s) of
             None \<Rightarrow> Inr None
           | Some cs \<Rightarrow>
               (let conf = config_of_row s (aclsForOwner Config_acl s (cr_id cs)) cs
                in if includeContent then load_content s numericID cs version conf
                   else Inr (Some conf))))"

section \<open>Writing configs\<close>

definition new_content_row :: "int \<Rightarrow> int \<Rightarrow> bytes \<Rightarrow> 64 word \<Rightarrow> int \<Rightarrow> content_row" where
  "new_content_row contentInode configID content contentSize now =
     \<lparr>cc_id = contentInode, cc_config_id = configID, cc_content = content,
      cc_content_size = sint contentSize, cc_created_at = now, cc_updated_at = now\<rparr>"

text \<open>The driver binds a nil slice as NULL, which the column \<open>content BLOB NOT NULL\<close> rejects.\<close>

definition insert_content :: "int \<Rightarrow> int \<Rightarrow> bytes option \<Rightarrow> 64 word \<Rightarrow> int \<Rightarrow> unit tx" where
  "insert_content contentInode configID content contentSize now =
     (case content of
        None \<Rightarrow> tx_fail ContentIsNull
      | Some b \<Rightarrow> tx_put (\<lambda>s. s\<lparr>config_content_table := config_content_table s @
                    [new_content_row contentInode configID b contentSize now]\<rparr>))"

definition insert_config :: "config \<Rightarrow> int \<Rightarrow> int tx" where
  "insert_config config now =
     tx_bind nextInode (\<lambda>configInode.
     tx_bind nextInode (\<lambda>contentInode.
     tx_bind (tx_put (\<lambda>s. s\<lparr>config_table := config_table s @
        [\<lparr>cr_id = configInode, cr_name = c_name config, cr_path = c_path config,
          cr_current_content_id = Some contentInode, cr_created_at = now, cr_updated_at = now\<rparr>]\<rparr>)) (\<lambda>_.
     tx_bind (insert_content contentInode configInode (c_content config) (c_content_size config) now) (\<lambda>_.
     tx_bind (tx_put (insertACLs Config_acl configInode (c_acls config))) (\<lambda>_.
     tx_return configInode)))))"

text \<open>\<open>UPDATE config SET ... WHERE id = numericID\<close>; the content column is set only for a new version.\<close>

definition set_config_row :: "int \<Rightarrow> int \<Rightarrow> int option \<Rightarrow> db \<Rightarrow> db" where
  "set_config_row numericID now newContent s =
     s\<lparr>config_table := map (\<lambda>r.
         if cr_id r = numericID
         then (case newContent of
                 None \<Rightarrow> r\<lparr>cr_updated_at := now\<rparr>
               | Some i \<Rightarrow> r\<lparr>cr_updated_at := now, cr_current_content_id := Some i\<rparr>)
         else r) (config_table s)\<rparr>"

definition update_config :: "config \<Rightarrow> int \<Rightarrow> unit tx" where
  "update_config config now =
     (case parse_int64 (c_id config) of
        None \<Rightarrow> tx_fail (BadId (c_id config))
      | Some numericID \<Rightarrow>
          tx_bind
            (if c_content config \<noteq> None then
               tx_bind nextInode (\<lambda>contentInode.
               tx_bind (insert_content contentInode numericID (c_content config)
                          (c_content_size config) now) (\<lambda>_.
               tx_return (Some contentInode)))
             else tx_return None) (\<lambda>newContent.
          tx_bind (tx_put (set_config_row numericID now newContent)) (\<lambda>_.
          tx_put (replaceACLs Config_acl numericID (c_acls config)))))"

definition delete_config_body :: "int \<Rightarrow> unit tx" where
  "delete_config_body numeric =
     tx_bind (tx_put (deleteACLs Config_acl numeric)) (\<lambda>_.
     tx_bind (tx_put (\<lambda>s. s\<lparr>config_content_table :=
        filter (\<lambda>r. cc_config_id r \<noteq> numeric) (config_content_table s)\<rparr>)) (\<lambda>_.
     tx_put (\<lambda>s. s\<lparr>config_table := filter (\<lambda>r. cr_id r \<noteq> numeric) (config_table s)\<rparr>)))"

definition Delete :: "string \<Rightarrow> db \<Rightarrow> (store_error + unit) \<times> db" where
  "Delete i s =
     (case parse_int64 i of
        None \<Rightarrow> (Inl (BadId i), s)
      | Some numeric \<Rightarrow> with_tx (delete_config_body numeric) s)"

text \<open>
  \<open>Upsert\<close>.  In the update branch a missing config is a nil pointer: its getters read as empty
  strings, and the assignment to \<open>existing.Acls\<close> panics when both comparisons pass.
\<close>

definition upsert_insert :: "config \<Rightarrow> int \<Rightarrow> int tx" where
  "upsert_insert config now =
     tx_bind (tx_get (\<lambda>s. getConfigByPathAndName s (c_path config) (c_name config))) (\<lambda>existing.
       if existing \<noteq> None then tx_fail ConfigAlreadyExists
       else insert_config config now)"

definition upsert_update :: "config \<Rightarrow> int \<Rightarrow> int tx" where
  "upsert_update config now =
     tx_bind (tx_lift (\<lambda>s. GetConfigByID s (c_id config) False [])) (\<lambda>found.
       let name = (case found of None \<Rightarrow> [] | Some e \<Rightarrow> c_name e);
           path = (case found of None \<Rightarrow> [] | Some e \<Rightarrow> c_path e)
       in if name \<noteq> c_name config then tx_fail (ConfigNameMismatch name)
          else if path \<noteq> c_path config then tx_fail (ConfigPathMismatch path)
          else (case found of
                  None \<Rightarrow> tx_fail GoPanic
                | Some existing \<Rightarrow>
                    tx_bind (update_config (existing\<lparr>c_acls := c_acls config,
                        c_content_size := c_content_size config, c_content := c_content config\<rparr>) now)
                      (\<lambda>_. tx_return (case parse_int64 (c_id existing) of None \<Rightarrow> 0 | Some n \<Rightarrow> n))))"

definition upsert_body :: "config \<Rightarrow> int \<Rightarrow> config option tx" where
  "upsert_body config now =
     tx_bind (tx_lift (\<lambda>s. requireDirectoryExists s (c_path config))) (\<lambda>_.
     tx_bind (if c_id config = [] then upsert_insert config now else upsert_update config now)
       (\<lambda>fetchInode. tx_lift (\<lambda>s. GetConfigByID s (show_int fetchInode) False [])))"

definition Upsert :: "config \<Rightarrow> int \<Rightarrow> db \<Rightarrow> (store_error + config option) \<times> db" where
  "Upsert config now s = with_tx (upsert_body config now) s"

end
