(* ===== verification/StoreInv.thy ===== *)
theory StoreInv
  imports StoreConfigs
begin

text \<open>
  The well-formedness invariant of the database and the abstract view of its directories.  The
  invariant says what the schema's keys and foreign keys say (unique ids, existing owners, parents
  and current versions) and what the code maintains beside them: directory paths are the canonical
  strings of their components, every ancestor of a directory exists, a directory path and a config
  path/name pair occur once, and every config lives in a directory that exists.
\<close>

section \<open>The invariant\<close>

text \<open>The components of a directory row's full path.\<close>

definition row_parts :: "directory_row \<Rightarrow> string list" where
  "row_parts r = clean_parts (dr_path r) @ [dr_name r]"

definition parent_row_ok :: "directory_row list \<Rightarrow> directory_row \<Rightarrow> bool" where
  "parent_row_ok ds r =
     (if clean_parts (dr_path r) = [] then dr_parent_id r = None
      else (\<exists>p \<in> set ds. row_parts p = clean_parts (dr_path r) \<and> dr_parent_id r = Some (dr_id p)))"

definition directory_row_ok :: "directory_row list \<Rightarrow> directory_row \<Rightarrow> bool" where
  "directory_row_ok ds r \<longleftrightarrow>
     good_name (dr_name r) \<and> dr_path r = abs_path (clean_parts (dr_path r)) \<and> parent_row_ok ds r"

definition directories_ok :: "directory_row list \<Rightarrow> bool" where
  "directories_ok ds \<longleftrightarrow>
     distinct (map dr_id ds) \<and> distinct (map row_parts ds) \<and> (\<forall>r \<in> set ds. directory_row_ok ds r)"

definition config_path_ok :: "directory_row list \<Rightarrow> string \<Rightarrow> bool" where
  "config_path_ok ds path \<longleftrightarrow> path = [] \<or> path = ''/'' \<or> (\<exists>d \<in> set ds. path = abs_path (row_parts d))"

definition current_version_ok :: "content_row list \<Rightarrow> config_row \<Rightarrow> bool" where
  "current_version_ok vs r \<longleftrightarrow>
     (\<exists>v \<in> set vs. cr_current_content_id r = Some (cc_id v) \<and> cc_config_id v = cr_id r)"

definition configs_ok :: "directory_row list \<Rightarrow> content_row list \<Rightarrow> config_row list \<Rightarrow> bool" where
  "configs_ok ds vs cs \<longleftrightarrow>
     distinct (map cr_id cs) \<and> distinct (map (\<lambda>r. (cr_path r, cr_name r)) cs) \<and>
     (\<forall>r \<in> set cs. config_path_ok ds (cr_path r) \<and> current_version_ok vs r)"

definition contents_ok :: "config_row list \<Rightarrow> content_row list \<Rightarrow> bool" where
  "contents_ok cs vs \<longleftrightarrow>
     distinct (map cc_id vs) \<and> (\<forall>v \<in> set vs. cc_config_id v \<in> cr_id ` set cs)"

definition acls_owned :: "int set \<Rightarrow> acl_row list \<Rightarrow> bool" where
  "acls_owned ids rows \<longleftrightarrow> acl_rows_ok rows \<and> ar_owner_id ` set rows \<subseteq> ids"

definition ids_bounded :: "int \<Rightarrow> int set \<Rightarrow> bool" where
  "ids_bounded hi ids \<longleftrightarrow> ids \<subseteq> {1..hi}"

definition store_inv :: "db \<Rightarrow> bool" where
  "store_inv s \<longleftrightarrow>
     0 \<le> inode_top s \<and> inode_top s \<le> max_id \<and>
     ids_bounded (inode_top s) (dr_id ` set (directory_table s)) \<and>
     ids_bounded (inode_top s) (cr_id ` set (config_table s)) \<and>
     ids_bounded (inode_top s) (cc_id ` set (config_content_table s)) \<and>
     dr_id ` set (directory_table s) \<inter> cr_id ` set (config_table s) = {} \<and>
     directories_ok (directory_table s) \<and>
     configs_ok (directory_table s) (config_content_table s) (config_table s) \<and>
     contents_ok (config_table s) (config_content_table s) \<and>
     acls_owned (cr_id ` set (config_table s)) (config_acl_table s) \<and>
     acls_owned (dr_id ` set (directory_table s)) (directory_acl_table s)"

lemma store_inv_empty: "store_inv empty_db"
  by (simp add: store_inv_def empty_db_def ids_bounded_def directories_ok_def configs_ok_def
      contents_ok_def acls_owned_def acl_rows_ok_def max_id_def)

section \<open>Consequences for directories\<close>

lemma row_parts_not_Nil [simp]: "row_parts r \<noteq> []"
  by (simp add: row_parts_def)

lemma butlast_row_parts [simp]: "butlast (row_parts r) = clean_parts (dr_path r)"
  by (simp add: row_parts_def)

lemma last_row_parts [simp]: "last (row_parts r) = dr_name r"
  by (simp add: row_parts_def)

lemma directories_okD:
  assumes "directories_ok ds" and "r \<in> set ds"
  shows "good_name (dr_name r)" "dr_path r = abs_path (clean_parts (dr_path r))" "parent_row_ok ds r"
  using assms unfolding directories_ok_def directory_row_ok_def by blast+

lemma good_row_parts: "directories_ok ds \<Longrightarrow> r \<in> set ds \<Longrightarrow> good_path (row_parts r)"
  by (simp add: row_parts_def directories_okD(1))

lemma row_full_path:
  assumes "directories_ok ds" and "r \<in> set ds"
  shows "full_path (dr_path r) (dr_name r) = abs_path (row_parts r)"
  using full_path_abs [OF good_clean_parts, of "dr_path r" "dr_name r"]
  by (simp only: row_parts_def directories_okD(2) [OF assms, symmetric])

lemma directory_of_row_full_path:
  "directories_ok ds \<Longrightarrow> r \<in> set ds \<Longrightarrow>
     Directory_FullPath (directory_of_row acls r) = abs_path (row_parts r)"
  by (simp add: Directory_FullPath_def directory_of_row_def row_full_path)

lemma directory_of_row_sel [simp]:
  "d_id (directory_of_row acls r) = show_int (dr_id r)"
  "d_name (directory_of_row acls r) = dr_name r"
  "d_path (directory_of_row acls r) = dr_path r"
  "d_acls (directory_of_row acls r) = acls"
  "d_directories (directory_of_row acls r) = []"
  "d_configs (directory_of_row acls r) = []"
  by (simp_all add: directory_of_row_def)

lemma row_parts_unique:
  "directories_ok ds \<Longrightarrow> r \<in> set ds \<Longrightarrow> r' \<in> set ds \<Longrightarrow> row_parts r = row_parts r' \<Longrightarrow> r = r'"
  by (auto simp: directories_ok_def distinct_map inj_on_def)

lemma dr_id_unique:
  "directories_ok ds \<Longrightarrow> r \<in> set ds \<Longrightarrow> r' \<in> set ds \<Longrightarrow> dr_id r = dr_id r' \<Longrightarrow> r = r'"
  by (auto simp: directories_ok_def distinct_map inj_on_def)

text \<open>Every ancestor of a directory exists.\<close>

lemma parent_exists:
  assumes "directories_ok ds" and "r \<in> set ds" and "butlast (row_parts r) \<noteq> []"
  obtains p where "p \<in> set ds" "row_parts p = butlast (row_parts r)" "dr_parent_id r = Some (dr_id p)"
  using directories_okD(3) [OF assms(1,2)] assms(3) by (auto simp: parent_row_ok_def)

lemma ancestors_exist:
  assumes ok: "directories_ok ds"
  shows "r \<in> set ds \<Longrightarrow> prefix ps (row_parts r) \<Longrightarrow> ps \<noteq> [] \<Longrightarrow> \<exists>p \<in> set ds. row_parts p = ps"
proof (induction "length (row_parts r)" arbitrary: r rule: less_induct)
  case less
  show ?case
  proof (cases "ps = row_parts r")
    case True
    with less.prems show ?thesis by blast
  next
    case False
    with less.prems(2) have pre: "prefix ps (butlast (row_parts r))"
      by (metis append_butlast_last_id prefix_snoc row_parts_not_Nil)
    with less.prems(3) have "butlast (row_parts r) \<noteq> []" by auto
    then obtain p where p: "p \<in> set ds" "row_parts p = butlast (row_parts r)"
      using parent_exists [OF ok less.prems(1)] by blast
    then have "length (row_parts p) < length (row_parts r)" by (simp add: row_parts_def [of r])
    moreover have "prefix ps (row_parts p)" using pre p(2) by simp
    ultimately show ?thesis using less.hyps [of p] p(1) less.prems(3) by blast
  qed
qed

section \<open>The abstract directory tree\<close>

text \<open>Components of a directory to its stored ACL; \<open>None\<close> where no directory is.\<close>

definition dir_tree :: "db \<Rightarrow> string list \<Rightarrow> config_acl list option" where
  "dir_tree s ps = map_option (\<lambda>r. aclsForOwner Directory_acl s (dr_id r))
     (find (\<lambda>r. row_parts r = ps) (directory_table s))"

lemma find_row_parts:
  "directories_ok ds \<Longrightarrow> find (\<lambda>r. row_parts r = ps) ds = Some r \<longleftrightarrow> r \<in> set ds \<and> row_parts r = ps"
  by (rule find_Some_iff_distinct) (simp add: directories_ok_def)

lemma find_dr_id:
  "directories_ok ds \<Longrightarrow> find (\<lambda>r. dr_id r = i) ds = Some r \<longleftrightarrow> r \<in> set ds \<and> dr_id r = i"
  by (rule find_Some_iff_distinct) (simp add: directories_ok_def)

lemma dir_tree_None: "dir_tree s ps = None \<longleftrightarrow> ps \<notin> row_parts ` set (directory_table s)"
  by (simp add: dir_tree_def find_None_key)

lemma dir_tree_row:
  "directories_ok (directory_table s) \<Longrightarrow> r \<in> set (directory_table s) \<Longrightarrow>
     dir_tree s (row_parts r) = Some (aclsForOwner Directory_acl s (dr_id r))"
  by (simp add: dir_tree_def find_row_parts [THEN iffD2])

lemma dir_tree_Some:
  "directories_ok (directory_table s) \<Longrightarrow> dir_tree s ps = Some acls \<longleftrightarrow>
     (\<exists>r \<in> set (directory_table s). row_parts r = ps \<and> acls = aclsForOwner Directory_acl s (dr_id r))"
  by (auto simp: dir_tree_def find_row_parts)

text \<open>
  The contract of the tree towards its readers: names are good, the root has no entry and every
  nonempty prefix of a directory is a directory.
\<close>

locale path_tree =
  fixes tree :: "'s \<Rightarrow> string list \<Rightarrow> 'v option"
    and wf :: "'s \<Rightarrow> bool"
  assumes tree_root: "wf s \<Longrightarrow> tree s [] = None"
    and tree_good: "wf s \<Longrightarrow> tree s ps = Some v \<Longrightarrow> good_path ps"
    and tree_parent: "wf s \<Longrightarrow> tree s (ps @ [n]) = Some v \<Longrightarrow> ps \<noteq> [] \<Longrightarrow> \<exists>w. tree s ps = Some w"
begin

lemma tree_prefix:
  assumes "wf s"
  shows "tree s (ps @ qs) = Some v \<Longrightarrow> ps \<noteq> [] \<Longrightarrow> \<exists>w. tree s ps = Some w"
proof (induction qs arbitrary: v rule: rev_induct)
  case Nil
  then show ?case by auto
next
  case (snoc q qs)
  then show ?case using tree_parent [OF assms, of "ps @ qs" q v] by auto
qed

lemma tree_take:
  assumes "wf s" and "tree s ps = Some v" and "0 < n"
  shows "\<exists>w. tree s (take n ps) = Some w"
proof (cases "take n ps = []")
  case True
  with assms tree_root show ?thesis by auto
next
  case False
  with tree_prefix [OF assms(1), of "take n ps" "drop n ps" v] assms(2) show ?thesis by simp
qed

text \<open>The existing prefixes of any path are its first \<open>k\<close> ones, for some \<open>k\<close>.\<close>

lemma tree_depth:
  assumes "wf s"
  shows "\<exists>k \<le> length ps. \<forall>n. 0 < n \<longrightarrow> n \<le> length ps \<longrightarrow> (tree s (take n ps) \<noteq> None \<longleftrightarrow> n \<le> k)"
proof (induction ps rule: rev_induct)
  case Nil
  show ?case by auto
next
  case (snoc p ps)
  then obtain k where k: "k \<le> length ps"
    "\<And>n. 0 < n \<Longrightarrow> n \<le> length ps \<Longrightarrow> (tree s (take n ps) \<noteq> None) = (n \<le> k)" by blast
  show ?case
  proof (cases "tree s (ps @ [p])")
    case None
    with k have "tree s (take n (ps @ [p])) \<noteq> None \<longleftrightarrow> n \<le> k"
      if "0 < n" "n \<le> length (ps @ [p])" for n
      using that by (cases "n = Suc (length ps)") auto
    with k(1) show ?thesis by (intro exI [of _ k]) auto
  next
    case (Some v)
    then have "tree s (take n (ps @ [p])) \<noteq> None" if "0 < n" for n
      using tree_take [OF assms Some that] by auto
    then show ?thesis by (intro exI [of _ "Suc (length ps)"]) auto
  qed
qed

end

interpretation stored: path_tree dir_tree "\<lambda>s. directories_ok (directory_table s)"
proof (unfold_locales, goal_cases)
  case (1 s)
  show ?case by (auto simp: dir_tree_None dest: sym)
next
  case (2 s ps v)
  then show ?case by (auto simp: dir_tree_Some good_row_parts)
next
  case (3 s ps n v)
  then obtain r where r: "r \<in> set (directory_table s)" "row_parts r = ps @ [n]"
    by (auto simp: dir_tree_Some)
  then have "prefix ps (row_parts r)" by simp
  from ancestors_exist [OF 3(1) r(1) this 3(3)] show ?case
    using 3(1) by (auto dest: dir_tree_row)
qed

section \<open>Looking directories up by path\<close>

lemma path_constraints_iff:
  assumes "directories_ok ds" and "r \<in> set ds"
  shows "(dr_path r, dr_name r) \<in> set (path_constraints t) \<longleftrightarrow> prefix (row_parts r) (clean_parts t)"
proof -
  let ?ps = "clean_parts t" and ?qs = "clean_parts (dr_path r)"
  have "(dr_path r, dr_name r) \<in> set (path_constraints t) \<longleftrightarrow>
      (\<exists>i < length ?ps. abs_path ?qs = abs_path (take i ?ps) \<and> dr_name r = ?ps ! i)"
    using directories_okD(2) [OF assms] by (auto simp: path_constraints_def Let_def abs_path_def)
  also have "\<dots> \<longleftrightarrow> (\<exists>i < length ?ps. ?qs = take i ?ps \<and> dr_name r = ?ps ! i)" by simp
  also have "\<dots> \<longleftrightarrow> (\<exists>i < length ?ps. row_parts r = take (Suc i) ?ps)"
    by (auto simp: row_parts_def take_Suc_conv_app_nth)
  also have "\<dots> \<longleftrightarrow> prefix (row_parts r) ?ps"
    by (metis Suc_leI Suc_le_lessD append_eq_conv_conj length_greater_0_conv prefix_def
        prefix_length_le row_parts_not_Nil take_is_prefix gr0_implies_Suc)
  finally show ?thesis .
qed

lemma path_constraints_Nil: "path_constraints t = [] \<longleftrightarrow> clean_parts t = []"
  by (simp add: path_constraints_def Let_def)

text \<open>The rows a lookup selects.\<close>

definition selected_rows :: "db \<Rightarrow> string list \<Rightarrow> directory_row list" where
  "selected_rows s targets = sort_key dr_path
     (filter (\<lambda>r. \<exists>t \<in> set targets. prefix (row_parts r) (clean_parts t)) (directory_table s))"

text \<open>The full paths of all directories.\<close>

definition full_paths :: "db \<Rightarrow> string set" where
  "full_paths s = (\<lambda>r. abs_path (row_parts r)) ` set (directory_table s)"

lemma full_paths_abs:
  "directories_ok (directory_table s) \<Longrightarrow> good_path ps \<Longrightarrow>
     abs_path ps \<in> full_paths s \<longleftrightarrow> dir_tree s ps \<noteq> None"
  by (auto simp: full_paths_def dir_tree_None good_row_parts)

lemma acls_loaded:
  assumes "acl_rows_ok (directory_acl_table s)" and "r \<in> set rows"
  shows "loadACLs Directory_acl s (map dr_id rows) (dr_id r) = aclsForOwner Directory_acl s (dr_id r)"
  using assms by (intro loadACLs_owner) auto

definition stored_directory :: "db \<Rightarrow> directory_row \<Rightarrow> directory" where
  "stored_directory s r = directory_of_row (aclsForOwner Directory_acl s (dr_id r)) r"

lemma stored_directory_full_path:
  "directories_ok (directory_table s) \<Longrightarrow> r \<in> set (directory_table s) \<Longrightarrow>
     Directory_FullPath (stored_directory s r) = abs_path (row_parts r)"
  by (simp add: stored_directory_def directory_of_row_full_path)

lemma getDirectoriesByPathString_eq:
  assumes ok: "directories_ok (directory_table s)" and acls: "acl_rows_ok (directory_acl_table s)"
  shows "getDirectoriesByPathString s targets =
    (map (stored_directory s) (selected_rows s targets), filter (\<lambda>t. t \<notin> full_paths s) targets)"
proof (cases "\<forall>t \<in> set targets. clean_parts t = []")
  case True
  have none: "\<not> prefix (row_parts r) (clean_parts t)" if "t \<in> set targets" for r t
    using True that by auto
  have "t \<notin> full_paths s" if "t \<in> set targets" for t
    using True that good_row_parts [OF ok] by (auto simp: full_paths_def)
  then have "filter (\<lambda>t. t \<notin> full_paths s) targets = targets" by (simp add: filter_id_conv)
  moreover have "selected_rows s targets = []" using none by (simp add: selected_rows_def filter_empty_conv)
  ultimately show ?thesis using True
    by (simp add: getDirectoriesByPathString_def Let_def path_constraints_Nil)
next
  case False
  let ?cs = "concat (map path_constraints targets)"
  let ?rows = "sort_key dr_path (filter (\<lambda>r. (dr_path r, dr_name r) \<in> set ?cs) (directory_table s))"
  have "filter (\<lambda>r. (dr_path r, dr_name r) \<in> set ?cs) (directory_table s) =
      filter (\<lambda>r. \<exists>t \<in> set targets. prefix (row_parts r) (clean_parts t)) (directory_table s)"
    by (intro filter_cong) (auto simp: path_constraints_iff [OF ok])
  then have rows: "?rows = selected_rows s targets" by (simp add: selected_rows_def)
  let ?ds = "map (\<lambda>d. directory_of_row (loadACLs Directory_acl s (map dr_id ?rows) (dr_id d)) d) ?rows"
  have ds: "?ds = map (stored_directory s) (selected_rows s targets)"
    unfolding rows by (intro map_cong) (auto simp: stored_directory_def acls_loaded [OF acls])
  have sub: "set (selected_rows s targets) \<subseteq> set (directory_table s)" by (auto simp: selected_rows_def)
  have mem: "t \<in> set (map Directory_FullPath ?ds) \<longleftrightarrow> t \<in> full_paths s" if t: "t \<in> set targets" for t
  proof
    assume "t \<in> set (map Directory_FullPath ?ds)"
    then show "t \<in> full_paths s"
      using sub unfolding ds by (auto simp: full_paths_def stored_directory_full_path [OF ok])
  next
    assume "t \<in> full_paths s"
    then obtain r where r: "r \<in> set (directory_table s)" "t = abs_path (row_parts r)"
      by (auto simp: full_paths_def)
    then have "clean_parts t = row_parts r" by (simp add: good_row_parts [OF ok])
    with r(1) t have "r \<in> set (selected_rows s targets)"
      by (auto simp: selected_rows_def intro!: bexI [of _ t])
    then show "t \<in> set (map Directory_FullPath ?ds)"
      unfolding ds using r stored_directory_full_path [OF ok r(1)] by force
  qed
  have "filter (\<lambda>t. t \<notin> set (map Directory_FullPath ?ds)) targets = filter (\<lambda>t. t \<notin> full_paths s) targets"
    by (intro filter_cong refl) (blast dest: mem)
  moreover have "?cs \<noteq> []" using False by (auto simp: path_constraints_Nil)
  ultimately show ?thesis
    unfolding getDirectoriesByPathString_def Let_def by (simp only: ds length_0_conv if_False)
qed

end
