(* ===== verification/Samples.thy ===== *)
theory Samples
  imports StoreInv
begin

text \<open>
  A small concrete database, a few requests for it and the evaluation lemmas about them.  The
  theorems of the development are applied to it, so that each is seen to hold of something.

  Directory \<open>/team\<close> (inode 1) may be read by \<open>tag:dev\<close> and written by \<open>tag:ops\<close>; \<open>/team/docs\<close>
  (inode 2) is transparent; \<open>/spare\<close> (inode 5) is empty; the config \<open>/team/docs/app\<close> (inode 3) has one version (inode 4), may be
  read by everyone and written by \<open>tag:ops\<close>.
\<close>

definition sample_db :: db where
  "sample_db = \<lparr>inode_top = 5,
     config_table = [\<lparr>cr_id = 3, cr_name = ''app'', cr_path = ''/team/docs'',
       cr_current_content_id = Some 4, cr_created_at = 1000, cr_updated_at = 1000\<rparr>],
     config_content_table = [\<lparr>cc_id = 4, cc_config_id = 3, cc_content = [104, 105],
       cc_content_size = 2, cc_created_at = 1000, cc_updated_at = 1000\<rparr>],
     directory_table = [\<lparr>dr_id = 1, dr_name = ''team'', dr_path = ''/'', dr_parent_id = None\<rparr>,
       \<lparr>dr_id = 2, dr_name = ''docs'', dr_path = ''/team'', dr_parent_id = Some 1\<rparr>,
       \<lparr>dr_id = 5, dr_name = ''spare'', dr_path = ''/'', dr_parent_id = None\<rparr>],
     config_acl_table = [\<lparr>ar_id = 1, ar_owner_id = 3, ar_acl = 1, ar_tag = [], ar_everyone = 1\<rparr>,
       \<lparr>ar_id = 2, ar_owner_id = 3, ar_acl = 2, ar_tag = ''tag:ops'', ar_everyone = 0\<rparr>],
     directory_acl_table = [\<lparr>ar_id = 1, ar_owner_id = 1, ar_acl = 1, ar_tag = ''tag:dev'', ar_everyone = 0\<rparr>,
       \<lparr>ar_id = 2, ar_owner_id = 1, ar_acl = 2, ar_tag = ''tag:ops'', ar_everyone = 0\<rparr>]\<rparr>"

lemma sample_inv: "store_inv sample_db"
  by code_simp

definition sample_dir :: directory where
  "sample_dir = Directory [] ''new'' ''/team/fresh'' [] []
     [\<lparr>acl_level = Acl_READ, acl_tag = ''tag:dev'', acl_everyone = False\<rparr>,
      \<lparr>acl_level = Acl 7, acl_tag = ''tag:x'', acl_everyone = True\<rparr>]"

definition sample_dir_update :: directory where
  "sample_dir_update = Directory ''1'' ''team'' [] [] []
     [\<lparr>acl_level = Acl_WRITE, acl_tag = ''tag:lead'', acl_everyone = False\<rparr>]"

definition sample_config :: config where
  "sample_config = \<lparr>c_id = [], c_name = ''db'', c_content = Some [1, 2, 3], c_content_size = 3,
     c_path = ''/team'', c_acls = [\<lparr>acl_level = Acl_READ, acl_tag = ''tag:dev'', acl_everyone = False\<rparr>],
     c_created_at = None, c_updated_at = None, c_current_content_id = []\<rparr>"

definition sample_change :: config where
  "sample_change = sample_config\<lparr>c_id := ''3'', c_name := ''app'', c_path := ''/team/docs''\<rparr>"

text \<open>A pair whose first component is a result.\<close>

lemma result_pair: "\<not> isl (fst p) \<Longrightarrow> \<exists>d s'. p = (Inr d, s')"
  by (cases p; cases "fst p") auto

end
