(* ===== verification/CreateDirectoryProofs.thy ===== *)
theory CreateDirectoryProofs
  imports Samples
begin

text \<open>
  Directory creation (\<open>createDirectory\<close>, \<open>ensureDirectories\<close>, \<open>CreateDirectory\<close> of
  \<open>internal/store/sqlite/store.go\<close>): the loop over the missing paths adds exactly the missing
  prefixes to the abstract tree, every branch of the method is characterised, and the database
  invariant is kept.
\<close>

section \<open>Adding one directory\<close>

text \<open>The effect of \<open>createDirectory\<close> on the database, in terms of components.\<close>

definition add_directory :: "string list \<Rightarrow> string \<Rightarrow> config_acl list \<Rightarrow> db \<Rightarrow> db" where
  "add_directory qs n acls s =
     insertACLs Directory_acl (inode_top s + 1) acls
       (s\<lparr>inode_top := inode_top s + 1,
          directory_table := directory_table s @
            [\<lparr>dr_id = inode_top s + 1, dr_name = n, dr_path = abs_path qs,
              dr_parent_id = map_option dr_id (find (\<lambda>r. row_parts r = qs) (directory_table s))\<rparr>]\<rparr>)"

lemma insertACLs_sel [row_simps]:
  "inode_top (insertACLs tbl i acls s) = inode_top s"
  "config_table (insertACLs tbl i acls s) = config_table s"
  "config_content_table (insertACLs tbl i acls s) = config_content_table s"
  "directory_table (insertACLs tbl i acls s) = directory_table s"
  "config_acl_table (insertACLs Directory_acl i acls s) = config_acl_table s"
  "directory_acl_table (insertACLs Config_acl i acls s) = directory_acl_table s"
  "directory_acl_table (insertACLs Directory_acl i acls s) =
     insert_acl_rows i acls (directory_acl_table s)"
  "config_acl_table (insertACLs Config_acl i acls s) = insert_acl_rows i acls (config_acl_table s)"
  by (cases tbl; simp add: insertACLs_def)+

lemma deleteACLs_sel [row_simps]:
  "inode_top (deleteACLs tbl i s) = inode_top s"
  "config_table (deleteACLs tbl i s) = config_table s"
  "config_content_table (deleteACLs tbl i s) = config_content_table s"
  "directory_table (deleteACLs tbl i s) = directory_table s"
  "config_acl_table (deleteACLs Directory_acl i s) = config_acl_table s"
  "directory_acl_table (deleteACLs Config_acl i s) = directory_acl_table s"
  "directory_acl_table (deleteACLs Directory_acl i s) =
     filter (\<lambda>r. ar_owner_id r \<noteq> i) (directory_acl_table s)"
  "config_acl_table (deleteACLs Config_acl i s) = filter (\<lambda>r. ar_owner_id r \<noteq> i) (config_acl_table s)"
  by (cases tbl; simp add: deleteACLs_def)+

lemma insert_acl_rows_owners:
  "ar_owner_id ` set (insert_acl_rows i acls rows) \<subseteq> insert i (ar_owner_id ` set rows)"
proof (induction acls arbitrary: rows)
  case Nil
  show ?case by auto
next
  case (Cons a acls)
  from Cons [of "if recognised a then rows @ [new_acl_row rows i a] else rows"] show ?case
    unfolding insert_acl_rows_Cons by (auto split: if_splits)
qed

lemma acls_owned_insert:
  "acls_owned ids rows \<Longrightarrow> i \<in> ids' \<Longrightarrow> ids \<subseteq> ids' \<Longrightarrow> acls_owned ids' (insert_acl_rows i acls rows)"
  using insert_acl_rows_owners [of i acls rows] by (auto simp: acls_owned_def insert_acl_rows_ok)

lemma acls_owned_filter:
  "acls_owned ids rows \<Longrightarrow> (\<And>r. r \<in> set rows \<Longrightarrow> P r \<Longrightarrow> ar_owner_id r \<in> ids') \<Longrightarrow>
     acls_owned ids' (filter P rows)"
  by (auto simp: acls_owned_def filter_acl_rows_ok)

lemma aclsForOwner_cong:
  "acl_rows tbl s = acl_rows tbl s' \<Longrightarrow> aclsForOwner tbl s i = aclsForOwner tbl s' i"
  by (simp add: aclsForOwner_def loadACLs_def)

lemma aclsForOwner_unowned:
  "acls_owned ids (acl_rows tbl s) \<Longrightarrow> i \<notin> ids \<Longrightarrow> aclsForOwner tbl s i = []"
  by (force simp: acls_owned_def aclsForOwner_eq filter_empty_conv)

text \<open>Appending a directory row whose parent exists keeps the directory table well-formed.\<close>

lemma directories_ok_snoc:
  assumes ok: "directories_ok ds" and i: "i \<notin> dr_id ` set ds" and good: "good_path (qs @ [n])"
    and new: "qs @ [n] \<notin> row_parts ` set ds" and par: "qs = [] \<or> qs \<in> row_parts ` set ds"
    and r: "r = \<lparr>dr_id = i, dr_name = n, dr_path = abs_path qs,
              dr_parent_id = map_option dr_id (find (\<lambda>r. row_parts r = qs) ds)\<rparr>"
  shows "directories_ok (ds @ [r])" and "row_parts r = qs @ [n]"
proof -
  have cp: "clean_parts (dr_path r) = qs" using good by (simp add: r)
  then show rp: "row_parts r = qs @ [n]" by (simp add: row_parts_def r)
  have "find (\<lambda>r. row_parts r = []) ds = None" by (auto simp: find_None_iff)
  then have "parent_row_ok (ds @ [r]) r"
    using par find_row_parts [OF ok, of qs] cp
    by (cases "find (\<lambda>r. row_parts r = qs) ds") (auto simp: parent_row_ok_def r find_None_key)
  moreover have "directory_row_ok (ds @ [r]) x" if "x \<in> set ds" for x
    using directories_okD [OF ok that] unfolding directory_row_ok_def parent_row_ok_def by auto
  ultimately show "directories_ok (ds @ [r])"
    using ok i new good rp cp by (auto simp: directories_ok_def directory_row_ok_def r)
qed

text \<open>Configs stay where they are when directories are only added.\<close>

lemma configs_ok_more_dirs: "configs_ok ds vs cs \<Longrightarrow> set ds \<subseteq> set ds' \<Longrightarrow> configs_ok ds' vs cs"
  by (fastforce simp: configs_ok_def config_path_ok_def)

lemma ids_bounded_mono: "ids_bounded m ids \<Longrightarrow> m \<le> m' \<Longrightarrow> ids_bounded m' ids"
  by (auto simp: ids_bounded_def)

lemma ids_bounded_fresh: "ids_bounded m ids \<Longrightarrow> m + 1 \<notin> ids"
  by (auto simp: ids_bounded_def)

lemmas store_inv_dest = store_inv_def [THEN iffD1]

lemma store_inv_dirs: "store_inv s \<Longrightarrow> directories_ok (directory_table s)"
  by (simp add: store_inv_def)

lemma store_inv_dir_acls: "store_inv s \<Longrightarrow> acl_rows_ok (directory_acl_table s)"
  by (simp add: store_inv_def acls_owned_def)

lemma store_inv_config_acls: "store_inv s \<Longrightarrow> acl_rows_ok (config_acl_table s)"
  by (simp add: store_inv_def acls_owned_def)

lemma add_directory_sel [row_simps]:
  "inode_top (add_directory qs n acls s) = inode_top s + 1"
  "config_table (add_directory qs n acls s) = config_table s"
  "config_content_table (add_directory qs n acls s) = config_content_table s"
  "config_acl_table (add_directory qs n acls s) = config_acl_table s"
  by (simp_all add: add_directory_def row_simps)

text \<open>A missing directory with good components whose parent exists can be added.\<close>

definition can_add :: "db \<Rightarrow> string list \<Rightarrow> string \<Rightarrow> bool" where
  "can_add s qs n \<longleftrightarrow> store_inv s \<and> inode_top s < max_id \<and> good_path (qs @ [n]) \<and>
     dir_tree s (qs @ [n]) = None \<and> (qs = [] \<or> dir_tree s qs \<noteq> None)"

lemma can_addD:
  assumes "can_add s qs n"
  shows "store_inv s" "inode_top s < max_id" "good_path (qs @ [n])"
    "dir_tree s (qs @ [n]) = None" "qs = [] \<or> dir_tree s qs \<noteq> None"
    "inode_top s + 1 \<notin> dr_id ` set (directory_table s)"
    "inode_top s + 1 \<notin> cr_id ` set (config_table s)"
  using assms by (auto simp: can_add_def store_inv_def dest: ids_bounded_fresh)

lemma add_directory_row:
  assumes "can_add s qs n"
  obtains r where "directory_table (add_directory qs n acls s) = directory_table s @ [r]"
    "dr_id r = inode_top s + 1" "row_parts r = qs @ [n]"
    "directories_ok (directory_table s @ [r])"
proof -
  let ?r = "\<lparr>dr_id = inode_top s + 1, dr_name = n, dr_path = abs_path qs,
    dr_parent_id = map_option dr_id (find (\<lambda>r. row_parts r = qs) (directory_table s))\<rparr>"
  note inv = can_addD(1) [OF assms] and good = can_addD(3) [OF assms]
    and new = can_addD(4) [OF assms] and par = can_addD(5) [OF assms] and fresh = can_addD(6) [OF assms]
  have "qs @ [n] \<notin> row_parts ` set (directory_table s)"
    "qs = [] \<or> qs \<in> row_parts ` set (directory_table s)"
    using new par by (simp_all add: dir_tree_None)
  note * = directories_ok_snoc [OF store_inv_dirs [OF inv] fresh good this refl]
  show thesis
    by (rule that [of ?r]) (use * in \<open>simp_all add: add_directory_def row_simps\<close>)
qed

lemma add_directory_inv:
  assumes "can_add s qs n"
  shows "store_inv (add_directory qs n acls s)"
proof -
  note inv = can_addD(1) [OF assms] and room = can_addD(2) [OF assms]
  obtain r where r: "directory_table (add_directory qs n acls s) = directory_table s @ [r]"
    "dr_id r = inode_top s + 1" "directories_ok (directory_table s @ [r])"
    using add_directory_row [OF assms] by blast
  have "inode_top s + 1 \<notin> cr_id ` set (config_table s)" by (rule can_addD(7) [OF assms])
  moreover have "acls_owned (insert (inode_top s + 1) (dr_id ` set (directory_table s)))
      (insert_acl_rows (inode_top s + 1) acls (directory_acl_table s))"
    using inv by (intro acls_owned_insert [where ids = "dr_id ` set (directory_table s)"])
      (auto simp: store_inv_def)
  ultimately show ?thesis
    using inv r room configs_ok_more_dirs [of "directory_table s" _ _ "directory_table s @ [r]"]
    by (auto simp: store_inv_def add_directory_def row_simps ids_bounded_def)
qed

lemma add_directory_tree:
  assumes "can_add s qs n"
  shows "dir_tree (add_directory qs n acls s) = (dir_tree s)(qs @ [n] \<mapsto> filter recognised acls)"
proof
  fix p
  note inv = can_addD(1) [OF assms] and new = can_addD(4) [OF assms] and fresh = can_addD(6) [OF assms]
  obtain r where r: "directory_table (add_directory qs n acls s) = directory_table s @ [r]"
    "dr_id r = inode_top s + 1" "row_parts r = qs @ [n]"
    using add_directory_row [OF assms] by blast
  let ?s = "add_directory qs n acls s"
  let ?t = "s\<lparr>inode_top := inode_top s + 1, directory_table := directory_table ?s\<rparr>"
  have s': "?s = insertACLs Directory_acl (inode_top s + 1) acls ?t"
    by (simp add: add_directory_def row_simps)
  have ok: "acl_rows_ok (acl_rows Directory_acl ?t)" using inv by (simp add: store_inv_def acls_owned_def)
  have owned: "acls_owned (dr_id ` set (directory_table s)) (acl_rows Directory_acl s)"
    using inv by (simp add: store_inv_def)
  have same: "aclsForOwner Directory_acl ?t i = aclsForOwner Directory_acl s i" for i
    by (rule aclsForOwner_cong) simp
  have acl: "aclsForOwner Directory_acl ?s i =
      (if i = inode_top s + 1 then filter recognised acls else aclsForOwner Directory_acl s i)" for i
    using directory_acls.load_ins [OF ok, of "inode_top s + 1" acls i]
      aclsForOwner_unowned [OF owned fresh] by (simp add: s' [symmetric] same)
  show "dir_tree ?s p = ((dir_tree s)(qs @ [n] \<mapsto> filter recognised acls)) p"
  proof (cases "find (\<lambda>r. row_parts r = p) (directory_table s)")
    case None
    then show ?thesis by (simp add: dir_tree_def r find_append acl)
  next
    case (Some x)
    then have x: "x \<in> set (directory_table s)" "row_parts x = p"
      by (auto simp: find_row_parts [OF store_inv_dirs [OF inv]])
    then have "p \<noteq> qs @ [n]" using new by (metis dir_tree_None image_eqI)
    moreover have "dr_id x \<noteq> inode_top s + 1" using x(1) fresh by force
    ultimately show ?thesis using Some by (simp add: dir_tree_def r find_append acl)
  qed
qed

section \<open>The loop over the missing paths\<close>

text \<open>The database after adding \<open>qs @ [n1]\<close>, \<open>qs @ [n1, n2]\<close> and so on, and the path strings added.\<close>

fun add_missing :: "string list \<Rightarrow> string list \<Rightarrow> config_acl list \<Rightarrow> db \<Rightarrow> db" where
  "add_missing qs [] acls s = s"
| "add_missing qs (n # ns) acls s = add_missing (qs @ [n]) ns acls (add_directory qs n acls s)"

fun miss_paths :: "string list \<Rightarrow> string list \<Rightarrow> string list" where
  "miss_paths qs [] = []"
| "miss_paths qs (n # ns) = abs_path (qs @ [n]) # miss_paths (qs @ [n]) ns"

text \<open>The directory list the loop carries holds exactly the existing directories on the path.\<close>

definition dirs_cover :: "db \<Rightarrow> string list \<Rightarrow> directory list \<Rightarrow> bool" where
  "dirs_cover s ps dirs \<longleftrightarrow>
     (\<forall>r \<in> set (directory_table s). prefix (row_parts r) ps \<longrightarrow>
        (\<exists>d. find (\<lambda>e. Directory_FullPath e = abs_path (row_parts r)) dirs = Some d \<and>
             d_id d = show_int (dr_id r))) \<and>
     (\<forall>d \<in> set dirs. \<exists>r \<in> set (directory_table s). Directory_FullPath d = abs_path (row_parts r))"

lemma dr_id_range: "store_inv s \<Longrightarrow> r \<in> set (directory_table s) \<Longrightarrow> 0 < dr_id r \<and> dr_id r < 2 ^ 63"
  by (fastforce simp: store_inv_def ids_bounded_def max_id_def)

lemma parse_dr_id:
  "store_inv s \<Longrightarrow> r \<in> set (directory_table s) \<Longrightarrow> parse_int64 (show_int (dr_id r)) = Some (dr_id r)"
  using dr_id_range [of s r] by (intro parse_int64_show) auto

lemma createDirectory_eq:
  assumes "inode_top s < max_id"
    and "Option.bind pid parse_int64 = map_option dr_id (find (\<lambda>r. row_parts r = qs) (directory_table s))"
  shows "createDirectory (abs_path qs) n pid acls s =
    Inr (Directory (show_int (inode_top s + 1)) n (abs_path qs) [] [] acls, add_directory qs n acls s)"
  using assms
  by (simp add: createDirectory_def tx_bind_def nextInode_def tx_put_def tx_return_def add_directory_def)

lemma createDirectory_exhausted:
  "\<not> inode_top s < max_id \<Longrightarrow> createDirectory path n pid acls s = Inl InodeExhausted"
  by (simp add: createDirectory_def tx_bind_def nextInode_def)

text \<open>What the loop body computes from a missing path string.\<close>

lemma ensure_step_abs:
  assumes "good_path (qs @ [n])"
  shows "ensure_step acls (abs_path (qs @ [n])) dirs =
    tx_bind (tx_map_error (CreatingDirectoryRow (abs_path qs) n)
        (createDirectory (abs_path qs) n
           (if qs \<noteq> [] then map_option d_id (find (\<lambda>e. Directory_FullPath e = abs_path qs) dirs) else None)
           acls))
      (\<lambda>newDir. tx_return (dirs @ [newDir]))"
proof (cases "qs = []")
  case True
  with assms show ?thesis
    using last_index_abs_path [of n "[]"]
    by (simp add: ensure_step_def Let_def abs_path_single del: last_index.simps)
next
  case False
  with assms last_index_abs_path [of n qs] abs_path_snoc [OF False, of n] show ?thesis
    by (simp add: ensure_step_def Let_def)
qed

lemma ensure_step_ok:
  assumes add: "can_add s qs n" and cover: "dirs_cover s ps dirs" and pre: "prefix (qs @ [n]) ps"
  shows "\<exists>d. ensure_step acls (abs_path (qs @ [n])) dirs s = Inr (dirs @ [d], add_directory qs n acls s) \<and>
    dirs_cover (add_directory qs n acls s) ps (dirs @ [d])"
proof -
  note inv = can_addD(1) [OF add] and good = can_addD(3) [OF add]
  let ?pid = "if qs \<noteq> [] then map_option d_id (find (\<lambda>e. Directory_FullPath e = abs_path qs) dirs) else None"
  let ?d = "Directory (show_int (inode_top s + 1)) n (abs_path qs) [] [] acls"
  have pid: "Option.bind ?pid parse_int64 =
      map_option dr_id (find (\<lambda>r. row_parts r = qs) (directory_table s))"
  proof (cases "qs = []")
    case True
    then have "find (\<lambda>r. row_parts r = qs) (directory_table s) = None" by (auto simp: find_None_iff)
    with True show ?thesis by simp
  next
    case False
    with can_addD(5) [OF add] obtain p where p: "p \<in> set (directory_table s)" "row_parts p = qs"
      by (auto simp: dir_tree_None)
    moreover have "prefix qs ps" using pre by (meson append_prefixD)
    ultimately obtain d where "find (\<lambda>e. Directory_FullPath e = abs_path qs) dirs = Some d"
      "d_id d = show_int (dr_id p)"
      using cover by (fastforce simp: dirs_cover_def)
    moreover have "find (\<lambda>r. row_parts r = qs) (directory_table s) = Some p"
      using p find_row_parts [OF store_inv_dirs [OF inv]] by blast
    ultimately show ?thesis using False p parse_dr_id [OF inv p(1)] by simp
  qed
  have step: "ensure_step acls (abs_path (qs @ [n])) dirs s = Inr (dirs @ [?d], add_directory qs n acls s)"
    using createDirectory_eq [OF can_addD(2) [OF add] pid]
    by (simp add: ensure_step_abs [OF good] tx_bind_def tx_map_error_def tx_return_def)
  obtain r where r: "directory_table (add_directory qs n acls s) = directory_table s @ [r]"
    "dr_id r = inode_top s + 1" "row_parts r = qs @ [n]"
    using add_directory_row [OF add] by blast
  have fp: "Directory_FullPath ?d = abs_path (qs @ [n])" using good by (simp add: Directory_FullPath_def)
  have "find (\<lambda>e. Directory_FullPath e = abs_path (qs @ [n])) dirs = None"
  proof -
    have "Directory_FullPath d \<noteq> abs_path (qs @ [n])" if d: "d \<in> set dirs" for d
    proof -
      obtain x where x: "x \<in> set (directory_table s)" "Directory_FullPath d = abs_path (row_parts x)"
        using cover d by (auto simp: dirs_cover_def)
      then have "row_parts x \<noteq> qs @ [n]" using can_addD(4) [OF add] by (metis dir_tree_None image_eqI)
      with x good good_row_parts [OF store_inv_dirs [OF inv] x(1)] show ?thesis by simp
    qed
    then show ?thesis by (auto simp: find_None_iff)
  qed
  with cover have "dirs_cover (add_directory qs n acls s) ps (dirs @ [?d])"
    unfolding dirs_cover_def r by (auto simp: find_append r fp split: option.split)
  with step show ?thesis by blast
qed

text \<open>A suffix of missing components can be added from its first one on.\<close>

definition can_add_all :: "db \<Rightarrow> string list \<Rightarrow> string list \<Rightarrow> bool" where
  "can_add_all s qs ns \<longleftrightarrow> store_inv s \<and> good_path (qs @ ns) \<and> (qs = [] \<or> dir_tree s qs \<noteq> None) \<and>
     (\<forall>i < length ns. dir_tree s (qs @ take (Suc i) ns) = None)"

text \<open>Enough inode numbers are left for \<open>ns\<close> directories.\<close>

definition room_for :: "db \<Rightarrow> string list \<Rightarrow> bool" where
  "room_for s ns \<longleftrightarrow> inode_top s + int (length ns) \<le> max_id"

lemma room_for_simps [simp]:
  "store_inv s \<Longrightarrow> room_for s []"
  "room_for (add_directory qs n acls s) ns \<longleftrightarrow> room_for s (n # ns)"
  by (auto simp: room_for_def row_simps store_inv_def)

lemma room_for_Cons: "room_for s (n # ns) \<Longrightarrow> inode_top s < max_id"
  by (simp add: room_for_def)

lemma can_add_all_hd: "can_add_all s qs (n # ns) \<Longrightarrow> inode_top s < max_id \<Longrightarrow> can_add s qs n"
  by (force simp: can_add_all_def can_add_def)

lemma can_add_all_tl:
  assumes "can_add_all s qs (n # ns)" and "inode_top s < max_id"
  shows "can_add_all (add_directory qs n acls s) (qs @ [n]) ns"
proof -
  note add = can_add_all_hd [OF assms]
  have "dir_tree (add_directory qs n acls s) ((qs @ [n]) @ take (Suc i) ns) = None" if i: "i < length ns" for i
  proof -
    have "take (Suc i) ns \<noteq> []" using i by (cases ns) auto
    moreover have "dir_tree s (qs @ take (Suc (Suc i)) (n # ns)) = None"
      using assms i by (auto simp: can_add_all_def)
    ultimately show ?thesis by (simp add: add_directory_tree [OF add])
  qed
  with assms show ?thesis
    by (auto simp: can_add_all_def add_directory_tree [OF add] add_directory_inv [OF add] row_simps)
qed

lemma ensure_loop:
  assumes "can_add_all s qs ns" and "dirs_cover s (qs @ ns) dirs" and "room_for s ns"
  shows "\<exists>dirs'. tx_fold (ensure_step acls) (miss_paths qs ns) dirs s = Inr (dirs', add_missing qs ns acls s) \<and>
    dirs_cover (add_missing qs ns acls s) (qs @ ns) dirs'"
  using assms
proof (induction ns arbitrary: qs dirs s)
  case Nil
  then show ?case by (simp add: tx_simps)
next
  case (Cons n ns)
  note top = room_for_Cons [OF Cons.prems(3)]
  obtain d where d: "ensure_step acls (abs_path (qs @ [n])) dirs s = Inr (dirs @ [d], add_directory qs n acls s)"
    "dirs_cover (add_directory qs n acls s) (qs @ n # ns) (dirs @ [d])"
    using ensure_step_ok [OF can_add_all_hd [OF Cons.prems(1) top] Cons.prems(2)] by auto
  with Cons.IH [OF can_add_all_tl [OF Cons.prems(1) top], of acls "dirs @ [d]"] Cons.prems(3) show ?case
    by (simp add: tx_bind_def d(1))
qed

lemma add_missing_inv: "can_add_all s qs ns \<Longrightarrow> room_for s ns \<Longrightarrow> store_inv (add_missing qs ns acls s)"
proof (induction ns arbitrary: qs s)
  case Nil
  then show ?case by (simp add: can_add_all_def)
next
  case (Cons n ns)
  from Cons.IH [OF can_add_all_tl [OF Cons.prems(1) room_for_Cons [OF Cons.prems(2)]]] Cons.prems(2)
  show ?case by simp
qed

text \<open>The tree gains exactly the paths \<open>qs @ take i ns\<close>.\<close>

lemma add_missing_tree:
  "can_add_all s qs ns \<Longrightarrow> room_for s ns \<Longrightarrow> dir_tree (add_missing qs ns acls s) p =
     (if prefix p (qs @ ns) \<and> length qs < length p then Some (filter recognised acls) else dir_tree s p)"
proof (induction ns arbitrary: qs s)
  case Nil
  then show ?case by (auto dest: prefix_length_le)
next
  case (Cons n ns)
  note top = room_for_Cons [OF Cons.prems(2)]
  note add = can_add_all_hd [OF Cons.prems(1) top] and IH = Cons.IH [OF can_add_all_tl [OF Cons.prems(1) top]]
  show ?case
  proof (cases "p = qs @ [n]")
    case True
    then show ?thesis
      using IH Cons.prems(2) by (simp add: add_directory_tree [OF add])
  next
    case False
    have "p = qs @ [n]" if "prefix p (qs @ n # ns)" "length p = Suc (length qs)"
    proof -
      from that(1) obtain zs where "qs @ n # ns = p @ zs" by (auto simp: prefix_def)
      then have "take (Suc (length qs)) (qs @ n # ns) = take (length p) (p @ zs)" using that(2) by simp
      then show ?thesis by simp
    qed
    with False have "(prefix p (qs @ n # ns) \<and> length qs < length p) \<longleftrightarrow>
        (prefix p (qs @ n # ns) \<and> Suc (length qs) < length p)"
      by (metis Suc_lessD Suc_lessI)
    with False show ?thesis
      using IH Cons.prems(2) by (simp add: add_directory_tree [OF add])
  qed
qed

lemma create_path_exists:
  assumes "can_add_all s qs ns" and "room_for s ns" and "qs @ ns \<noteq> []"
  shows "dir_tree (add_missing qs ns acls s) (qs @ ns) \<noteq> None"
  using assms by (cases "ns = []") (auto simp: add_missing_tree can_add_all_def)

lemma add_missing_sel [row_simps]:
  "config_table (add_missing qs ns acls s) = config_table s"
  "config_content_table (add_missing qs ns acls s) = config_content_table s"
  "config_acl_table (add_missing qs ns acls s) = config_acl_table s"
  "inode_top (add_missing qs ns acls s) = inode_top s + int (length ns)"
  by (induction ns arbitrary: qs s) (simp_all add: row_simps)

text \<open>With too few inode numbers left the loop fails, and the transaction with it.\<close>

lemma ensure_loop_exhausted:
  assumes "can_add_all s qs ns" and "dirs_cover s (qs @ ns) dirs" and "\<not> room_for s ns"
  shows "\<exists>e. tx_fold (ensure_step acls) (miss_paths qs ns) dirs s = Inl e"
  using assms
proof (induction ns arbitrary: qs dirs s)
  case Nil
  then show ?case by (auto simp: can_add_all_def)
next
  case (Cons n ns)
  show ?case
  proof (cases "inode_top s < max_id")
    case True
    obtain d where d: "ensure_step acls (abs_path (qs @ [n])) dirs s = Inr (dirs @ [d], add_directory qs n acls s)"
      "dirs_cover (add_directory qs n acls s) (qs @ n # ns) (dirs @ [d])"
      using ensure_step_ok [OF can_add_all_hd [OF Cons.prems(1) True] Cons.prems(2)] by auto
    with Cons.IH [OF can_add_all_tl [OF Cons.prems(1) True], of acls "dirs @ [d]"] Cons.prems(3)
    show ?thesis by (simp add: tx_bind_def d(1))
  next
    case False
    have "good_path (qs @ [n])" using Cons.prems(1) by (simp add: can_add_all_def)
    with False show ?thesis
      by (simp add: ensure_step_abs createDirectory_exhausted tx_bind_def tx_map_error_def)
  qed
qed

section \<open>The missing paths of a lookup\<close>

lemma miss_paths_map:
  "miss_paths qs ns = map (\<lambda>i. abs_path (qs @ take (Suc i) ns)) [0..<length ns]"
proof (induction ns arbitrary: qs)
  case Nil
  show ?case by simp
next
  case (Cons n ns)
  have "[0..<length (n # ns)] = 0 # map Suc [0..<length ns]"
    by (simp add: map_Suc_upt upt_conv_Cons del: upt_Suc)
  then show ?case by (simp add: Cons.IH o_def)
qed

lemma paths_to_fetch_abs:
  "paths_to_fetch ps = map (\<lambda>i. abs_path (take (Suc i) ps)) [0..<length ps]"
  by (simp add: paths_to_fetch_def abs_path_def)

lemma sorted_miss_paths: "sorted (miss_paths qs ns)"
proof -
  have "abs_path (qs @ take (Suc i) ns) \<le> abs_path (qs @ take (Suc j) ns)" if "i \<le> j" for i j
  proof -
    have "take (Suc j) ns = take (Suc i) ns @ drop (Suc i) (take (Suc j) ns)"
      using that by (metis Suc_le_mono append_take_drop_id min.absorb1 take_take)
    then show ?thesis by (metis abs_path_le_append append.assoc)
  qed
  then show ?thesis by (auto simp: miss_paths_map sorted_iff_nth_mono)
qed

lemma filter_upt_ge: "filter (\<lambda>i. k \<le> i) [0..<n] = [k..<n]"
  by (induction n) (auto simp: le_Suc_eq)

text \<open>
  The paths \<open>ensureDirectories\<close> looks up split at the deepest existing one: what is missing are
  the paths below it, and they can all be added when inode numbers last.
\<close>

lemma missing_split:
  assumes inv: "store_inv s" and good: "good_path ps"
  shows "\<exists>qs ns. ps = qs @ ns \<and>
    filter (\<lambda>t. t \<notin> full_paths s) (paths_to_fetch ps) = miss_paths qs ns \<and>
    (qs = [] \<or> dir_tree s qs \<noteq> None) \<and> (\<forall>i < length ns. dir_tree s (qs @ take (Suc i) ns) = None)"
proof -
  note ok = store_inv_dirs [OF inv]
  obtain k where k: "k \<le> length ps"
    "\<And>n. 0 < n \<Longrightarrow> n \<le> length ps \<Longrightarrow> (dir_tree s (take n ps) \<noteq> None) = (n \<le> k)"
    using stored.tree_depth [OF ok, of ps] by blast
  have split: "take k ps @ take (Suc i) (drop k ps) = take (Suc (k + i)) ps" for i
    by (simp add: take_add [symmetric])
  have "filter (\<lambda>t. t \<notin> full_paths s) (paths_to_fetch ps) =
      map (\<lambda>i. abs_path (take (Suc i) ps)) (filter (\<lambda>i. dir_tree s (take (Suc i) ps) = None) [0..<length ps])"
    by (simp add: paths_to_fetch_abs filter_map o_def full_paths_abs [OF ok] good)
  also have "filter (\<lambda>i. dir_tree s (take (Suc i) ps) = None) [0..<length ps] = filter (\<lambda>i. k \<le> i) [0..<length ps]"
  proof (intro filter_cong refl)
    fix i assume "i \<in> set [0..<length ps]"
    then have "(dir_tree s (take (Suc i) ps) \<noteq> None) = (Suc i \<le> k)" by (intro k(2)) auto
    then show "(dir_tree s (take (Suc i) ps) = None) = (k \<le> i)" by auto
  qed
  also have "\<dots> = map (\<lambda>i. k + i) [0..<length (drop k ps)]"
    using k(1) by (simp add: filter_upt_ge map_add_upt add.commute)
  finally have "filter (\<lambda>t. t \<notin> full_paths s) (paths_to_fetch ps) = miss_paths (take k ps) (drop k ps)"
    by (simp add: miss_paths_map split o_def)
  moreover have "take k ps = [] \<or> dir_tree s (take k ps) \<noteq> None" using k by (cases "k = 0") auto
  moreover have "dir_tree s (take k ps @ take (Suc i) (drop k ps)) = None" if "i < length (drop k ps)" for i
    using k(2) [of "Suc (k + i)"] that by (simp add: split)
  ultimately show ?thesis by (intro exI [of _ "take k ps"] exI [of _ "drop k ps"]) auto
qed

lemma clean_parts_fetch: "good_path ps \<Longrightarrow> t \<in> set (paths_to_fetch ps) \<Longrightarrow> prefix (clean_parts t) ps"
  by (auto simp: paths_to_fetch_abs take_is_prefix)

lemma dirs_cover_start:
  assumes inv: "store_inv s" and good: "good_path ps"
  shows "dirs_cover s ps (map (stored_directory s) (selected_rows s (paths_to_fetch ps)))"
proof -
  note ok = store_inv_dirs [OF inv]
  let ?rows = "selected_rows s (paths_to_fetch ps)"
  have sub: "set ?rows \<subseteq> set (directory_table s)" by (auto simp: selected_rows_def)
  have find_row: "find (\<lambda>e. Directory_FullPath e = abs_path (row_parts r)) (map (stored_directory s) rows) =
      Some (stored_directory s r)"
    if "r \<in> set rows" "set rows \<subseteq> set (directory_table s)" for r rows
    using that
  proof (induction rows)
    case Nil
    then show ?case by simp
  next
    case (Cons x rows)
    then have x: "x \<in> set (directory_table s)" and r: "r \<in> set (directory_table s)" by auto
    have "abs_path (row_parts x) = abs_path (row_parts r) \<longleftrightarrow> x = r"
      using good_row_parts [OF ok x] good_row_parts [OF ok r] row_parts_unique [OF ok x r] by auto
    with Cons show ?case by (auto simp: stored_directory_full_path [OF ok x])
  qed
  have "\<exists>d. find (\<lambda>e. Directory_FullPath e = abs_path (row_parts r)) (map (stored_directory s) ?rows) = Some d \<and>
      d_id d = show_int (dr_id r)"
    if r: "r \<in> set (directory_table s)" "prefix (row_parts r) ps" for r
  proof -
    obtain n where n: "length (row_parts r) = Suc n" by (cases "length (row_parts r)") auto
    obtain zs where "ps = row_parts r @ zs" using r(2) by (auto simp: prefix_def)
    then have "row_parts r = take (Suc n) ps" by (simp add: n)
    moreover have "n < length ps" using prefix_length_le [OF r(2)] n by simp
    ultimately have "abs_path (row_parts r) \<in> set (paths_to_fetch ps)"
      by (auto simp: paths_to_fetch_abs)
    moreover have "clean_parts (abs_path (row_parts r)) = row_parts r" by (simp add: good_row_parts [OF ok r(1)])
    ultimately have "r \<in> set ?rows"
      using r(1) by (auto simp: selected_rows_def intro!: bexI [of _ "abs_path (row_parts r)"])
    then show ?thesis using find_row sub by (auto simp: stored_directory_def)
  qed
  moreover have "\<exists>r \<in> set (directory_table s). Directory_FullPath d = abs_path (row_parts r)"
    if "d \<in> set (map (stored_directory s) ?rows)" for d
    using that sub stored_directory_full_path [OF ok] by auto
  ultimately show ?thesis unfolding dirs_cover_def by blast
qed

text \<open>\<open>ensureDirectories\<close> adds what is missing and returns every directory on the path.\<close>

lemma ensureDirectories_spec:
  assumes inv: "store_inv s"
  obtains qs ns where "clean_parts t = qs @ ns" "can_add_all s qs ns"
    "\<And>dirs s'. ensureDirectories t acls s = Inr (dirs, s') \<Longrightarrow>
        room_for s ns \<and> s' = add_missing qs ns acls s \<and> dirs_cover s' (clean_parts t) dirs"
    "room_for s ns \<Longrightarrow> \<exists>dirs s'. ensureDirectories t acls s = Inr (dirs, s')"
proof -
  let ?ps = "clean_parts t"
  obtain qs ns where split: "?ps = qs @ ns"
    "filter (\<lambda>t. t \<notin> full_paths s) (paths_to_fetch ?ps) = miss_paths qs ns"
    "qs = [] \<or> dir_tree s qs \<noteq> None" "\<forall>i < length ns. dir_tree s (qs @ take (Suc i) ns) = None"
    using missing_split [OF inv good_clean_parts, of t] by blast
  let ?dirs = "map (stored_directory s) (selected_rows s (paths_to_fetch ?ps))"
  have add: "can_add_all s qs ns"
    using inv split good_clean_parts [of t] by (simp add: can_add_all_def split(1) [symmetric])
  have cover: "dirs_cover s (qs @ ns) ?dirs" using dirs_cover_start [OF inv good_clean_parts, of t] split(1) by simp
  have eq: "ensureDirectories t acls s = tx_fold (ensure_step acls) (miss_paths qs ns) ?dirs s"
    using getDirectoriesByPathString_eq [OF store_inv_dirs [OF inv] store_inv_dir_acls [OF inv]]
      sort_key_id_if_sorted [of "\<lambda>x. x" "miss_paths qs ns"] sorted_miss_paths [of qs ns]
    by (simp add: ensureDirectories_def tx_bind_def tx_get_def split(2))
  show thesis
  proof (rule that [OF split(1) add])
    fix dirs s' assume r: "ensureDirectories t acls s = Inr (dirs, s')"
    then have room: "room_for s ns" using ensure_loop_exhausted [OF add cover, of acls] eq by auto
    from ensure_loop [OF add cover room, of acls] r eq room split(1)
    show "room_for s ns \<and> s' = add_missing qs ns acls s \<and> dirs_cover s' ?ps dirs" by auto
  next
    assume "room_for s ns"
    from ensure_loop [OF add cover this, of acls] eq
    show "\<exists>dirs s'. ensureDirectories t acls s = Inr (dirs, s')" by auto
  qed
qed

section \<open>CreateDirectory\<close>

lemma GetDirectoryByID_row:
  assumes "store_inv s" and "r \<in> set (directory_table s)"
  shows "GetDirectoryByID s (show_int (dr_id r)) = Inr (Some (stored_directory s r))"
  using assms find_dr_id [OF store_inv_dirs [OF assms(1)], of "dr_id r" r]
  by (simp add: GetDirectoryByID_def parse_dr_id stored_directory_def)

lemma GetDirectoryByID_Some:
  assumes "store_inv s" and "GetDirectoryByID s i = Inr (Some d)"
  obtains r where "r \<in> set (directory_table s)" "parse_int64 i = Some (dr_id r)" "d = stored_directory s r"
  using assms(2) find_dr_id [OF store_inv_dirs [OF assms(1)]]
  by (auto simp: GetDirectoryByID_def stored_directory_def split: option.splits)

text \<open>The two ways a creation can end well or badly once the name is accepted.\<close>

lemma create_directory_body_Inr:
  assumes inv: "store_inv s" and r: "create_directory_body t acls s = Inr (d, s')"
  obtains qs ns row where "t = abs_path (clean_parts t)" "t \<notin> full_paths s"
    "clean_parts t = qs @ ns" "can_add_all s qs ns" "room_for s ns" "s' = add_missing qs ns acls s"
    "row \<in> set (directory_table s')" "row_parts row = clean_parts t" "d = Some (stored_directory s' row)"
proof -
  from r obtain dirs where dirs: "t \<notin> full_paths s" "ensureDirectories t acls s = Inr (dirs, s')"
    and c: "(case find (\<lambda>c. Directory_FullPath c = t) dirs of
        Some c \<Rightarrow> tx_lift (\<lambda>s. GetDirectoryByID s (d_id c))
      | None \<Rightarrow> tx_fail (DirectoryNotFoundAfterCreation t)) s' = Inr (d, s')"
    by (auto simp: create_directory_body_def tx_simps
          getDirectoriesByPathString_eq [OF store_inv_dirs [OF inv] store_inv_dir_acls [OF inv]]
        split: prod.splits if_splits option.splits)
  obtain qs ns where q: "clean_parts t = qs @ ns" "can_add_all s qs ns" "room_for s ns"
    "s' = add_missing qs ns acls s" "dirs_cover s' (clean_parts t) dirs"
    using ensureDirectories_spec [OF inv, of t acls] dirs(2) by metis
  have inv': "store_inv s'" using add_missing_inv [OF q(2,3)] q(4) by simp
  from c obtain x where x: "find (\<lambda>c. Directory_FullPath c = t) dirs = Some x"
    "GetDirectoryByID s' (d_id x) = Inr d"
    by (auto simp: tx_simps split: option.splits)
  then have "x \<in> set dirs" "Directory_FullPath x = t" by (auto simp: find_Some_iff)
  with q(5) obtain row where row: "row \<in> set (directory_table s')" "t = abs_path (row_parts row)"
    by (auto simp: dirs_cover_def)
  then have parts: "row_parts row = clean_parts t" by (simp add: good_row_parts [OF store_inv_dirs [OF inv']])
  with q(5) row x(1) have "d_id x = show_int (dr_id row)" by (fastforce simp: dirs_cover_def)
  with x(2) have "d = Some (stored_directory s' row)" by (simp add: GetDirectoryByID_row [OF inv' row(1)])
  with row(2) parts show thesis by (intro that [OF _ dirs(1) q(1,2,3,4) row(1) parts]) simp_all
qed

lemma CreateDirectory_Inr:
  assumes "store_inv s" and "CreateDirectory dir s = (Inr d, s')"
  obtains "trim_space (d_name dir) \<noteq> []"
    "create_directory_body (create_full_path (d_path dir) (trim_space (d_name dir))) (d_acls dir) s = Inr (d, s')"
  using assms(2) by (auto simp: CreateDirectory_def Let_def tx_simps split: if_splits)

lemma CreateDirectory_error_state: "CreateDirectory dir s = (Inl e, s') \<Longrightarrow> s' = s"
  by (auto simp: CreateDirectory_def Let_def tx_simps split: if_splits)

lemma CreateDirectory_inv: "store_inv s \<Longrightarrow> CreateDirectory dir s = (r, s') \<Longrightarrow> store_inv s'"
proof (cases r)
  case (Inl e)
  then show "store_inv s \<Longrightarrow> CreateDirectory dir s = (r, s') \<Longrightarrow> store_inv s'"
    by (auto dest: CreateDirectory_error_state)
next
  case (Inr d)
  assume inv: "store_inv s" and "CreateDirectory dir s = (r, s')"
  with Inr obtain t where "create_directory_body t (d_acls dir) s = Inr (d, s')"
    using CreateDirectory_Inr by metis
  with inv show "store_inv s'" using create_directory_body_Inr add_missing_inv by metis
qed

lemma create_directory_effect:
  assumes inv: "store_inv s" and res: "CreateDirectory dir s = (Inr d, s')"
    and ps: "ps = clean_parts (create_full_path (d_path dir) (trim_space (d_name dir)))"
  shows "dir_tree s ps = None"
    and "dir_tree s' = (\<lambda>p. if prefix p ps \<and> p \<noteq> [] \<and> dir_tree s p = None
                            then Some (filter recognised (d_acls dir)) else dir_tree s p)"
    and "config_table s' = config_table s \<and> config_content_table s' = config_content_table s"
    and "\<exists>leaf. d = Some leaf \<and> Directory_FullPath leaf = abs_path ps \<and>
           d_acls leaf = filter recognised (d_acls dir)"
proof -
  let ?t = "create_full_path (d_path dir) (trim_space (d_name dir))"
  obtain qs ns row where t: "?t = abs_path ps" "?t \<notin> full_paths s" "ps = qs @ ns"
    "can_add_all s qs ns" "room_for s ns" "s' = add_missing qs ns (d_acls dir) s"
    "row \<in> set (directory_table s')" "row_parts row = ps" "d = Some (stored_directory s' row)"
    using CreateDirectory_Inr [OF inv res] create_directory_body_Inr [OF inv] ps by metis
  have ok: "directories_ok (directory_table s)" using inv by (rule store_inv_dirs)
  have ok': "directories_ok (directory_table s')"
    using add_missing_inv [OF t(4,5)] t(6) by (simp add: store_inv_dirs)
  show none: "dir_tree s ps = None" using t(1,2) ps full_paths_abs [OF ok, of ps] by simp
  show tree: "dir_tree s' = (\<lambda>p. if prefix p ps \<and> p \<noteq> [] \<and> dir_tree s p = None
      then Some (filter recognised (d_acls dir)) else dir_tree s p)"
  proof
    fix p
    have old: "dir_tree s p \<noteq> None" if "prefix p ps" "p \<noteq> []" "\<not> length qs < length p"
    proof -
      have "prefix p qs" using that t(3) by (metis not_less prefix_length_prefix prefixI)
      moreover from this that(2) have "qs \<noteq> []" by auto
      with t(4) have "dir_tree s qs \<noteq> None" by (auto simp: can_add_all_def)
      ultimately show ?thesis using stored.tree_prefix [OF ok] that(2) by (fastforce simp: prefix_def)
    qed
    have new: "dir_tree s p = None" if pre: "prefix p ps" and long: "length qs < length p"
    proof -
      obtain i where i: "length p = length qs + Suc i" using long by (auto simp: less_iff_Suc_add)
      have "p = take (length p) ps" using pre by (auto simp: prefix_def)
      then have p: "p = qs @ take (Suc i) ns" using i t(3) by simp
      moreover have "i < length ns" using prefix_length_le [OF pre] i t(3) by simp
      ultimately show ?thesis using t(4) by (simp add: can_add_all_def)
    qed
    show "dir_tree s' p = (if prefix p ps \<and> p \<noteq> [] \<and> dir_tree s p = None
        then Some (filter recognised (d_acls dir)) else dir_tree s p)"
      unfolding t(6) add_missing_tree [OF t(4,5)] t(3) [symmetric]
      using old new by (cases "prefix p ps"; cases "length qs < length p") auto
  qed
  show "config_table s' = config_table s \<and> config_content_table s' = config_content_table s"
    by (simp add: t(6) row_simps)
  have "ps \<noteq> []" using t(8) by (metis row_parts_not_Nil)
  with none tree have "dir_tree s' ps = Some (filter recognised (d_acls dir))" by simp
  then have "aclsForOwner Directory_acl s' (dr_id row) = filter recognised (d_acls dir)"
    using dir_tree_row [OF ok' t(7)] t(8) by simp
  then show "\<exists>leaf. d = Some leaf \<and> Directory_FullPath leaf = abs_path ps \<and>
      d_acls leaf = filter recognised (d_acls dir)"
    using t(8,9) stored_directory_full_path [OF ok' t(7)] by (simp add: stored_directory_def)
qed

text \<open>
  C3: When \<open>CreateDirectory\<close> succeeds, the abstract tree gains exactly the missing nonempty
  prefixes of the requested path, the new leaf included, each carrying the recognised entries of
  the supplied ACL; every directory that existed keeps its own ACL, configs are untouched, and the
  returned directory is the leaf with its stored ACL.
\<close>

theorem create_directory_refines:
  assumes "store_inv s" and "CreateDirectory dir s = (Inr d, s')"
    and "ps = clean_parts (create_full_path (d_path dir) (trim_space (d_name dir)))"
  shows "dir_tree s ps = None \<and>
    dir_tree s' = (\<lambda>p. if prefix p ps \<and> p \<noteq> [] \<and> dir_tree s p = None
                     then Some (filter recognised (d_acls dir)) else dir_tree s p) \<and>
    config_table s' = config_table s \<and> config_content_table s' = config_content_table s \<and>
    (\<exists>leaf. d = Some leaf \<and> Directory_FullPath leaf = abs_path ps \<and>
       d_acls leaf = filter recognised (d_acls dir))"
  using create_directory_effect [OF assms] by blast

theorem create_directory_refines_witness:
  "\<exists>d s'. CreateDirectory sample_dir sample_db = (Inr d, s') \<and>
     dir_tree s' [''team'', ''fresh'', ''new''] =
       Some [\<lparr>acl_level = Acl_READ, acl_tag = ''tag:dev'', acl_everyone = False\<rparr>] \<and>
     config_table s' = config_table sample_db"
proof -
  have "\<not> isl (fst (CreateDirectory sample_dir sample_db))" by code_simp
  then obtain d s' where r: "CreateDirectory sample_dir sample_db = (Inr d, s')" using result_pair by metis
  have c: "clean_parts (create_full_path (d_path sample_dir) (trim_space (d_name sample_dir))) = [''team'', ''fresh'', ''new'']"
    "filter recognised (d_acls sample_dir) = [\<lparr>acl_level = Acl_READ, acl_tag = ''tag:dev'', acl_everyone = False\<rparr>]"
    by code_simp+
  show ?thesis
    using create_directory_refines [OF sample_inv r refl] r unfolding c by (intro exI [of _ d] exI [of _ s']) simp
qed

text \<open>
  C38: What \<open>CreateDirectory\<close> does with a nonempty name while inode numbers last: an existing path
  is rejected, a path that is not the canonical string of its components is rejected after the fact
  and rolled back, and every other path is created.
\<close>

theorem create_directory_outcome:
  assumes inv: "store_inv s" and name: "trim_space (d_name dir) \<noteq> []"
    and t: "t = create_full_path (d_path dir) (trim_space (d_name dir))"
    and room: "inode_top s + int (length (clean_parts t)) \<le> max_id"
  shows "if t = abs_path (clean_parts t) \<and> dir_tree s (clean_parts t) \<noteq> None
         then CreateDirectory dir s = (Inl (DirectoryAlreadyExists t), s)
         else if t \<noteq> abs_path (clean_parts t)
         then CreateDirectory dir s = (Inl (DirectoryNotFoundAfterCreation t), s)
         else \<exists>d s'. CreateDirectory dir s = (Inr d, s')"
proof -
  let ?ps = "clean_parts t"
  note ok = store_inv_dirs [OF inv]
  have dirs: "getDirectoriesByPathString s [t] =
      (map (stored_directory s) (selected_rows s [t]), if t \<in> full_paths s then [] else [t])"
    using getDirectoriesByPathString_eq [OF ok store_inv_dir_acls [OF inv], of "[t]"] by simp
  have eq: "CreateDirectory dir s = with_tx (create_directory_body t (d_acls dir)) s"
    using name t by (simp add: CreateDirectory_def)
  have exists: "t \<in> full_paths s \<longleftrightarrow> t = abs_path ?ps \<and> dir_tree s ?ps \<noteq> None"
  proof
    assume "t \<in> full_paths s"
    then show "t = abs_path ?ps \<and> dir_tree s ?ps \<noteq> None"
      using good_row_parts [OF ok] by (auto simp: full_paths_def dir_tree_None)
  next
    assume "t = abs_path ?ps \<and> dir_tree s ?ps \<noteq> None"
    then show "t \<in> full_paths s" using full_paths_abs [OF ok, of ?ps] by simp
  qed
  show ?thesis
  proof (cases "t \<in> full_paths s")
    case True
    then have "create_directory_body t (d_acls dir) s = Inl (DirectoryAlreadyExists t)"
      by (simp add: create_directory_body_def tx_bind_def tx_get_def dirs tx_fail_def)
    then show ?thesis using True exists eq by (simp add: with_tx_def)
  next
    case False
    obtain qs ns where q: "?ps = qs @ ns" "can_add_all s qs ns"
      "\<And>dirs s'. ensureDirectories t (d_acls dir) s = Inr (dirs, s') \<Longrightarrow>
         room_for s ns \<and> s' = add_missing qs ns (d_acls dir) s \<and> dirs_cover s' ?ps dirs"
      "room_for s ns \<Longrightarrow> \<exists>dirs s'. ensureDirectories t (d_acls dir) s = Inr (dirs, s')"
      using ensureDirectories_spec [OF inv, of t "d_acls dir"] by metis
    have rf: "room_for s ns" using room q(1) by (simp add: room_for_def)
    then obtain cs s' where e: "ensureDirectories t (d_acls dir) s = Inr (cs, s')" using q(4) by blast
    then have s': "s' = add_missing qs ns (d_acls dir) s" "dirs_cover s' ?ps cs" using q(3) by blast+
    have inv': "store_inv s'" using add_missing_inv [OF q(2) rf] s'(1) by simp
    note ok' = store_inv_dirs [OF inv']
    have body: "create_directory_body t (d_acls dir) s =
        (case find (\<lambda>c. Directory_FullPath c = t) cs of
           Some c \<Rightarrow> tx_lift (\<lambda>s. GetDirectoryByID s (d_id c))
         | None \<Rightarrow> tx_fail (DirectoryNotFoundAfterCreation t)) s'"
      using False by (simp add: create_directory_body_def tx_bind_def tx_get_def dirs tx_map_error_def e)
    show ?thesis
    proof (cases "t = abs_path ?ps")
      case True
      have "?ps \<noteq> []"
      proof
        assume "?ps = []"
        then have "t = ''/''" using True by simp
        then show False using name t
            by (auto simp: create_full_path_def Let_def append_eq_Cons_conv split: if_splits)
      qed
      then have "dir_tree s' ?ps \<noteq> None"
        using create_path_exists [OF q(2) rf] q(1) s'(1) by simp
      then obtain row where row: "row \<in> set (directory_table s')" "row_parts row = ?ps"
        by (auto simp: dir_tree_None)
      then obtain d where d: "find (\<lambda>c. Directory_FullPath c = t) cs = Some d" "d_id d = show_int (dr_id row)"
        using s'(2) True by (fastforce simp: dirs_cover_def)
      then have "create_directory_body t (d_acls dir) s = Inr (Some (stored_directory s' row), s')"
        by (simp add: body tx_lift_def GetDirectoryByID_row [OF inv' row(1)])
      then show ?thesis using False True exists eq by (simp add: with_tx_def)
    next
      case nc: False
      have "Directory_FullPath c \<noteq> t" if "c \<in> set cs" for c
        using s'(2) that nc good_row_parts [OF ok'] by (fastforce simp: dirs_cover_def)
      then have "find (\<lambda>c. Directory_FullPath c = t) cs = None" by (auto simp: find_None_iff)
      then show ?thesis using nc eq by (simp add: body with_tx_def tx_fail_def)
    qed
  qed
qed

theorem create_directory_outcome_witness:
  "CreateDirectory (Directory [] ''docs'' ''/team'' [] [] []) sample_db =
     (Inl (DirectoryAlreadyExists ''/team/docs''), sample_db)"
proof -
  let ?d = "Directory [] ''docs'' ''/team'' [] [] []"
  have t: "trim_space (d_name ?d) \<noteq> []" "''/team/docs'' = create_full_path (d_path ?d) (trim_space (d_name ?d))"
    "inode_top sample_db + int (length (clean_parts ''/team/docs'')) \<le> max_id" by code_simp+
  have "''/team/docs'' = abs_path (clean_parts ''/team/docs'')"
    "dir_tree sample_db (clean_parts ''/team/docs'') \<noteq> None" by code_simp+
  then show ?thesis using create_directory_outcome [OF sample_inv t] by (simp only: simp_thms if_True)
qed

end
