(* ===== verification/DirectoryProofs.thy ===== *)
theory DirectoryProofs
  imports CreateDirectoryProofs
begin

text \<open>
  \<open>UpdateDirectory\<close> and \<open>DeleteDirectory\<close> of \<open>internal/store/sqlite/store.go\<close>: what each does to
  the abstract tree on every branch, and that both keep the database invariant.  The lookups the
  API layer uses (\<open>DirectoryChain\<close>, \<open>requireDirectoryExists\<close>) are read off the tree as well.
\<close>

section \<open>Lookups\<close>

lemma requireDirectoryExists_iff:
  assumes inv: "store_inv s"
  shows "requireDirectoryExists s path = Inr () \<longleftrightarrow> config_path_ok (directory_table s) path"
  using getDirectoriesByPathString_eq [OF store_inv_dirs [OF inv] store_inv_dir_acls [OF inv], of "[path]"]
  by (auto simp: requireDirectoryExists_def config_path_ok_def full_paths_def)

lemma DirectoryChain_eq:
  assumes inv: "store_inv s" and "path \<noteq> []" "path \<noteq> ''/''"
  shows "DirectoryChain s path = (map (stored_directory s) (selected_rows s [path]),
    if path \<in> full_paths s then [] else [path])"
  using assms getDirectoriesByPathString_eq [OF store_inv_dirs [OF inv] store_inv_dir_acls [OF inv], of "[path]"]
  by (simp add: DirectoryChain_def)

text \<open>
  The chain of an existing directory is the directories at the nonempty prefixes of its path.
\<close>

lemma set_selected_rows:
  "set (selected_rows s [t]) = {r \<in> set (directory_table s). prefix (row_parts r) (clean_parts t)}"
  by (auto simp: selected_rows_def)

section \<open>UpdateDirectory\<close>

text \<open>The effect of replacing the ACL of one directory.\<close>

lemma replaceACLs_sel [row_simps]:
  "inode_top (replaceACLs tbl i acls s) = inode_top s"
  "config_table (replaceACLs tbl i acls s) = config_table s"
  "config_content_table (replaceACLs tbl i acls s) = config_content_table s"
  "directory_table (replaceACLs tbl i acls s) = directory_table s"
  "config_acl_table (replaceACLs Directory_acl i acls s) = config_acl_table s"
  "directory_acl_table (replaceACLs Config_acl i acls s) = directory_acl_table s"
  "directory_acl_table (replaceACLs Directory_acl i acls s) =
     insert_acl_rows i acls (filter (\<lambda>r. ar_owner_id r \<noteq> i) (directory_acl_table s))"
  "config_acl_table (replaceACLs Config_acl i acls s) =
     insert_acl_rows i acls (filter (\<lambda>r. ar_owner_id r \<noteq> i) (config_acl_table s))"
  by (simp_all add: replaceACLs_def row_simps)

lemma acls_owned_replace:
  "acls_owned ids rows \<Longrightarrow> i \<in> ids \<Longrightarrow>
     acls_owned ids (insert_acl_rows i acls (filter (\<lambda>r. ar_owner_id r \<noteq> i) rows))"
  by (rule acls_owned_insert [where ids = ids]) (auto simp: acls_owned_def filter_acl_rows_ok)

lemma replaceACLs_owner:
  assumes "acl_rows_ok (acl_rows tbl s)"
  shows "aclsForOwner tbl (replaceACLs tbl i acls s) j =
    (if j = i then filter recognised acls else aclsForOwner tbl s j)"
  using assms config_acls.load_replace [of s i acls j] directory_acls.load_replace [of s i acls j]
  by (cases tbl) (simp_all add: replaceACLs_def)

lemma replace_directory_acls:
  assumes inv: "store_inv s" and r: "r \<in> set (directory_table s)"
  shows "store_inv (replaceACLs Directory_acl (dr_id r) acls s)"
    and "dir_tree (replaceACLs Directory_acl (dr_id r) acls s) =
      (dir_tree s)(row_parts r \<mapsto> filter recognised acls)"
proof -
  let ?s = "replaceACLs Directory_acl (dr_id r) acls s"
  have "acls_owned (dr_id ` set (directory_table s)) (directory_acl_table ?s)"
    unfolding row_simps using inv r by (intro acls_owned_replace) (auto simp: store_inv_def)
  with inv show "store_inv ?s" by (simp add: store_inv_def row_simps)
  have acl: "aclsForOwner Directory_acl ?s i =
      (if i = dr_id r then filter recognised acls else aclsForOwner Directory_acl s i)" for i
    using store_inv_dir_acls [OF inv] by (intro replaceACLs_owner) simp
  have ok: "directories_ok (directory_table s)" using inv by (rule store_inv_dirs)
  show "dir_tree ?s = (dir_tree s)(row_parts r \<mapsto> filter recognised acls)"
  proof
    fix p
    show "dir_tree ?s p = ((dir_tree s)(row_parts r \<mapsto> filter recognised acls)) p"
    proof (cases "find (\<lambda>r. row_parts r = p) (directory_table s)")
      case None
      then have "p \<noteq> row_parts r" using r by (auto simp: find_None_iff)
      with None show ?thesis by (simp add: dir_tree_def row_simps)
    next
      case (Some x)
      then have x: "x \<in> set (directory_table s)" "row_parts x = p" by (auto simp: find_row_parts [OF ok])
      then have "dr_id x = dr_id r \<longleftrightarrow> p = row_parts r"
        using dr_id_unique [OF ok x(1) r] row_parts_unique [OF ok x(1) r] by auto
      with Some show ?thesis by (simp add: dir_tree_def row_simps acl)
    qed
  qed
qed

lemma UpdateDirectory_Inr:
  assumes inv: "store_inv s" and res: "UpdateDirectory dir s = (Inr d, s')"
  obtains r where "r \<in> set (directory_table s)" "parse_int64 (d_id dir) = Some (dr_id r)"
    "d_name dir = [] \<or> d_name dir = dr_name r" "d_path dir = [] \<or> d_path dir = dr_path r"
    "s' = replaceACLs Directory_acl (dr_id r) (d_acls dir) s" "d = Some (stored_directory s' r)"
proof -
  from res obtain n where n: "parse_int64 (d_id dir) = Some n"
    and body: "update_directory_body n dir s = Inr (d, s')"
    by (auto simp: UpdateDirectory_def tx_simps split: option.splits)
  from body obtain e where e: "GetDirectoryByID s (d_id dir) = Inr (Some e)"
    "d_name dir = [] \<or> d_name dir = d_name e" "d_path dir = [] \<or> d_path dir = d_path e"
    "s' = replaceACLs Directory_acl n (d_acls dir) s" "GetDirectoryByID s' (d_id dir) = Inr d"
    by (auto simp: update_directory_body_def tx_simps split: option.splits if_splits)
  obtain r where r: "r \<in> set (directory_table s)" "parse_int64 (d_id dir) = Some (dr_id r)"
    "e = stored_directory s r"
    using GetDirectoryByID_Some [OF inv e(1)] by blast
  with n have [simp]: "n = dr_id r" by simp
  have "store_inv s'" using replace_directory_acls(1) [OF inv r(1)] e(4) by simp
  moreover have "r \<in> set (directory_table s')" using r(1) e(4) by (simp add: row_simps)
  ultimately have "GetDirectoryByID s' (show_int (dr_id r)) = Inr (Some (stored_directory s' r))"
    by (rule GetDirectoryByID_row)
  then have "d = Some (stored_directory s' r)"
    using e(5) r(2) parse_dr_id [OF inv r(1)] by (simp add: GetDirectoryByID_def)
  with r e show thesis by (intro that [of r]) (auto simp: stored_directory_def)
qed

lemma UpdateDirectory_error_state: "UpdateDirectory dir s = (Inl e, s') \<Longrightarrow> s' = s"
  by (auto simp: UpdateDirectory_def tx_simps split: option.splits)

lemma UpdateDirectory_inv:
  assumes inv: "store_inv s" and res: "UpdateDirectory dir s = (r, s')"
  shows "store_inv s'"
proof (cases r)
  case (Inl e)
  with res have "s' = s" by (auto dest: UpdateDirectory_error_state)
  with inv show ?thesis by simp
next
  case (Inr d)
  with res obtain x where "x \<in> set (directory_table s)"
    "s' = replaceACLs Directory_acl (dr_id x) (d_acls dir) s"
    using UpdateDirectory_Inr [OF inv, of dir d s'] by metis
  with replace_directory_acls(1) [OF inv] show ?thesis by simp
qed

text \<open>
  A successful \<open>UpdateDirectory\<close> replaces the ACL of exactly one existing directory by the
  recognised supplied entries, accepts a supplied name and path only where they equal the stored
  ones, keeps every directory where it is and every config untouched, and returns the directory
  with the ACL now stored.
\<close>

theorem update_directory_refines:
  assumes inv: "store_inv s" and res: "UpdateDirectory dir s = (Inr d, s')"
  shows "\<exists>ps leaf. dir_tree s ps \<noteq> None \<and> dir_tree s' = (dir_tree s)(ps \<mapsto> filter recognised (d_acls dir)) \<and>
    d = Some leaf \<and> Directory_FullPath leaf = abs_path ps \<and> d_acls leaf = filter recognised (d_acls dir) \<and>
    (d_name dir = [] \<or> d_name dir = d_name leaf) \<and> (d_path dir = [] \<or> d_path dir = d_path leaf) \<and>
    parse_int64 (d_id leaf) = parse_int64 (d_id dir) \<and>
    config_table s' = config_table s \<and> config_acl_table s' = config_acl_table s"
proof -
  obtain r where r: "r \<in> set (directory_table s)" "parse_int64 (d_id dir) = Some (dr_id r)"
    "d_name dir = [] \<or> d_name dir = dr_name r" "d_path dir = [] \<or> d_path dir = dr_path r"
    "s' = replaceACLs Directory_acl (dr_id r) (d_acls dir) s" "d = Some (stored_directory s' r)"
    using UpdateDirectory_Inr [OF inv res] by blast
  have inv': "store_inv s'" using UpdateDirectory_inv [OF inv res] .
  have r': "r \<in> set (directory_table s')" using r(1,5) by (simp add: row_simps)
  have "aclsForOwner Directory_acl s' (dr_id r) = filter recognised (d_acls dir)"
    unfolding r(5) using store_inv_dir_acls [OF inv] by (subst replaceACLs_owner) simp_all
  moreover have "dir_tree s (row_parts r) \<noteq> None" using dir_tree_row [OF store_inv_dirs [OF inv] r(1)] by simp
  ultimately show ?thesis
    using r replace_directory_acls(2) [OF inv r(1), of "d_acls dir"] parse_dr_id [OF inv r(1)]
      stored_directory_full_path [OF store_inv_dirs [OF inv'] r']
    by (intro exI [of _ "row_parts r"] exI [of _ "stored_directory s' r"])
      (auto simp: stored_directory_def row_simps)
qed

theorem update_directory_refines_witness:
  "\<exists>d s' ps. UpdateDirectory sample_dir_update sample_db = (Inr d, s') \<and> dir_tree sample_db ps \<noteq> None \<and>
     dir_tree s' = (dir_tree sample_db)(ps \<mapsto> filter recognised (d_acls sample_dir_update))"
proof -
  have "\<not> isl (fst (UpdateDirectory sample_dir_update sample_db))" by code_simp
  then obtain d s' where r: "UpdateDirectory sample_dir_update sample_db = (Inr d, s')" using result_pair by metis
  show ?thesis using update_directory_refines [OF sample_inv r] r by blast
qed

section \<open>DeleteDirectory\<close>

definition remove_directory :: "int \<Rightarrow> db \<Rightarrow> db" where
  "remove_directory i s = (deleteACLs Directory_acl i s)
     \<lparr>directory_table := filter (\<lambda>r. dr_id r \<noteq> i) (directory_table s)\<rparr>"

lemma remove_directory_sel [row_simps]:
  "inode_top (remove_directory i s) = inode_top s"
  "config_table (remove_directory i s) = config_table s"
  "config_content_table (remove_directory i s) = config_content_table s"
  "config_acl_table (remove_directory i s) = config_acl_table s"
  "directory_table (remove_directory i s) = filter (\<lambda>r. dr_id r \<noteq> i) (directory_table s)"
  "directory_acl_table (remove_directory i s) = filter (\<lambda>r. ar_owner_id r \<noteq> i) (directory_acl_table s)"
  by (simp_all add: remove_directory_def row_simps)

text \<open>The counting query finds exactly the children in the tree.\<close>

lemma count_child_directories_pos:
  assumes ok: "directories_ok (directory_table s)" and r: "r \<in> set (directory_table s)"
  shows "0 < count_child_directories s (dr_id r) \<longleftrightarrow> (\<exists>n. dir_tree s (row_parts r @ [n]) \<noteq> None)"
proof
  assume "0 < count_child_directories s (dr_id r)"
  then obtain x where x: "x \<in> set (directory_table s)" "dr_parent_id x = Some (dr_id r)"
    by (auto simp: count_child_directories_def filter_empty_conv)
  then obtain p where "p \<in> set (directory_table s)" "row_parts p = clean_parts (dr_path x)" "dr_id p = dr_id r"
    using directories_okD(3) [OF ok x(1)] by (auto simp: parent_row_ok_def split: if_splits)
  then have "row_parts x = row_parts r @ [dr_name x]"
    using dr_id_unique [OF ok _ r] by (metis row_parts_def)
  then show "\<exists>n. dir_tree s (row_parts r @ [n]) \<noteq> None" using dir_tree_row [OF ok x(1)] by (intro exI) auto
next
  assume "\<exists>n. dir_tree s (row_parts r @ [n]) \<noteq> None"
  then obtain n x where x: "x \<in> set (directory_table s)" "row_parts x = row_parts r @ [n]"
    unfolding dir_tree_None by (metis imageE not_not)
  then have par: "clean_parts (dr_path x) = row_parts r" using butlast_row_parts [of x] by simp
  then obtain p where "p \<in> set (directory_table s)" "row_parts p = row_parts r" "dr_parent_id x = Some (dr_id p)"
    using directories_okD(3) [OF ok x(1)] by (auto simp: parent_row_ok_def)
  then have "dr_parent_id x = Some (dr_id r)" using row_parts_unique [OF ok _ r] by blast
  with x(1) show "0 < count_child_directories s (dr_id r)"
    by (auto simp: count_child_directories_def filter_empty_conv)
qed

lemma DeleteDirectory_Inr:
  assumes inv: "store_inv s" and res: "DeleteDirectory i s = (Inr u, s')"
  obtains r where "r \<in> set (directory_table s)" "parse_int64 i = Some (dr_id r)"
    "count_child_directories s (dr_id r) = 0" "count_child_configs s (abs_path (row_parts r)) = 0"
    "s' = remove_directory (dr_id r) s"
proof -
  from res obtain n where n: "parse_int64 i = Some n" and body: "delete_directory_body n i s = Inr (u, s')"
    by (auto simp: DeleteDirectory_def tx_simps split: option.splits)
  from body obtain e where e: "GetDirectoryByID s i = Inr (Some e)" "count_child_directories s n = 0"
    "count_child_configs s (Directory_FullPath e) = 0" "s' = remove_directory n s"
    by (auto simp: delete_directory_body_def tx_simps Let_def remove_directory_def row_simps
        split: option.splits if_splits)
  obtain r where r: "r \<in> set (directory_table s)" "parse_int64 i = Some (dr_id r)" "e = stored_directory s r"
    using GetDirectoryByID_Some [OF inv e(1)] by blast
  with n e stored_directory_full_path [OF store_inv_dirs [OF inv] r(1)] show thesis
    by (intro that [of r]) simp_all
qed

lemma no_config_below:
  assumes "count_child_configs s p = 0" and "c \<in> set (config_table s)"
  shows "cr_path c \<noteq> p" and "\<not> prefix (p @ ''/'') (cr_path c)"
  using assms sql_like_subtree [of p "cr_path c"] by (auto simp: count_child_configs_def filter_empty_conv)

lemma remove_directory_inv:
  assumes inv: "store_inv s" and r: "r \<in> set (directory_table s)"
    and dirs: "count_child_directories s (dr_id r) = 0"
    and configs: "count_child_configs s (abs_path (row_parts r)) = 0"
  shows "store_inv (remove_directory (dr_id r) s)"
proof -
  note ok = store_inv_dirs [OF inv]
  let ?ds = "filter (\<lambda>x. dr_id x \<noteq> dr_id r) (directory_table s)"
  have childless: "dr_parent_id x \<noteq> Some (dr_id r)" if "x \<in> set (directory_table s)" for x
    using dirs that by (auto simp: count_child_directories_def filter_empty_conv)
  have "directory_row_ok ?ds x" if x: "x \<in> set (directory_table s)" for x
  proof -
    have "parent_row_ok ?ds x"
      using directories_okD(3) [OF ok x] childless [OF x] unfolding parent_row_ok_def
      by (cases "clean_parts (dr_path x) = []") (auto intro: bexI)
    then show ?thesis using directories_okD(1,2) [OF ok x] unfolding directory_row_ok_def by blast
  qed
  then have ok': "directories_ok ?ds"
    using ok by (auto simp: directories_ok_def distinct_map_filter)
  have "config_path_ok ?ds (cr_path c)" if c: "c \<in> set (config_table s)" for c
  proof -
    have "config_path_ok (directory_table s) (cr_path c)" using inv c by (auto simp: store_inv_def configs_ok_def)
    then show ?thesis
      using no_config_below(1) [OF configs c] dr_id_unique [OF ok _ r] by (fastforce simp: config_path_ok_def)
  qed
  then have "configs_ok ?ds (config_content_table s) (config_table s)"
    using inv by (auto simp: store_inv_def configs_ok_def)
  moreover have "acls_owned (dr_id ` set ?ds) (filter (\<lambda>a. ar_owner_id a \<noteq> dr_id r) (directory_acl_table s))"
    using inv by (auto simp: store_inv_def acls_owned_def filter_acl_rows_ok)
  ultimately show ?thesis
    using inv ok' by (auto simp: store_inv_def row_simps ids_bounded_def)
qed

lemma DeleteDirectory_error_state: "DeleteDirectory i s = (Inl e, s') \<Longrightarrow> s' = s"
  by (auto simp: DeleteDirectory_def tx_simps split: option.splits)

lemma DeleteDirectory_inv:
  assumes inv: "store_inv s" and res: "DeleteDirectory i s = (r, s')"
  shows "store_inv s'"
proof (cases r)
  case (Inl e)
  with res have "s' = s" by (auto dest: DeleteDirectory_error_state)
  with inv show ?thesis by simp
next
  case (Inr u)
  with res obtain x where "x \<in> set (directory_table s)" "count_child_directories s (dr_id x) = 0"
    "count_child_configs s (abs_path (row_parts x)) = 0" "s' = remove_directory (dr_id x) s"
    using DeleteDirectory_Inr [OF inv, of i u s'] by metis
  with remove_directory_inv [OF inv] show ?thesis by simp
qed

lemma remove_directory_tree:
  assumes inv: "store_inv s" and r: "r \<in> set (directory_table s)"
  shows "dir_tree (remove_directory (dr_id r) s) = (dir_tree s)(row_parts r := None)"
proof
  fix p
  note ok = store_inv_dirs [OF inv]
  let ?s = "remove_directory (dr_id r) s"
  have acl: "aclsForOwner Directory_acl ?s i = aclsForOwner Directory_acl s i" if "i \<noteq> dr_id r" for i
    using directory_acls.load_del [of s "dr_id r" i] store_inv_dir_acls [OF inv] that
      aclsForOwner_cong [of Directory_acl ?s "deleteACLs Directory_acl (dr_id r) s" i]
    by (simp add: row_simps)
  have "find (\<lambda>x. row_parts x = p) (filter (\<lambda>x. dr_id x \<noteq> dr_id r) (directory_table s)) =
      (if p = row_parts r then None else find (\<lambda>x. row_parts x = p) (directory_table s))"
  proof (cases "p = row_parts r")
    case True
    then show ?thesis using row_parts_unique [OF ok _ r] by (auto simp: find_None_iff)
  next
    case False
    have "find (\<lambda>x. row_parts x = p) (filter (\<lambda>x. dr_id x \<noteq> dr_id r) xs) = find (\<lambda>x. row_parts x = p) xs"
      if "set xs \<subseteq> set (directory_table s)" for xs
      using that False dr_id_unique [OF ok _ r] by (induction xs) auto
    with False show ?thesis by simp
  qed
  moreover have "dr_id x \<noteq> dr_id r" if "find (\<lambda>x. row_parts x = p) (directory_table s) = Some x" "p \<noteq> row_parts r" for x
    using that dr_id_unique [OF ok _ r] by (auto simp: find_row_parts [OF ok])
  ultimately show "dir_tree ?s p = ((dir_tree s)(row_parts r := None)) p"
    by (auto simp: dir_tree_def row_simps acl split: option.split intro!: option.map_cong)
qed

text \<open>
  C22: A successful \<open>DeleteDirectory\<close> removes exactly one directory from the tree, and only an empty
  one: it had no subdirectory and no config lived in it or beneath it.  No ACL row of it is left and
  configs are untouched.
\<close>

theorem delete_directory_refines:
  assumes inv: "store_inv s" and res: "DeleteDirectory i s = (Inr u, s')"
  shows "\<exists>ps n. dir_tree s ps \<noteq> None \<and> dir_tree s' = (dir_tree s)(ps := None) \<and>
    (\<forall>m. dir_tree s (ps @ [m]) = None) \<and>
    (\<forall>c \<in> set (config_table s). cr_path c \<noteq> abs_path ps \<and> \<not> prefix (abs_path ps @ ''/'') (cr_path c)) \<and>
    parse_int64 i = Some n \<and> n \<notin> ar_owner_id ` set (directory_acl_table s') \<and>
    config_table s' = config_table s"
proof -
  obtain r where r: "r \<in> set (directory_table s)" "parse_int64 i = Some (dr_id r)"
    "count_child_directories s (dr_id r) = 0" "count_child_configs s (abs_path (row_parts r)) = 0"
    "s' = remove_directory (dr_id r) s"
    using DeleteDirectory_Inr [OF inv res] by blast
  note ok = store_inv_dirs [OF inv]
  have "\<forall>m. dir_tree s (row_parts r @ [m]) = None"
    using r(3) count_child_directories_pos [OF ok r(1)] by (metis less_numeral_extra(3))
  moreover have "dir_tree s (row_parts r) \<noteq> None" using dir_tree_row [OF ok r(1)] by simp
  ultimately show ?thesis
    using remove_directory_tree [OF inv r(1)] r(2,5) no_config_below [OF r(4)]
    by (intro exI [of _ "row_parts r"] exI [of _ "dr_id r"]) (auto simp: row_simps)
qed

theorem delete_directory_refines_witness:
  "\<exists>u s' ps. DeleteDirectory ''5'' sample_db = (Inr u, s') \<and> dir_tree sample_db ps \<noteq> None \<and>
     dir_tree s' = (dir_tree sample_db)(ps := None)"
proof -
  have "\<not> isl (fst (DeleteDirectory ''5'' sample_db))" by code_simp
  then obtain u s' where r: "DeleteDirectory ''5'' sample_db = (Inr u, s')" using result_pair by metis
  show ?thesis using delete_directory_refines [OF sample_inv r] r by blast
qed

end
