(* ===== verification/ConfigProofs.thy ===== *)
theory ConfigProofs
  imports DirectoryProofs
begin

text \<open>
  \<open>Upsert\<close>, \<open>Delete\<close> and \<open>GetConfigByID\<close> of \<open>internal/store/sqlite/store.go\<close>: the effect of each
  successful write, that the database invariant is kept, and what can be read back afterwards:
  the new content, every older version, and everything that belongs to other configs.
\<close>

section \<open>Reading a stored config\<close>

definition stored_config :: "db \<Rightarrow> config_row \<Rightarrow> config" where
  "stored_config s r = config_of_row s (aclsForOwner Config_acl s (cr_id r)) r"

text \<open>A version of a config: its content and recorded size.\<close>

definition version_content :: "db \<Rightarrow> int \<Rightarrow> int \<Rightarrow> (bytes \<times> 64 word) option" where
  "version_content s i v = map_option (\<lambda>cc. (cc_content cc, word_of_int (cc_content_size cc)))
     (find (\<lambda>cc. cc_id cc = v \<and> cc_config_id cc = i) (config_content_table s))"

lemma config_of_row_sel [simp]:
  "c_id (config_of_row s acls r) = show_int (cr_id r)"
  "c_name (config_of_row s acls r) = cr_name r"
  "c_path (config_of_row s acls r) = cr_path r"
  "c_acls (config_of_row s acls r) = acls"
  "c_content (config_of_row s acls r) = None"
  "c_content_size (config_of_row s acls r) = word_of_int (joined_content_size s r)"
  "c_created_at (config_of_row s acls r) = timestampFromUnixNano (cr_created_at r)"
  "c_updated_at (config_of_row s acls r) = timestampFromUnixNano (cr_updated_at r)"
  "c_current_content_id (config_of_row s acls r) = idStringFromNullInt (cr_current_content_id r)"
  by (simp_all add: config_of_row_def)

lemma store_inv_configs:
  "store_inv s \<Longrightarrow> configs_ok (directory_table s) (config_content_table s) (config_table s)"
  by (simp add: store_inv_def)

lemma store_inv_contents: "store_inv s \<Longrightarrow> contents_ok (config_table s) (config_content_table s)"
  by (simp add: store_inv_def)

lemma find_cr_id:
  "store_inv s \<Longrightarrow> find (\<lambda>r. cr_id r = i) (config_table s) = Some r \<longleftrightarrow> r \<in> set (config_table s) \<and> cr_id r = i"
  by (rule find_Some_iff_distinct) (simp add: store_inv_def configs_ok_def)

lemma find_cc_id:
  "store_inv s \<Longrightarrow> find (\<lambda>v. cc_id v = i) (config_content_table s) = Some v \<longleftrightarrow>
     v \<in> set (config_content_table s) \<and> cc_id v = i"
  by (rule find_Some_iff_distinct) (simp add: store_inv_def contents_ok_def)

lemma cr_id_unique:
  "store_inv s \<Longrightarrow> r \<in> set (config_table s) \<Longrightarrow> r' \<in> set (config_table s) \<Longrightarrow> cr_id r = cr_id r' \<Longrightarrow> r = r'"
  by (auto simp: store_inv_def configs_ok_def distinct_map inj_on_def)

lemma cc_id_unique:
  "store_inv s \<Longrightarrow> v \<in> set (config_content_table s) \<Longrightarrow> v' \<in> set (config_content_table s) \<Longrightarrow>
     cc_id v = cc_id v' \<Longrightarrow> v = v'"
  by (auto simp: store_inv_def contents_ok_def distinct_map inj_on_def)

text \<open>Ids of the tables print and parse back.\<close>

lemma ids_parse: "ids_bounded m ids \<Longrightarrow> m \<le> max_id \<Longrightarrow> i \<in> ids \<Longrightarrow> parse_int64 (show_int i) = Some i"
  by (intro parse_int64_show) (auto simp: ids_bounded_def max_id_def)

lemma parse_cr_id: "store_inv s \<Longrightarrow> r \<in> set (config_table s) \<Longrightarrow> parse_int64 (show_int (cr_id r)) = Some (cr_id r)"
  by (rule ids_parse [where m = "inode_top s" and ids = "cr_id ` set (config_table s)"]) (auto simp: store_inv_def)

lemma parse_cc_id:
  "store_inv s \<Longrightarrow> v \<in> set (config_content_table s) \<Longrightarrow> parse_int64 (show_int (cc_id v)) = Some (cc_id v)"
  by (rule ids_parse [where m = "inode_top s" and ids = "cc_id ` set (config_content_table s)"]) (auto simp: store_inv_def)

lemma current_version:
  assumes inv: "store_inv s" and r: "r \<in> set (config_table s)"
  obtains v where "v \<in> set (config_content_table s)" "cr_current_content_id r = Some (cc_id v)"
    "cc_config_id v = cr_id r"
  using assms by (auto simp: store_inv_def configs_ok_def current_version_ok_def)

lemma version_content_row:
  assumes inv: "store_inv s" and v: "v \<in> set (config_content_table s)"
  shows "version_content s (cc_config_id v) (cc_id v) = Some (cc_content v, word_of_int (cc_content_size v))"
proof -
  have "find (\<lambda>cc. cc_id cc = cc_id v \<and> cc_config_id cc = cc_config_id v) (config_content_table s) = Some v"
  proof (cases "find (\<lambda>cc. cc_id cc = cc_id v \<and> cc_config_id cc = cc_config_id v) (config_content_table s)")
    case None
    with v show ?thesis by (auto simp: find_None_iff)
  next
    case (Some w)
    then have "w \<in> set (config_content_table s)" "cc_id w = cc_id v" by (auto simp: find_Some_iff)
    with cc_id_unique [OF inv _ v] Some show ?thesis by blast
  qed
  then show ?thesis by (simp add: version_content_def)
qed

lemma joined_size_row:
  assumes inv: "store_inv s" and v: "v \<in> set (config_content_table s)"
    and r: "cr_current_content_id r = Some (cc_id v)"
  shows "joined_content_size s r = cc_content_size v"
  using find_cc_id [OF inv, of "cc_id v" v] v r by (simp add: joined_content_size_def)

text \<open>\<open>GetConfigByID\<close> on a well-formed database, in terms of the versions.\<close>

lemma GetConfigByID_none:
  assumes "parse_int64 i = Some n" and "n \<notin> cr_id ` set (config_table s)"
  shows "GetConfigByID s i b v = Inr None"
  using assms by (auto simp: GetConfigByID_def find_None_key [THEN iffD2])

lemma GetConfigByID_meta:
  assumes "store_inv s" and "r \<in> set (config_table s)" and "parse_int64 i = Some (cr_id r)"
  shows "GetConfigByID s i False v = Inr (Some (stored_config s r))"
  using assms find_cr_id [OF assms(1), of "cr_id r" r]
  by (simp add: GetConfigByID_def stored_config_def)

lemma GetConfigByID_version:
  assumes "store_inv s" and "r \<in> set (config_table s)" and "parse_int64 i = Some (cr_id r)" and "v \<noteq> []"
  shows "GetConfigByID s i True v = (case parse_int64 v of
      None \<Rightarrow> Inl (BadVersion v)
    | Some n \<Rightarrow> Inr (map_option (\<lambda>(b, sz). (stored_config s r)\<lparr>c_content := Some b, c_content_size := sz\<rparr>)
        (version_content s (cr_id r) n)))"
  using assms find_cr_id [OF assms(1), of "cr_id r" r]
  by (auto simp: GetConfigByID_def stored_config_def load_content_def version_content_def split: option.splits)

lemma GetConfigByID_current:
  assumes inv: "store_inv s" and r: "r \<in> set (config_table s)" and i: "parse_int64 i = Some (cr_id r)"
    and v: "cr_current_content_id r = Some v"
  shows "GetConfigByID s i True [] =
    Inr (map_option (\<lambda>(b, sz). (stored_config s r)\<lparr>c_content := Some b, c_content_size := sz\<rparr>)
        (version_content s (cr_id r) v))"
  using assms find_cr_id [OF inv, of "cr_id r" r]
  by (auto simp: GetConfigByID_def stored_config_def load_content_def version_content_def split: option.splits)

lemma GetConfigByID_Some:
  assumes inv: "store_inv s" and res: "GetConfigByID s i b v = Inr (Some c)"
  obtains r where "r \<in> set (config_table s)" "parse_int64 i = Some (cr_id r)"
    "c_id c = show_int (cr_id r)" "c_name c = cr_name r" "c_path c = cr_path r"
    "c_acls c = aclsForOwner Config_acl s (cr_id r)"
proof -
  from res obtain n where n: "parse_int64 i = Some n" by (auto simp: GetConfigByID_def split: option.splits)
  from res n obtain r where f: "find (\<lambda>r. cr_id r = n) (config_table s) = Some r"
    by (auto simp: GetConfigByID_def split: option.splits)
  then have r: "r \<in> set (config_table s)" "cr_id r = n" using find_cr_id [OF inv] by blast+
  have "c_id c = show_int (cr_id r) \<and> c_name c = cr_name r \<and> c_path c = cr_path r \<and>
      c_acls c = aclsForOwner Config_acl s (cr_id r)"
    using res n f r(2)
    by (auto simp: GetConfigByID_def load_content_def Let_def split: option.splits sum.splits if_splits)
  with r n show thesis by (intro that [of r]) auto
qed

end
