(* ===== verification/UpsertProofs.thy ===== *)
theory UpsertProofs
  imports ConfigProofs
begin

text \<open>
  \<open>Upsert\<close> and \<open>Delete\<close> of \<open>internal/store/sqlite/store.go\<close>: the state each successful write
  leaves, the preservation of the invariant and the properties of reading back.
\<close>

section \<open>The states after the writes\<close>

definition add_config :: "config \<Rightarrow> bytes \<Rightarrow> int \<Rightarrow> db \<Rightarrow> db" where
  "add_config c b now s = insertACLs Config_acl (inode_top s + 1) (c_acls c)
     (s\<lparr>inode_top := inode_top s + 2,
        config_table := config_table s @
          [\<lparr>cr_id = inode_top s + 1, cr_name = c_name c, cr_path = c_path c,
            cr_current_content_id = Some (inode_top s + 2), cr_created_at = now, cr_updated_at = now\<rparr>],
        config_content_table := config_content_table s @
          [new_content_row (inode_top s + 2) (inode_top s + 1) b (c_content_size c) now]\<rparr>)"

definition new_current :: "db \<Rightarrow> bytes option \<Rightarrow> int option" where
  "new_current s b = map_option (\<lambda>_. inode_top s + 1) b"

definition updated_row :: "int \<Rightarrow> int option \<Rightarrow> config_row \<Rightarrow> config_row" where
  "updated_row now v r = (case v of
       None \<Rightarrow> r\<lparr>cr_updated_at := now\<rparr>
     | Some i \<Rightarrow> r\<lparr>cr_updated_at := now, cr_current_content_id := Some i\<rparr>)"

definition change_config :: "int \<Rightarrow> config \<Rightarrow> int \<Rightarrow> db \<Rightarrow> db" where
  "change_config i c now s = replaceACLs Config_acl i (c_acls c)
     (s\<lparr>inode_top := (case c_content c of None \<Rightarrow> inode_top s | Some b \<Rightarrow> inode_top s + 1),
        config_content_table := config_content_table s @
          (case c_content c of None \<Rightarrow> []
           | Some b \<Rightarrow> [new_content_row (inode_top s + 1) i b (c_content_size c) now]),
        config_table := map (\<lambda>r. if cr_id r = i then updated_row now (new_current s (c_content c)) r else r)
          (config_table s)\<rparr>)"

definition remove_config :: "int \<Rightarrow> db \<Rightarrow> db" where
  "remove_config i s = (deleteACLs Config_acl i s)
     \<lparr>config_content_table := filter (\<lambda>r. cc_config_id r \<noteq> i) (config_content_table s),
      config_table := filter (\<lambda>r. cr_id r \<noteq> i) (config_table s)\<rparr>"

lemma add_config_sel [row_simps]:
  "inode_top (add_config c b now s) = inode_top s + 2"
  "directory_table (add_config c b now s) = directory_table s"
  "directory_acl_table (add_config c b now s) = directory_acl_table s"
  "config_acl_table (add_config c b now s) =
     insert_acl_rows (inode_top s + 1) (c_acls c) (config_acl_table s)"
  "config_table (add_config c b now s) = config_table s @
          [\<lparr>cr_id = inode_top s + 1, cr_name = c_name c, cr_path = c_path c,
            cr_current_content_id = Some (inode_top s + 2), cr_created_at = now, cr_updated_at = now\<rparr>]"
  "config_content_table (add_config c b now s) = config_content_table s @
          [new_content_row (inode_top s + 2) (inode_top s + 1) b (c_content_size c) now]"
  by (simp_all add: add_config_def row_simps)

lemma change_config_sel [row_simps]:
  "inode_top (change_config i c now s) = (case c_content c of None \<Rightarrow> inode_top s | Some b \<Rightarrow> inode_top s + 1)"
  "directory_table (change_config i c now s) = directory_table s"
  "directory_acl_table (change_config i c now s) = directory_acl_table s"
  "config_acl_table (change_config i c now s) =
     insert_acl_rows i (c_acls c) (filter (\<lambda>r. ar_owner_id r \<noteq> i) (config_acl_table s))"
  "config_table (change_config i c now s) =
     map (\<lambda>r. if cr_id r = i then updated_row now (new_current s (c_content c)) r else r) (config_table s)"
  "config_content_table (change_config i c now s) = config_content_table s @
     (case c_content c of None \<Rightarrow> []
      | Some b \<Rightarrow> [new_content_row (inode_top s + 1) i b (c_content_size c) now])"
  by (simp_all add: change_config_def row_simps)

lemma remove_config_sel [row_simps]:
  "inode_top (remove_config i s) = inode_top s"
  "directory_table (remove_config i s) = directory_table s"
  "directory_acl_table (remove_config i s) = directory_acl_table s"
  "config_acl_table (remove_config i s) = filter (\<lambda>r. ar_owner_id r \<noteq> i) (config_acl_table s)"
  "config_table (remove_config i s) = filter (\<lambda>r. cr_id r \<noteq> i) (config_table s)"
  "config_content_table (remove_config i s) = filter (\<lambda>r. cc_config_id r \<noteq> i) (config_content_table s)"
  by (simp_all add: remove_config_def row_simps)

lemma updated_row_sel [simp]:
  "cr_id (updated_row now v r) = cr_id r" "cr_name (updated_row now v r) = cr_name r"
  "cr_path (updated_row now v r) = cr_path r" "cr_created_at (updated_row now v r) = cr_created_at r"
  "cr_updated_at (updated_row now v r) = now"
  "cr_current_content_id (updated_row now v r) = (case v of None \<Rightarrow> cr_current_content_id r | Some i \<Rightarrow> Some i)"
  by (simp_all add: updated_row_def split: option.splits)

lemma new_content_row_sel [simp]:
  "cc_id (new_content_row i j b n t) = i" "cc_config_id (new_content_row i j b n t) = j"
  "cc_content (new_content_row i j b n t) = b" "cc_content_size (new_content_row i j b n t) = sint n"
  by (simp_all add: new_content_row_def)

section \<open>The outcomes of Upsert\<close>

lemma insert_config_eq:
  "insert_config c now s =
     (if inode_top s + 2 \<le> max_id
      then case c_content c of None \<Rightarrow> Inl ContentIsNull
           | Some b \<Rightarrow> Inr (inode_top s + 1, add_config c b now s)
      else Inl InodeExhausted)"
  by (auto simp: insert_config_def tx_bind_def nextInode_def insert_content_def tx_put_def tx_fail_def
      tx_return_def add_config_def add.commute split: option.splits)

lemma update_config_eq:
  assumes "parse_int64 (c_id c) = Some i"
  shows "update_config c now s =
     (if c_content c \<noteq> None \<and> \<not> inode_top s < max_id then Inl InodeExhausted
      else Inr ((), change_config i c now s))"
  using assms
  by (cases "c_content c")
    (auto simp: update_config_def tx_bind_def nextInode_def insert_content_def tx_put_def tx_fail_def
      tx_return_def change_config_def set_config_row_def new_current_def updated_row_def cong: if_cong)

lemma getConfigByPathAndName_None:
  "getConfigByPathAndName s p n = None \<longleftrightarrow> (p, n) \<notin> (\<lambda>r. (cr_path r, cr_name r)) ` set (config_table s)"
  by (auto simp: getConfigByPathAndName_def find_None_iff)

lemma change_config_acls:
  "change_config i (c\<lparr>c_acls := c_acls d, c_content_size := c_content_size d, c_content := c_content d\<rparr>) now s
     = change_config i d now s"
  by (simp add: change_config_def cong: if_cong option.case_cong)

lemma change_config_id: "cr_id ` set (config_table (change_config i c now s)) = cr_id ` set (config_table s)"
proof -
  have "map cr_id (config_table (change_config i c now s)) = map cr_id (config_table s)"
    by (simp add: row_simps)
  then show ?thesis by (metis set_map)
qed

text \<open>Both success branches, and nothing else.\<close>

lemma Upsert_success_cases:
  assumes inv: "store_inv s" and res: "Upsert c now s = (Inr d, s')"
  obtains (Insert) b where "c_id c = []" "config_path_ok (directory_table s) (c_path c)"
      "(c_path c, c_name c) \<notin> (\<lambda>r. (cr_path r, cr_name r)) ` set (config_table s)"
      "c_content c = Some b" "inode_top s + 2 \<le> max_id" "s' = add_config c b now s"
      "GetConfigByID s' (show_int (inode_top s + 1)) False [] = Inr d"
    | (Change) r where "r \<in> set (config_table s)" "parse_int64 (c_id c) = Some (cr_id r)"
      "cr_name r = c_name c" "cr_path r = c_path c" "c_content c \<noteq> None \<longrightarrow> inode_top s < max_id"
      "s' = change_config (cr_id r) c now s" "GetConfigByID s' (show_int (cr_id r)) False [] = Inr d"
proof -
  from res obtain i t where
    req: "config_path_ok (directory_table s) (c_path c)"
    and step: "(if c_id c = [] then upsert_insert c now else upsert_update c now) s = Inr (i, s')"
    and get: "GetConfigByID s' (show_int i) False [] = Inr d"
    using requireDirectoryExists_iff [OF inv] by (auto simp: Upsert_def upsert_body_def tx_simps)
  show thesis
  proof (cases "c_id c = []")
    case True
    with step have "getConfigByPathAndName s (c_path c) (c_name c) = None" "insert_config c now s = Inr (i, s')"
      by (auto simp: upsert_insert_def tx_simps split: if_splits)
    moreover from this(2) obtain b where "c_content c = Some b" "inode_top s + 2 \<le> max_id"
        "i = inode_top s + 1" "s' = add_config c b now s"
      by (auto simp: insert_config_eq split: if_splits option.splits)
    ultimately show thesis using True req get by (intro Insert [of b]) (auto simp: getConfigByPathAndName_None)
  next
    case False
    with step obtain found where f: "GetConfigByID s (c_id c) False [] = Inr found"
      by (auto simp: upsert_update_def tx_simps)
    with False step obtain e where e: "found = Some e" "c_name e = c_name c" "c_path e = c_path c"
      "update_config (e\<lparr>c_acls := c_acls c, c_content_size := c_content_size c, c_content := c_content c\<rparr>) now s
        = Inr ((), s')" "i = (case parse_int64 (c_id e) of None \<Rightarrow> 0 | Some n \<Rightarrow> n)"
      by (auto simp: upsert_update_def tx_simps Let_def split: if_splits option.splits)
    obtain r where r: "r \<in> set (config_table s)" "parse_int64 (c_id c) = Some (cr_id r)"
      "c_id e = show_int (cr_id r)" "c_name e = cr_name r" "c_path e = cr_path r"
      using GetConfigByID_Some [OF inv f [unfolded e(1)]] by metis
    have p: "parse_int64 (c_id e) = Some (cr_id r)" using parse_cr_id [OF inv r(1)] r(3) by simp
    from e(4) have u: "c_content c \<noteq> None \<longrightarrow> inode_top s < max_id" "s' = change_config (cr_id r) c now s"
      using update_config_eq [of "e\<lparr>c_acls := c_acls c, c_content_size := c_content_size c, c_content := c_content c\<rparr>"] p
      by (auto simp: change_config_acls split: if_splits)
    show thesis using r e p u get by (intro Change [of r]) auto
  qed
qed

lemma Upsert_error_state: "Upsert c now s = (Inl e, s') \<Longrightarrow> s' = s"
  by (simp add: Upsert_def tx_simps)

section \<open>The invariant\<close>

lemma ids_bounded_insert: "ids_bounded m ids \<Longrightarrow> m \<le> m' \<Longrightarrow> 1 \<le> i \<Longrightarrow> i \<le> m' \<Longrightarrow> ids_bounded m' (insert i ids)"
  by (auto simp: ids_bounded_def)

lemma current_version_ok_more: "current_version_ok vs r \<Longrightarrow> set vs \<subseteq> set vs' \<Longrightarrow> current_version_ok vs' r"
  by (fastforce simp: current_version_ok_def)

lemma store_inv_top: "store_inv s \<Longrightarrow> 0 \<le> inode_top s"
  by (simp add: store_inv_def)

lemma add_config_inv:
  assumes inv: "store_inv s" and p: "config_path_ok (directory_table s) (c_path c)"
    and new: "(c_path c, c_name c) \<notin> (\<lambda>r. (cr_path r, cr_name r)) ` set (config_table s)"
    and room: "inode_top s + 2 \<le> max_id"
  shows "store_inv (add_config c b now s)"
proof -
  note top = store_inv_top [OF inv]
  have fresh: "inode_top s + 1 \<notin> cr_id ` set (config_table s)" "inode_top s + 1 \<notin> dr_id ` set (directory_table s)"
    "inode_top s + 2 \<notin> cc_id ` set (config_content_table s)"
    using inv by (auto simp: store_inv_def ids_bounded_def)
  have "configs_ok (directory_table s) (config_content_table (add_config c b now s)) (config_table (add_config c b now s))"
    using store_inv_configs [OF inv] p new fresh(1)
    by (auto simp: configs_ok_def row_simps current_version_ok_def)
  moreover have "contents_ok (config_table (add_config c b now s)) (config_content_table (add_config c b now s))"
    using store_inv_contents [OF inv] fresh(3) by (auto simp: contents_ok_def row_simps)
  moreover have "acls_owned (insert (inode_top s + 1) (cr_id ` set (config_table s)))
      (insert_acl_rows (inode_top s + 1) (c_acls c) (config_acl_table s))"
    using inv by (intro acls_owned_insert [where ids = "cr_id ` set (config_table s)"]) (auto simp: store_inv_def)
  ultimately show ?thesis
    using inv room top fresh(2)
    by (auto simp: store_inv_def row_simps intro!: ids_bounded_insert elim: ids_bounded_mono)
qed

lemma change_config_inv:
  assumes inv: "store_inv s" and r: "r \<in> set (config_table s)"
    and room: "c_content c \<noteq> None \<longrightarrow> inode_top s < max_id"
  shows "store_inv (change_config (cr_id r) c now s)"
proof -
  let ?s = "change_config (cr_id r) c now s"
  note top = store_inv_top [OF inv]
  have fresh: "inode_top s + 1 \<notin> cc_id ` set (config_content_table s)"
    using inv by (auto simp: store_inv_def ids_bounded_def)
  have "map cr_id (config_table ?s) = map cr_id (config_table s)"
    "map (\<lambda>r. (cr_path r, cr_name r)) (config_table ?s) = map (\<lambda>r. (cr_path r, cr_name r)) (config_table s)"
    by (simp_all add: row_simps)
  moreover have "config_path_ok (directory_table s) (cr_path x) \<and> current_version_ok (config_content_table ?s) x"
    if x: "x \<in> set (config_table ?s)" for x
  proof -
    obtain y where y: "y \<in> set (config_table s)"
      "x = (if cr_id y = cr_id r then updated_row now (new_current s (c_content c)) y else y)"
      using x by (auto simp: row_simps)
    have ok: "config_path_ok (directory_table s) (cr_path y)" "current_version_ok (config_content_table s) y"
      using store_inv_configs [OF inv] y(1) by (auto simp: configs_ok_def)
    have "current_version_ok (config_content_table ?s) y"
      using ok(2) by (rule current_version_ok_more) (auto simp: row_simps)
    then have "current_version_ok (config_content_table ?s) x"
      using y(2) by (cases "c_content c") (auto simp: current_version_ok_def new_current_def row_simps)
    then show ?thesis using ok(1) y(2) by simp
  qed
  ultimately have "configs_ok (directory_table s) (config_content_table ?s) (config_table ?s)"
    using store_inv_configs [OF inv] by (simp add: configs_ok_def)
  moreover have "contents_ok (config_table ?s) (config_content_table ?s)"
    using store_inv_contents [OF inv] fresh r
    unfolding contents_ok_def change_config_id by (auto simp: row_simps split: option.splits)
  moreover have "acls_owned (cr_id ` set (config_table s)) (config_acl_table ?s)"
    unfolding row_simps using inv r by (intro acls_owned_replace) (auto simp: store_inv_def)
  moreover have "ids_bounded (inode_top ?s) (cc_id ` set (config_content_table ?s))"
    using inv top by (auto simp: row_simps store_inv_def split: option.splits
        intro!: ids_bounded_insert elim: ids_bounded_mono)
  moreover have "inode_top s \<le> inode_top ?s" "inode_top ?s \<le> max_id"
    using room inv by (auto simp: row_simps store_inv_def split: option.splits)
  ultimately show ?thesis
    using inv top unfolding store_inv_def change_config_id
    by (auto simp: row_simps(2) row_simps(3) change_config_sel(2,3) intro: ids_bounded_mono)
qed

lemma remove_config_inv:
  assumes inv: "store_inv s"
  shows "store_inv (remove_config i s)"
proof -
  let ?cs = "filter (\<lambda>r. cr_id r \<noteq> i) (config_table s)"
  let ?vs = "filter (\<lambda>v. cc_config_id v \<noteq> i) (config_content_table s)"
  have "current_version_ok ?vs r" if "r \<in> set ?cs" for r
    using that store_inv_configs [OF inv] by (fastforce simp: configs_ok_def current_version_ok_def)
  then have "configs_ok (directory_table s) ?vs ?cs"
    using store_inv_configs [OF inv] by (auto simp: configs_ok_def distinct_map_filter)
  moreover have "contents_ok ?cs ?vs"
    using store_inv_contents [OF inv] by (fastforce simp: contents_ok_def distinct_map_filter)
  moreover have "acls_owned (cr_id ` set ?cs) (filter (\<lambda>r. ar_owner_id r \<noteq> i) (config_acl_table s))"
    using inv by (auto simp: store_inv_def acls_owned_def filter_acl_rows_ok)
  ultimately show ?thesis
    using inv by (auto simp: store_inv_def row_simps ids_bounded_def)
qed

lemma Upsert_inv:
  assumes inv: "store_inv s" and res: "Upsert c now s = (r, s')"
  shows "store_inv s'"
proof (cases r)
  case (Inl e)
  with res have "s' = s" by (auto dest: Upsert_error_state)
  with inv show ?thesis by simp
next
  case (Inr d)
  show ?thesis
  proof (rule Upsert_success_cases [OF inv res [unfolded Inr]])
    fix b assume "config_path_ok (directory_table s) (c_path c)" "inode_top s + 2 \<le> max_id"
      "(c_path c, c_name c) \<notin> (\<lambda>r. (cr_path r, cr_name r)) ` set (config_table s)"
      "s' = add_config c b now s"
    with add_config_inv [OF inv] show ?thesis by simp
  next
    fix r assume "r \<in> set (config_table s)" "c_content c \<noteq> None \<longrightarrow> inode_top s < max_id"
      "s' = change_config (cr_id r) c now s"
    with change_config_inv [OF inv] show ?thesis by simp
  qed
qed

lemma Delete_eq:
  "Delete i s = (case parse_int64 i of None \<Rightarrow> (Inl (BadId i), s) | Some n \<Rightarrow> (Inr (), remove_config n s))"
  by (auto simp: Delete_def with_tx_def delete_config_body_def tx_bind_def tx_put_def remove_config_def
      row_simps split: option.splits)

lemma Delete_inv: "store_inv s \<Longrightarrow> Delete i s = (r, s') \<Longrightarrow> store_inv s'"
  using remove_config_inv [of s] by (auto simp: Delete_eq split: option.splits)

section \<open>What the writes do to versions and access lists\<close>

lemma find_snoc: "find P (xs @ [x]) = (case find P xs of None \<Rightarrow> if P x then Some x else None | Some y \<Rightarrow> Some y)"
  by (simp add: find_append split: option.split)

lemma version_content_fresh:
  assumes "store_inv s" and "inode_top s < v"
  shows "version_content s i v = None"
  using assms by (fastforce simp: version_content_def find_None_iff store_inv_def ids_bounded_def)

lemma add_config_versions:
  assumes "store_inv s"
  shows "version_content (add_config c b now s) i v =
    (if i = inode_top s + 1 \<and> v = inode_top s + 2 then Some (b, c_content_size c) else version_content s i v)"
  using version_content_fresh [OF assms, of "inode_top s + 2" i]
  by (auto simp: version_content_def row_simps find_snoc split: option.splits)

lemma change_config_versions:
  assumes "store_inv s"
  shows "version_content (change_config j c now s) i v =
    (case c_content c of
       Some b \<Rightarrow> if i = j \<and> v = inode_top s + 1 then Some (b, c_content_size c) else version_content s i v
     | None \<Rightarrow> version_content s i v)"
  using version_content_fresh [OF assms, of "inode_top s + 1" i]
  by (auto simp: version_content_def row_simps find_snoc split: option.splits)

lemma remove_config_versions:
  "version_content (remove_config j s) i v = (if i = j then None else version_content s i v)"
proof (cases "i = j")
  case True
  then show ?thesis by (auto simp: version_content_def row_simps find_None_iff)
next
  case False
  then have "find (\<lambda>cc. cc_id cc = v \<and> cc_config_id cc = i) (filter (\<lambda>r. cc_config_id r \<noteq> j) (config_content_table s))
      = find (\<lambda>cc. cc_id cc = v \<and> cc_config_id cc = i) (config_content_table s)"
    by (intro find_filter_other) auto
  with False show ?thesis by (simp add: version_content_def row_simps)
qed

lemma add_config_acls:
  assumes inv: "store_inv s"
  shows "aclsForOwner Config_acl (add_config c b now s) i =
    (if i = inode_top s + 1 then filter recognised (c_acls c) else aclsForOwner Config_acl s i)"
proof -
  have own: "acls_owned (cr_id ` set (config_table s)) (acl_rows Config_acl s)" and
    "inode_top s + 1 \<notin> cr_id ` set (config_table s)"
    using inv by (auto simp: store_inv_def ids_bounded_def)
  then have "aclsForOwner Config_acl s (inode_top s + 1) = []" by (rule aclsForOwner_unowned)
  then show ?thesis
    using config_acls.load_ins store_inv_config_acls [OF inv]
    by (simp add: add_config_def aclsForOwner_cong [of Config_acl "s\<lparr>inode_top := _, config_table := _, config_content_table := _\<rparr>" s])
qed

lemma change_config_acls_eq:
  assumes inv: "store_inv s"
  shows "aclsForOwner Config_acl (change_config j c now s) i =
    (if i = j then filter recognised (c_acls c) else aclsForOwner Config_acl s i)"
proof -
  let ?t = "s\<lparr>inode_top := (case c_content c of None \<Rightarrow> inode_top s | Some b \<Rightarrow> inode_top s + 1),
        config_content_table := config_content_table s @
          (case c_content c of None \<Rightarrow> []
           | Some b \<Rightarrow> [new_content_row (inode_top s + 1) j b (c_content_size c) now]),
        config_table := map (\<lambda>r. if cr_id r = j then updated_row now (new_current s (c_content c)) r else r)
          (config_table s)\<rparr>"
  have "aclsForOwner Config_acl ?t i = aclsForOwner Config_acl s i" by (rule aclsForOwner_cong) simp
  then show ?thesis
    using store_inv_config_acls [OF inv] unfolding change_config_def by (subst replaceACLs_owner) simp_all
qed

lemma remove_config_acls:
  assumes inv: "store_inv s"
  shows "aclsForOwner Config_acl (remove_config j s) i = (if i = j then [] else aclsForOwner Config_acl s i)"
proof -
  have "aclsForOwner Config_acl (remove_config j s) i = aclsForOwner Config_acl (deleteACLs Config_acl j s) i"
    by (rule aclsForOwner_cong) (simp add: row_simps)
  then show ?thesis using config_acls.load_del store_inv_config_acls [OF inv] by simp
qed

lemma config_writes_tree:
  "dir_tree (add_config c b now s) = dir_tree s"
  "dir_tree (change_config j c now s) = dir_tree s"
  "dir_tree (remove_config j s) = dir_tree s"
  by (rule ext; simp add: dir_tree_def row_simps
      aclsForOwner_cong [of Directory_acl "add_config c b now s" s]
      aclsForOwner_cong [of Directory_acl "change_config j c now s" s]
      aclsForOwner_cong [of Directory_acl "remove_config j s" s])+

end
