(* ===== verification/ConfigTheorems.thy ===== *)
theory ConfigTheorems
  imports UpsertProofs
begin

text \<open>
  The properties of the config store: what \<open>Upsert\<close> writes is what \<open>GetConfigByID\<close> reads, content
  versions are immutable and private to their config, every branch of \<open>Upsert\<close> is characterised,
  and \<open>Delete\<close> removes one config completely and nothing else.
\<close>

section \<open>Shared lemmas\<close>

lemma readback_row:
  assumes inv: "store_inv s" and r: "r \<in> set (config_table s)"
    and v: "cr_current_content_id r = Some v" "version_content s (cr_id r) v = Some (b, sz)"
  shows "GetConfigByID s (show_int (cr_id r)) True [] = Inr (Some ((stored_config s r)\<lparr>c_content := Some b\<rparr>))"
    and "GetConfigByID s (show_int (cr_id r)) False w = Inr (Some (stored_config s r))"
    and "c_content_size (stored_config s r) = sz" "c_content (stored_config s r) = None"
proof -
  obtain x where x: "x \<in> set (config_content_table s)" "cr_current_content_id r = Some (cc_id x)"
    "cc_config_id x = cr_id r" using current_version [OF inv r] by blast
  with version_content_row [OF inv x(1)] v have "sz = word_of_int (cc_content_size x)" by simp
  with joined_size_row [OF inv x(1,2)] show sz: "c_content_size (stored_config s r) = sz"
    by (simp add: stored_config_def)
  note p = parse_cr_id [OF inv r]
  show "GetConfigByID s (show_int (cr_id r)) True [] = Inr (Some ((stored_config s r)\<lparr>c_content := Some b\<rparr>))"
    using GetConfigByID_current [OF inv r p v(1)] v(2) sz by simp
  show "GetConfigByID s (show_int (cr_id r)) False w = Inr (Some (stored_config s r))"
    by (rule GetConfigByID_meta [OF inv r p])
  show "c_content (stored_config s r) = None" by (simp add: stored_config_def)
qed

lemma current_version_content:
  assumes inv: "store_inv s" and r: "r \<in> set (config_table s)"
  obtains v b sz where "cr_current_content_id r = Some v" "version_content s (cr_id r) v = Some (b, sz)"
proof -
  obtain x where "x \<in> set (config_content_table s)" "cr_current_content_id r = Some (cc_id x)"
    "cc_config_id x = cr_id r" using current_version [OF inv r] by blast
  with version_content_row [OF inv, of x] show thesis by (intro that) auto
qed

text \<open>Two databases that agree on one config answer every read of it alike.\<close>

lemma joined_size_version:
  assumes inv: "store_inv s" and r: "r \<in> set (config_table s)"
  shows "word_of_int (joined_content_size s r) =
    (case version_content s (cr_id r) (the (cr_current_content_id r)) of None \<Rightarrow> 0 | Some (b, sz) \<Rightarrow> sz)"
proof -
  obtain v b sz where v: "cr_current_content_id r = Some v" "version_content s (cr_id r) v = Some (b, sz)"
    using current_version_content [OF inv r] .
  with readback_row(3) [OF inv r v] show ?thesis by (simp add: stored_config_def)
qed

lemma GetConfigByID_cong:
  assumes inv: "store_inv s" and inv': "store_inv s'" and i: "parse_int64 i = Some n"
    and row: "find (\<lambda>r. cr_id r = n) (config_table s') = find (\<lambda>r. cr_id r = n) (config_table s)"
    and acls: "aclsForOwner Config_acl s' n = aclsForOwner Config_acl s n"
    and versions: "\<And>v. version_content s' n v = version_content s n v"
  shows "GetConfigByID s' i b v = GetConfigByID s i b v"
proof (cases "find (\<lambda>r. cr_id r = n) (config_table s)")
  case None
  with row i show ?thesis by (simp add: GetConfigByID_def)
next
  case (Some r)
  then have r: "r \<in> set (config_table s)" "cr_id r = n" using find_cr_id [OF inv] by blast+
  have r': "r \<in> set (config_table s')" using Some row find_cr_id [OF inv'] by metis
  have same: "stored_config s' r = stored_config s r"
    using joined_size_version [OF inv r(1)] joined_size_version [OF inv' r'] r(2) acls versions
    by (simp add: stored_config_def config_of_row_def)
  have p: "parse_int64 i = Some (cr_id r)" using i r(2) by simp
  obtain w where w: "cr_current_content_id r = Some w" using current_version_content [OF inv r(1)] by metis
  show ?thesis
  proof (cases b)
    case True
    then show ?thesis
      using GetConfigByID_version [OF inv r(1) p, of v] GetConfigByID_version [OF inv' r' p, of v]
        GetConfigByID_current [OF inv r(1) p w] GetConfigByID_current [OF inv' r' p w] same versions r(2)
      by (cases "v = []") (simp_all split: option.split)
  next
    case False
    then show ?thesis
      using GetConfigByID_meta [OF inv r(1) p] GetConfigByID_meta [OF inv' r' p] same by simp
  qed
qed

lemma find_updated:
  "find (\<lambda>r. cr_id r = n) (map (\<lambda>r. if cr_id r = j then updated_row now w r else r) rs) =
     map_option (\<lambda>r. if cr_id r = j then updated_row now w r else r) (find (\<lambda>r. cr_id r = n) rs)"
  by (rule find_map_upd) auto

section \<open>Reading back what was written\<close>

lemma Upsert_row:
  assumes inv: "store_inv s" and res: "Upsert c now s = (Inr d, s')"
  obtains r v b sz where "r \<in> set (config_table s')" "cr_name r = c_name c" "cr_path r = c_path c"
    "cr_updated_at r = now" "aclsForOwner Config_acl s' (cr_id r) = filter recognised (c_acls c)"
    "cr_current_content_id r = Some v" "version_content s' (cr_id r) v = Some (b, sz)"
    "c_content c \<noteq> None \<longrightarrow> c_content c = Some b \<and> sz = c_content_size c"
    "GetConfigByID s' (show_int (cr_id r)) False [] = Inr d"
    "if c_id c = [] then cr_id r \<notin> cr_id ` set (config_table s) else parse_int64 (c_id c) = Some (cr_id r)"
proof (rule Upsert_success_cases [OF inv res])
  fix b assume a: "c_id c = []" "c_content c = Some b" "s' = add_config c b now s"
    "GetConfigByID s' (show_int (inode_top s + 1)) False [] = Inr d"
  have "inode_top s + 1 \<notin> cr_id ` set (config_table s)"
    using inv by (auto simp: store_inv_def ids_bounded_def)
  with a show thesis
    by (intro that [of "\<lparr>cr_id = inode_top s + 1, cr_name = c_name c, cr_path = c_path c,
        cr_current_content_id = Some (inode_top s + 2), cr_created_at = now, cr_updated_at = now\<rparr>"
        "inode_top s + 2" b "c_content_size c"])
      (simp_all add: add_config_acls [OF inv] add_config_versions [OF inv], simp add: row_simps)
next
  fix r assume r: "r \<in> set (config_table s)" "parse_int64 (c_id c) = Some (cr_id r)"
    "cr_name r = c_name c" "cr_path r = c_path c" "s' = change_config (cr_id r) c now s"
    "GetConfigByID s' (show_int (cr_id r)) False [] = Inr d"
  let ?r = "updated_row now (new_current s (c_content c)) r"
  have r': "?r \<in> set (config_table s')" using r(1,5) by (auto simp: row_simps)
  obtain v b sz where v: "cr_current_content_id r = Some v" "version_content s (cr_id r) v = Some (b, sz)"
    using current_version_content [OF inv r(1)] .
  have "c_id c \<noteq> []" using r(2) by auto
  with r v r' show thesis
    by (cases "c_content c"; intro that [of ?r "case c_content c of None \<Rightarrow> v | Some _ \<Rightarrow> inode_top s + 1"
        "case c_content c of None \<Rightarrow> b | Some b \<Rightarrow> b" "case c_content c of None \<Rightarrow> sz | Some _ \<Rightarrow> c_content_size c"])
      (simp_all add: change_config_acls_eq [OF inv] change_config_versions [OF inv] new_current_def)
qed

text \<open>
  C20: A successful \<open>Upsert\<close> is read back by \<open>GetConfigByID\<close>: the config it returns has a fresh id
  (creation) or the id it was given (update), carries the supplied name, path and recognised ACL
  entries and the time of the call, and reading that id with content yields the same config with
  the supplied content and content size.
\<close>

theorem upsert_readback:
  assumes "store_inv s" and "Upsert c now s = (Inr d, s')"
  shows "\<exists>x y. d = Some x \<and> GetConfigByID s' (c_id x) True [] = Inr (Some y) \<and> x = y\<lparr>c_content := None\<rparr> \<and>
    c_name y = c_name c \<and> c_path y = c_path c \<and> c_acls y = filter recognised (c_acls c) \<and>
    c_updated_at y = timestampFromUnixNano now \<and>
    (c_content c \<noteq> None \<longrightarrow> c_content y = c_content c \<and> c_content_size y = c_content_size c) \<and>
    (if c_id c = [] then GetConfigByID s (c_id x) True [] = Inr None
     else parse_int64 (c_id x) = parse_int64 (c_id c))"
proof -
  obtain r v b sz where r: "r \<in> set (config_table s')" "cr_name r = c_name c" "cr_path r = c_path c"
    "cr_updated_at r = now" "aclsForOwner Config_acl s' (cr_id r) = filter recognised (c_acls c)"
    and v: "cr_current_content_id r = Some v" "version_content s' (cr_id r) v = Some (b, sz)"
    "c_content c \<noteq> None \<longrightarrow> c_content c = Some b \<and> sz = c_content_size c"
    and d: "GetConfigByID s' (show_int (cr_id r)) False [] = Inr d"
    and i: "if c_id c = [] then cr_id r \<notin> cr_id ` set (config_table s) else parse_int64 (c_id c) = Some (cr_id r)"
    using Upsert_row [OF assms] .
  have inv': "store_inv s'" using Upsert_inv [OF assms] .
  note rb = readback_row [OF inv' r(1) v(1,2)] and p = parse_cr_id [OF inv' r(1)]
  have "d = Some (stored_config s' r)" using d rb(2) by simp
  moreover have "GetConfigByID s (show_int (cr_id r)) True [] = Inr None" if "c_id c = []"
    using that i p by (intro GetConfigByID_none) auto
  ultimately show ?thesis
    using r v(3) rb p i
    by (intro exI [of _ "stored_config s' r"] exI [of _ "(stored_config s' r)\<lparr>c_content := Some b\<rparr>"])
      (auto simp: stored_config_def split: if_splits)
qed

theorem upsert_readback_witness:
  "\<exists>d s' x y. Upsert sample_config 2000 sample_db = (Inr d, s') \<and> d = Some x \<and>
     GetConfigByID s' (c_id x) True [] = Inr (Some y) \<and> c_content y = Some [1, 2, 3] \<and> c_path y = ''/team''"
proof -
  have "\<not> isl (fst (Upsert sample_config 2000 sample_db))" by code_simp
  then obtain d s' where r: "Upsert sample_config 2000 sample_db = (Inr d, s')" using result_pair by metis
  show ?thesis using upsert_readback [OF sample_inv r] r by (auto simp: sample_config_def)
qed

text \<open>
  A successful \<open>Upsert\<close> without content changes the ACL and the update time of one existing
  config and nothing else: reading the id with content before and after gives the same version and
  the same bytes, and no content row is written.
\<close>

theorem upsert_acl_only:
  assumes inv: "store_inv s" and res: "Upsert c now s = (Inr d, s')" and nocontent: "c_content c = None"
  shows "\<exists>old. GetConfigByID s (c_id c) True [] = Inr (Some old) \<and>
    GetConfigByID s' (c_id c) True [] = Inr (Some (old\<lparr>c_acls := filter recognised (c_acls c),
      c_updated_at := timestampFromUnixNano now\<rparr>)) \<and>
    config_content_table s' = config_content_table s \<and> inode_top s' = inode_top s"
proof (rule Upsert_success_cases [OF inv res])
  fix b assume "c_content c = Some b"
  with nocontent show ?thesis by simp
next
  fix r assume r: "r \<in> set (config_table s)" "parse_int64 (c_id c) = Some (cr_id r)"
    and s': "s' = change_config (cr_id r) c now s"
  let ?r = "updated_row now None r"
  have cur: "new_current s (c_content c) = None" by (simp add: new_current_def nocontent)
  have r': "?r \<in> set (config_table s')" using r(1) s' cur by (force simp: row_simps)
  obtain v b sz where v: "cr_current_content_id r = Some v" "version_content s (cr_id r) v = Some (b, sz)"
    using current_version_content [OF inv r(1)] .
  have v': "cr_current_content_id ?r = Some v" "version_content s' (cr_id ?r) v = Some (b, sz)"
    using v by (simp_all add: s' change_config_versions [OF inv] nocontent)
  have inv': "store_inv s'" using Upsert_inv [OF inv res] .
  have p': "parse_int64 (c_id c) = Some (cr_id ?r)" using r(2) by simp
  have "aclsForOwner Config_acl s' (cr_id r) = filter recognised (c_acls c)"
    by (simp add: s' change_config_acls_eq [OF inv])
  then have "(stored_config s' ?r)\<lparr>c_content := Some b, c_content_size := sz\<rparr> =
      ((stored_config s r)\<lparr>c_content := Some b, c_content_size := sz\<rparr>)
        \<lparr>c_acls := filter recognised (c_acls c), c_updated_at := timestampFromUnixNano now\<rparr>"
    by (simp add: stored_config_def config_of_row_def)
  moreover have "config_content_table s' = config_content_table s" "inode_top s' = inode_top s"
    by (simp_all add: s' row_simps nocontent)
  ultimately show ?thesis
    using GetConfigByID_current [OF inv r(1,2) v(1)] GetConfigByID_current [OF inv' r' p' v'(1)] v(2) v'(2)
    by (intro exI [of _ "(stored_config s r)\<lparr>c_content := Some b, c_content_size := sz\<rparr>"]) simp
qed

theorem upsert_acl_only_witness:
  "\<exists>d s' old. Upsert (sample_change\<lparr>c_content := None\<rparr>) 2000 sample_db = (Inr d, s') \<and>
     GetConfigByID sample_db ''3'' True [] = Inr (Some old) \<and>
     config_content_table s' = config_content_table sample_db"
proof -
  let ?c = "sample_change\<lparr>c_content := None\<rparr>"
  have "\<not> isl (fst (Upsert ?c 2000 sample_db))" by code_simp
  then obtain d s' where r: "Upsert ?c 2000 sample_db = (Inr d, s')" using result_pair by metis
  have "c_content ?c = None" "c_id ?c = ''3''" by (simp_all add: sample_change_def)
  then show ?thesis using upsert_acl_only [OF sample_inv r] r by metis
qed

section \<open>Versions\<close>

text \<open>What an \<open>Upsert\<close> keeps of every config: its row identity and all its versions.\<close>

lemma Upsert_keeps:
  assumes inv: "store_inv s" and res: "Upsert c now s = (r, s')"
  shows "x \<in> set (config_table s) \<Longrightarrow> \<exists>y \<in> set (config_table s'). cr_id y = cr_id x \<and> cr_name y = cr_name x \<and>
      cr_path y = cr_path x \<and> cr_created_at y = cr_created_at x"
    and "version_content s i v = Some w \<Longrightarrow> version_content s' i v = Some w"
proof -
  have "(x \<in> set (config_table s) \<longrightarrow> (\<exists>y \<in> set (config_table s'). cr_id y = cr_id x \<and> cr_name y = cr_name x \<and>
      cr_path y = cr_path x \<and> cr_created_at y = cr_created_at x)) \<and>
    (version_content s i v = Some w \<longrightarrow> version_content s' i v = Some w)"
  proof (cases r)
    case (Inl e)
    with res have "s' = s" by (auto dest: Upsert_error_state)
    then show ?thesis by blast
  next
    case (Inr d)
    show ?thesis
    proof (rule Upsert_success_cases [OF inv res [unfolded Inr]])
      fix b assume s': "s' = add_config c b now s"
      then show ?thesis
        using version_content_fresh [OF inv, of "inode_top s + 2" i]
        by (auto simp: row_simps add_config_versions [OF inv])
    next
      fix z assume s': "s' = change_config (cr_id z) c now s"
      have "version_content s i v = Some w \<longrightarrow> version_content s' i v = Some w"
        using version_content_fresh [OF inv, of "inode_top s + 1" i]
        by (auto simp: s' change_config_versions [OF inv] split: option.split)
      moreover have "\<exists>y \<in> set (config_table s'). cr_id y = cr_id x \<and> cr_name y = cr_name x \<and>
          cr_path y = cr_path x \<and> cr_created_at y = cr_created_at x" if "x \<in> set (config_table s)"
        using that by (intro bexI [of _ "if cr_id x = cr_id z then updated_row now (new_current s (c_content c)) x else x"])
          (auto simp: s' row_simps)
      ultimately show ?thesis by blast
    qed
  qed
  then show "x \<in> set (config_table s) \<Longrightarrow> \<exists>y \<in> set (config_table s'). cr_id y = cr_id x \<and> cr_name y = cr_name x \<and>
      cr_path y = cr_path x \<and> cr_created_at y = cr_created_at x"
    and "version_content s i v = Some w \<Longrightarrow> version_content s' i v = Some w" by blast+
qed

lemma GetConfigByID_version_Some:
  assumes inv: "store_inv s" and res: "GetConfigByID s i True v = Inr (Some c)" and v: "v \<noteq> []"
  obtains r n b sz where "r \<in> set (config_table s)" "parse_int64 i = Some (cr_id r)" "parse_int64 v = Some n"
    "version_content s (cr_id r) n = Some (b, sz)"
    "c = (stored_config s r)\<lparr>c_content := Some b, c_content_size := sz\<rparr>"
proof -
  obtain r where r: "r \<in> set (config_table s)" "parse_int64 i = Some (cr_id r)"
    using GetConfigByID_Some [OF inv res] by metis
  from GetConfigByID_version [OF inv r v] res obtain n where n: "parse_int64 v = Some n"
    "map_option (\<lambda>(b, sz). (stored_config s r)\<lparr>c_content := Some b, c_content_size := sz\<rparr>)
      (version_content s (cr_id r) n) = Some c"
    by (cases "parse_int64 v") (simp_all add: eq_commute [of "Some c"])
  then show thesis by (auto intro: that [OF r])
qed

lemma version_content_Some:
  "version_content s i v = Some x \<Longrightarrow> \<exists>p \<in> set (config_content_table s). cc_id p = v \<and> cc_config_id p = i"
  by (auto simp: version_content_def find_Some_iff)

text \<open>
  C4: A content version is immutable: once \<open>GetConfigByID\<close> returns it for a config, it returns the
  same bytes and size for that config and version after any \<open>Upsert\<close>, whether that succeeds or
  fails and whichever config it writes.
\<close>

theorem upsert_versions_immutable:
  assumes inv: "store_inv s" and res: "Upsert c now s = (r, s')"
    and old: "GetConfigByID s i True v = Inr (Some x)" and v: "v \<noteq> []"
  shows "\<exists>y. GetConfigByID s' i True v = Inr (Some y) \<and> c_content y = c_content x \<and>
    c_content_size y = c_content_size x \<and> c_id y = c_id x \<and> c_name y = c_name x \<and> c_path y = c_path x \<and>
    c_created_at y = c_created_at x"
proof -
  obtain a n b sz where a: "a \<in> set (config_table s)" "parse_int64 i = Some (cr_id a)" "parse_int64 v = Some n"
    "version_content s (cr_id a) n = Some (b, sz)"
    "x = (stored_config s a)\<lparr>c_content := Some b, c_content_size := sz\<rparr>"
    using GetConfigByID_version_Some [OF inv old v] .
  obtain y where y: "y \<in> set (config_table s')" "cr_id y = cr_id a" "cr_name y = cr_name a"
    "cr_path y = cr_path a" "cr_created_at y = cr_created_at a"
    using Upsert_keeps(1) [OF inv res a(1)] by blast
  have "version_content s' (cr_id y) n = Some (b, sz)" using Upsert_keeps(2) [OF inv res a(4)] y(2) by simp
  moreover have "parse_int64 i = Some (cr_id y)" using a(2) y(2) by simp
  ultimately show ?thesis
    using GetConfigByID_version [OF Upsert_inv [OF inv res] y(1) _ v, of i] a(3,5) y(2-5)
    by (simp add: stored_config_def)
qed

theorem upsert_versions_immutable_witness:
  "\<exists>r s' x y. Upsert sample_change 2000 sample_db = (r, s') \<and>
     GetConfigByID sample_db ''3'' True ''4'' = Inr (Some x) \<and>
     GetConfigByID s' ''3'' True ''4'' = Inr (Some y) \<and> c_content y = c_content x"
proof -
  obtain r s' where r: "Upsert sample_change 2000 sample_db = (r, s')" by (cases "Upsert sample_change 2000 sample_db")
  have "\<not> isl (GetConfigByID sample_db ''3'' True ''4'')" "projr (GetConfigByID sample_db ''3'' True ''4'') \<noteq> None"
    by code_simp+
  then obtain x where x: "GetConfigByID sample_db ''3'' True ''4'' = Inr (Some x)"
    by (cases "GetConfigByID sample_db ''3'' True ''4''") auto
  show ?thesis using upsert_versions_immutable [OF sample_inv r x] r x by auto
qed

text \<open>
  A version belongs to one config: a version that one config id returns with content is not
  returned for any other config.
\<close>

theorem version_confined:
  assumes inv: "store_inv s" and v: "v \<noteq> []"
    and one: "GetConfigByID s i True v = Inr (Some x)" and two: "GetConfigByID s j True v = Inr (Some y)"
  shows "c_id x = c_id y \<and> parse_int64 i = parse_int64 j"
proof -
  obtain a n b sz where a: "a \<in> set (config_table s)" "parse_int64 i = Some (cr_id a)" "parse_int64 v = Some n"
    "version_content s (cr_id a) n = Some (b, sz)"
    "x = (stored_config s a)\<lparr>c_content := Some b, c_content_size := sz\<rparr>"
    using GetConfigByID_version_Some [OF inv one v] .
  obtain a' n' b' sz' where a': "a' \<in> set (config_table s)" "parse_int64 j = Some (cr_id a')" "parse_int64 v = Some n'"
    "version_content s (cr_id a') n' = Some (b', sz')"
    "y = (stored_config s a')\<lparr>c_content := Some b', c_content_size := sz'\<rparr>"
    using GetConfigByID_version_Some [OF inv two v] .
  have "n' = n" using a(3) a'(3) by simp
  then have "cr_id a = cr_id a'"
    using version_content_Some [OF a(4)] version_content_Some [OF a'(4)] cc_id_unique [OF inv] by metis
  with a a' show ?thesis by (simp add: stored_config_def)
qed

theorem version_confined_witness:
  "\<exists>x y. GetConfigByID sample_db ''3'' True ''4'' = Inr (Some x) \<and>
     GetConfigByID sample_db ''+3'' True ''4'' = Inr (Some y) \<and> c_id x = c_id y"
proof -
  have "\<not> isl (GetConfigByID sample_db ''3'' True ''4'')" "projr (GetConfigByID sample_db ''3'' True ''4'') \<noteq> None"
    "\<not> isl (GetConfigByID sample_db ''+3'' True ''4'')" "projr (GetConfigByID sample_db ''+3'' True ''4'') \<noteq> None"
    by code_simp+
  then obtain x y where x: "GetConfigByID sample_db ''3'' True ''4'' = Inr (Some x)"
    and y: "GetConfigByID sample_db ''+3'' True ''4'' = Inr (Some y)"
    by (cases "GetConfigByID sample_db ''3'' True ''4''"; cases "GetConfigByID sample_db ''+3'' True ''4''") auto
  have "''4'' \<noteq> ([] :: string)" by simp
  from version_confined [OF sample_inv this x y] x y show ?thesis by blast
qed

section \<open>Frame and outcomes\<close>

text \<open>What an \<open>Upsert\<close> leaves alone.\<close>

lemma Upsert_frame:
  assumes inv: "store_inv s" and res: "Upsert c now s = (Inr (Some x), s')"
    and other: "parse_int64 i \<noteq> parse_int64 (c_id x)"
  shows "GetConfigByID s' i b v = GetConfigByID s i b v \<and> dir_tree s' = dir_tree s"
proof (cases "parse_int64 i")
  case None
  have "dir_tree s' = dir_tree s"
    by (rule Upsert_success_cases [OF inv res]) (simp_all add: config_writes_tree)
  with None show ?thesis by (simp add: GetConfigByID_def)
next
  case (Some n)
  note inv' = Upsert_inv [OF inv res]
  show ?thesis
  proof (rule Upsert_success_cases [OF inv res])
    fix b assume s': "s' = add_config c b now s" and d: "GetConfigByID s' (show_int (inode_top s + 1)) False [] = Inr (Some x)"
    obtain r where "r \<in> set (config_table s')" "c_id x = show_int (cr_id r)"
        "parse_int64 (show_int (inode_top s + 1)) = Some (cr_id r)"
      using GetConfigByID_Some [OF inv' d] by metis
    then have "parse_int64 (c_id x) = Some (inode_top s + 1)"
      using parse_cr_id [OF inv'] store_inv_top [OF inv] inv' by (auto simp: store_inv_def max_id_def s' row_simps)
    then have "n \<noteq> inode_top s + 1" using other Some by simp
    then have "GetConfigByID s' i b v = GetConfigByID s i b v" for b
      by (intro GetConfigByID_cong [OF inv inv' Some])
        (simp_all add: s' add_config_acls [OF inv] add_config_versions [OF inv], simp add: row_simps find_snoc split: option.split)
    then show ?thesis by (simp add: s' config_writes_tree)
  next
    fix r assume r: "r \<in> set (config_table s)" and s': "s' = change_config (cr_id r) c now s"
      and d: "GetConfigByID s' (show_int (cr_id r)) False [] = Inr (Some x)"
    obtain r' where "r' \<in> set (config_table s')" "c_id x = show_int (cr_id r')"
        "parse_int64 (show_int (cr_id r)) = Some (cr_id r')"
      using GetConfigByID_Some [OF inv' d] by metis
    then have "parse_int64 (c_id x) = Some (cr_id r)" using parse_cr_id [OF inv r] by simp
    then have n: "n \<noteq> cr_id r" using other Some by simp
    have "find (\<lambda>r. cr_id r = n) (config_table s') = find (\<lambda>r. cr_id r = n) (config_table s)"
    proof (cases "find (\<lambda>r. cr_id r = n) (config_table s)")
      case (Some y)
      then have "cr_id y = n" by (auto simp: find_Some_iff)
      with Some n show ?thesis by (simp add: s' row_simps find_updated)
    qed (simp add: s' row_simps find_updated)
    then have "GetConfigByID s' i b v = GetConfigByID s i b v" for b
      using n by (intro GetConfigByID_cong [OF inv inv' Some])
        (simp_all add: s' change_config_acls_eq [OF inv] change_config_versions [OF inv] split: option.split)
    then show ?thesis by (simp add: s' config_writes_tree)
  qed
qed

text \<open>
  C36: A successful \<open>Upsert\<close> touches one config: every read, current or of any version, of every
  other id gives the same answer before and after, and no directory or directory ACL changes.
\<close>

theorem upsert_frame:
  assumes "store_inv s" and "Upsert c now s = (Inr (Some x), s')" and "parse_int64 i \<noteq> parse_int64 (c_id x)"
  shows "GetConfigByID s' i b v = GetConfigByID s i b v \<and> dir_tree s' = dir_tree s"
  using assms by (rule Upsert_frame)

theorem upsert_frame_witness:
  "\<exists>x s'. Upsert sample_config 2000 sample_db = (Inr (Some x), s') \<and>
     GetConfigByID s' ''3'' True [] = GetConfigByID sample_db ''3'' True [] \<and> dir_tree s' = dir_tree sample_db"
proof -
  have "case fst (Upsert sample_config 2000 sample_db) of Inr (Some x) \<Rightarrow> parse_int64 ''3'' \<noteq> parse_int64 (c_id x) | _ \<Rightarrow> False"
    by code_simp
  then obtain x s' where r: "Upsert sample_config 2000 sample_db = (Inr (Some x), s')"
    "parse_int64 ''3'' \<noteq> parse_int64 (c_id x)"
    by (cases "Upsert sample_config 2000 sample_db") (auto split: sum.splits option.splits)
  show ?thesis using upsert_frame [OF sample_inv r] r(1) by blast
qed

text \<open>A config may live in the root, written as the empty path or a slash, or in any directory.\<close>

lemma config_path_ok_tree:
  assumes inv: "store_inv s"
  shows "config_path_ok (directory_table s) p \<longleftrightarrow>
    p = [] \<or> p = ''/'' \<or> (\<exists>ps. dir_tree s ps \<noteq> None \<and> p = abs_path ps)"
  unfolding config_path_ok_def dir_tree_None by blast

text \<open>
  C39: What \<open>Upsert\<close> does with a config that has no id, while inode numbers last: refused when the
  directory does not exist, refused when the directory already holds a config of that name, refused
  by the NOT NULL column when there is no content, and created otherwise; a refusal leaves the
  database as it was.
\<close>

theorem upsert_create_outcome:
  assumes inv: "store_inv s" and i: "c_id c = []" and room: "inode_top s + 2 \<le> max_id"
  shows "if \<not> (c_path c = [] \<or> c_path c = ''/'' \<or> (\<exists>ps. dir_tree s ps \<noteq> None \<and> c_path c = abs_path ps))
    then Upsert c now s = (Inl (DirectoryDoesNotExist (c_path c)), s)
    else if getConfigByPathAndName s (c_path c) (c_name c) \<noteq> None
    then Upsert c now s = (Inl ConfigAlreadyExists, s)
    else case c_content c of
      None \<Rightarrow> Upsert c now s = (Inl ContentIsNull, s)
    | Some b \<Rightarrow> \<exists>d s'. Upsert c now s = (Inr d, s')"
proof -
  have req: "requireDirectoryExists s (c_path c) =
      (if config_path_ok (directory_table s) (c_path c) then Inr () else Inl (DirectoryDoesNotExist (c_path c)))"
    using requireDirectoryExists_iff [OF inv, of "c_path c"]
    by (auto simp: requireDirectoryExists_def split: if_splits prod.splits)
  show ?thesis
    unfolding config_path_ok_tree [OF inv, symmetric]
    using i room parse_int64_show [of "inode_top s + 1"] store_inv_top [OF inv]
    by (auto simp: Upsert_def upsert_body_def with_tx_def tx_bind_def tx_lift_def req upsert_insert_def
        tx_get_def tx_fail_def insert_config_eq GetConfigByID_def max_id_def split: option.splits)
qed

theorem upsert_create_outcome_witness:
  "Upsert (sample_config\<lparr>c_content := None\<rparr>) 2000 sample_db = (Inl ContentIsNull, sample_db)"
proof -
  let ?c = "sample_config\<lparr>c_content := None\<rparr>"
  have c: "c_id ?c = []" "inode_top sample_db + 2 \<le> max_id" by code_simp+
  have f: "dir_tree sample_db [''team''] \<noteq> None" "c_path ?c = abs_path [''team'']"
    "getConfigByPathAndName sample_db (c_path ?c) (c_name ?c) = None" "c_content ?c = None" by code_simp+
  then have "\<exists>ps. dir_tree sample_db ps \<noteq> None \<and> c_path ?c = abs_path ps" by blast
  then show ?thesis using upsert_create_outcome [OF sample_inv c, of 2000] f(3,4)
    by (simp only: simp_thms if_False option.case)
qed



section \<open>Delete\<close>

text \<open>
  C37: \<open>Delete\<close> of a well-formed id succeeds and removes exactly that config: no read of the id finds
  anything, none of its versions or ACL rows is left, every other id reads as before and the
  directories are untouched.
\<close>

theorem delete_removes_exactly:
  assumes inv: "store_inv s" and i: "parse_int64 i = Some n"
  shows "\<exists>s'. Delete i s = (Inr (), s') \<and>
    (\<forall>j b v. GetConfigByID s' j b v = (if parse_int64 j = Some n then Inr None else GetConfigByID s j b v)) \<and>
    n \<notin> cc_config_id ` set (config_content_table s') \<and> n \<notin> ar_owner_id ` set (config_acl_table s') \<and>
    dir_tree s' = dir_tree s"
proof (intro exI [of _ "remove_config n s"] conjI allI)
  show "Delete i s = (Inr (), remove_config n s)" using i by (simp add: Delete_eq)
  show "n \<notin> cc_config_id ` set (config_content_table (remove_config n s))"
    "n \<notin> ar_owner_id ` set (config_acl_table (remove_config n s))" by (auto simp: row_simps)
  show "dir_tree (remove_config n s) = dir_tree s" by (rule config_writes_tree)
  fix j b v
  show "GetConfigByID (remove_config n s) j b v = (if parse_int64 j = Some n then Inr None else GetConfigByID s j b v)"
  proof (cases "parse_int64 j")
    case None
    then show ?thesis by (simp add: GetConfigByID_def)
  next
    case (Some m)
    show ?thesis
    proof (cases "m = n")
      case True
      with Some GetConfigByID_none [OF Some, of "remove_config n s" b v] show ?thesis by (auto simp: row_simps)
    next
      case False
      have "find (\<lambda>r. cr_id r = m) (filter (\<lambda>r. cr_id r \<noteq> n) (config_table s)) = find (\<lambda>r. cr_id r = m) (config_table s)"
        using False by (intro find_filter_other) auto
      with False Some show ?thesis
        using GetConfigByID_cong [OF inv remove_config_inv [OF inv] Some, of n]
        by (simp add: remove_config_acls [OF inv] remove_config_versions row_simps)
    qed
  qed
qed

theorem delete_removes_exactly_witness:
  "\<exists>s'. Delete ''3'' sample_db = (Inr (), s') \<and> GetConfigByID s' ''3'' True [] = Inr None"
proof -
  have i: "parse_int64 ''3'' = Some 3" by code_simp
  show ?thesis using delete_removes_exactly [OF sample_inv i] i by auto
qed

end
