(* ===== verification/DirTree.thy ===== *)
theory DirTree
  imports ConfigTheorems
begin

text \<open>
  The access-filtered tree of \<open>internal/store/sqlite/store.go\<close> (\<open>rootNormalised\<close>,
  \<open>populateDirectory\<close>, \<open>readableDirectories\<close>, \<open>TreeForACLTags\<close>) and the specification it is measured
  against: a path is granted when every directory on it exists and grants READ.

  \<open>slices.SortFunc\<close> is not stable; \<open>readable_fold\<close> takes the sorted list as an argument, and the
  lemmas hold for every order of the directories of equal depth.
\<close>

section \<open>The code\<close>

definition rootNormalised :: "string \<Rightarrow> string" where
  "rootNormalised path = (if path = [] then ''/'' else path)"

text \<open>
  \<open>populateDirectory\<close>, with the recursion depth bounded by a fuel; \<open>None\<close> is a recursion deeper
  than the fuel (the Go function has no bound of its own).
\<close>

fun populateDirectory :: "nat \<Rightarrow> directory \<Rightarrow> directory list \<Rightarrow> config list \<Rightarrow> directory option" where
  "populateDirectory 0 directory otherDirectories configs = None"
| "populateDirectory (Suc fuel) directory otherDirectories configs =
     (let placed = filter (\<lambda>config. rootNormalised (c_path config) = Directory_FullPath directory) configs;
          children = filter (\<lambda>otherDir. d_path otherDir = Directory_FullPath directory) otherDirectories
      in map_option (\<lambda>copies. Directory (d_id directory) (d_name directory) (d_path directory)
             (d_directories directory @ copies) (d_configs directory @ placed) (d_acls directory))
           (those (map (\<lambda>otherDir. populateDirectory fuel otherDir otherDirectories configs) children)))"

text \<open>One iteration of the loop of \<open>readableDirectories\<close>; an absent key of the Go map reads as false.\<close>

definition readable_step :: "string list \<Rightarrow> (string \<Rightarrow> bool) \<Rightarrow> directory \<Rightarrow> (string \<Rightarrow> bool)" where
  "readable_step tags readable d =
     readable(Directory_FullPath d := readable (d_path d) \<and> Directory_Allows (Some d) tags Acl_READ)"

definition readable_fold :: "string list \<Rightarrow> directory list \<Rightarrow> (string \<Rightarrow> bool)" where
  "readable_fold tags dirs = foldl (readable_step tags) (\<lambda>p. p = [] \<or> p = ''/'') dirs"

definition readableDirectories :: "directory list \<Rightarrow> string list \<Rightarrow> (string \<Rightarrow> bool)" where
  "readableDirectories dirs tags =
     readable_fold tags (sort_key (\<lambda>d. count_char CHR ''/'' (Directory_FullPath d)) dirs)"

text \<open>The rows the query selects; the empty prefix selects all.\<close>

definition tree_rows :: "db \<Rightarrow> string \<Rightarrow> config_row list" where
  "tree_rows s pre =
     (if pre \<noteq> [] then filter (\<lambda>c. cr_path c = pre \<or> sql_like (pre @ ''/%'') (cr_path c)) (config_table s)
      else config_table s)"

fun tree_loop :: "db \<Rightarrow> string set \<Rightarrow> (string \<Rightarrow> bool) \<Rightarrow> string list \<Rightarrow> string \<Rightarrow>
    (int \<Rightarrow> config_acl list) \<Rightarrow> config_row list \<Rightarrow> config list \<Rightarrow> store_error + config list" where
  "tree_loop s dirByPath readable tags pre aclsByConfig [] configs = Inr configs"
| "tree_loop s dirByPath readable tags pre aclsByConfig (c # cs) configs =
     (if pre \<noteq> [] \<and> cr_path c \<noteq> pre \<and> \<not> has_prefix (cr_path c) (pre @ ''/'')
      then tree_loop s dirByPath readable tags pre aclsByConfig cs configs
      else
        (let config = config_of_row s (aclsByConfig (cr_id c)) c
         in if \<not> Config_Allows config tags Acl_READ
            then tree_loop s dirByPath readable tags pre aclsByConfig cs configs
            else if cr_path c \<noteq> [] \<and> cr_path c \<noteq> ''/'' \<and> cr_path c \<notin> dirByPath
            then Inl (MissingDirectory (cr_path c) (Config_FullPath config))
            else if \<not> readable (cr_path c)
            then tree_loop s dirByPath readable tags pre aclsByConfig cs configs
            else tree_loop s dirByPath readable tags pre aclsByConfig cs (configs @ [config])))"

text \<open>The synthesised root.\<close>

definition tree_root :: directory where
  "tree_root = Directory ''0'' ''/'' [] [] [] []"

definition TreeForACLTags :: "db \<Rightarrow> string list \<Rightarrow> string \<Rightarrow> store_error + directory" where
  "TreeForACLTags s aclTags pre =
     (let allDirs = allDirectoriesWithACLs s;
          dirByPath = set (map Directory_FullPath allDirs);
          readable = readableDirectories allDirs aclTags;
          cs = tree_rows s pre;
          aclsByConfig = loadACLs Config_acl s (map cr_id cs)
      in case tree_loop s dirByPath readable aclTags pre aclsByConfig cs [] of
           Inl e \<Rightarrow> Inl e
         | Inr configs \<Rightarrow>
             (let includeDirs = filter (\<lambda>d. readable (Directory_FullPath d)) allDirs
              in case populateDirectory (Suc (length allDirs)) tree_root includeDirs configs of
                   None \<Rightarrow> Inl NotReturning
                 | Some treeRoot \<Rightarrow> Inr treeRoot))"

section \<open>The specification\<close>

text \<open>The gate of one directory, by its components: it exists and is transparent or grants.\<close>

definition dir_grants :: "db \<Rightarrow> string list \<Rightarrow> Acl \<Rightarrow> string list \<Rightarrow> bool" where
  "dir_grants s tags r ps =
     (case dir_tree s ps of None \<Rightarrow> False | Some acls \<Rightarrow> acls = [] \<or> acls_grant acls tags r)"

text \<open>Every directory on the path, the last included, exists and grants READ.\<close>

definition path_granted :: "db \<Rightarrow> string list \<Rightarrow> string list \<Rightarrow> bool" where
  "path_granted s tags ps =
     list_all (\<lambda>n. dir_grants s tags Acl_READ (take (Suc n) ps)) [0..<length ps]"

definition in_prefix :: "string \<Rightarrow> string \<Rightarrow> bool" where
  "in_prefix pre path = (pre = [] \<or> path = pre \<or> prefix (pre @ ''/'') path)"

text \<open>What a caller may see of a config: it grants READ and so does every directory above it.\<close>

definition config_visible :: "db \<Rightarrow> string list \<Rightarrow> config_row \<Rightarrow> bool" where
  "config_visible s tags r \<longleftrightarrow>
     acls_grant (aclsForOwner Config_acl s (cr_id r)) tags Acl_READ \<and>
     path_granted s tags (clean_parts (cr_path r))"

lemma path_granted_Nil [simp]: "path_granted s tags []"
  by (simp add: path_granted_def)

lemma path_granted_snoc:
  "path_granted s tags (ps @ [n]) \<longleftrightarrow> path_granted s tags ps \<and> dir_grants s tags Acl_READ (ps @ [n])"
  by (auto simp: path_granted_def list_all_iff)

lemma path_granted_iff:
  "path_granted s tags ps \<longleftrightarrow> (\<forall>p. prefix p ps \<longrightarrow> p \<noteq> [] \<longrightarrow> dir_grants s tags Acl_READ p)"
proof (induction ps rule: rev_induct)
  case Nil
  show ?case by simp
next
  case (snoc n ps)
  then show ?case by (auto simp: path_granted_snoc)
qed

lemma path_granted_prefix: "path_granted s tags ps \<Longrightarrow> prefix qs ps \<Longrightarrow> path_granted s tags qs"
  by (meson path_granted_iff prefix_order.trans)

lemma Directory_Allows_stored:
  assumes "directories_ok (directory_table s)" and "r \<in> set (directory_table s)"
  shows "Directory_Allows (Some (stored_directory s r)) tags req = dir_grants s tags req (row_parts r)"
  using dir_tree_row [OF assms]
  by (simp add: Directory_Allows_def Directory_GetAcls_def dir_grants_def stored_directory_def Let_def)

section \<open>The readable set\<close>

lemma allDirectories_eq:
  assumes "acl_rows_ok (directory_acl_table s)"
  shows "allDirectoriesWithACLs s = map (stored_directory s) (sort_key dr_path (directory_table s))"
proof -
  have "loadACLs Directory_acl s (map dr_id (sort_key dr_path (directory_table s))) (dr_id r)
      = aclsForOwner Directory_acl s (dr_id r)" if "r \<in> set (sort_key dr_path (directory_table s))" for r
    using assms that by (intro acls_loaded)
  then show ?thesis by (auto simp: allDirectoriesWithACLs_def Let_def stored_directory_def)
qed

text \<open>
  The loop over directories sorted by depth: when it is through, a stored directory is marked
  exactly when its path is granted.
\<close>

lemma readable_fold_granted:
  assumes ok: "directories_ok (directory_table s)"
    and rows: "distinct rows" "set rows \<subseteq> set (directory_table s)"
    and closed: "\<forall>i < length rows. \<forall>x \<in> set (directory_table s).
        length (row_parts x) < length (row_parts (rows ! i)) \<longrightarrow> x \<in> set (take i rows)"
  shows "readable_fold tags (map (stored_directory s) rows) p \<longleftrightarrow>
    p = [] \<or> p = ''/'' \<or> (\<exists>r \<in> set rows. p = abs_path (row_parts r) \<and> path_granted s tags (row_parts r))"
  using rows closed
proof (induction rows arbitrary: p rule: rev_induct)
  case Nil
  show ?case by (simp add: readable_fold_def)
next
  case (snoc r rows)
  have closed: "\<forall>i < length rows. \<forall>x \<in> set (directory_table s).
        length (row_parts x) < length (row_parts (rows ! i)) \<longrightarrow> x \<in> set (take i rows)"
    using snoc.prems(3) by (auto simp: nth_append)
  have IH: "readable_fold tags (map (stored_directory s) rows) p \<longleftrightarrow>
    p = [] \<or> p = ''/'' \<or> (\<exists>r \<in> set rows. p = abs_path (row_parts r) \<and> path_granted s tags (row_parts r))" for p
    using snoc.IH [OF _ _ closed] snoc.prems(1,2) by simp
  have r: "r \<in> set (directory_table s)" "r \<notin> set rows" using snoc.prems(1,2) by auto
  have step: "readable_fold tags (map (stored_directory s) (rows @ [r])) =
      (readable_fold tags (map (stored_directory s) rows))(abs_path (row_parts r) :=
        readable_fold tags (map (stored_directory s) rows) (dr_path r) \<and>
        dir_grants s tags Acl_READ (row_parts r))"
    by (simp add: readable_fold_def readable_step_def stored_directory_full_path [OF ok r(1)]
        Directory_Allows_stored [OF ok r(1)]) (simp add: stored_directory_def)
  let ?q = "clean_parts (dr_path r)"
  have dp: "dr_path r = abs_path ?q" and parts: "row_parts r = ?q @ [dr_name r]"
    using directories_okD(2) [OF ok r(1)] by (simp_all add: row_parts_def)
  have good: "good_path ?q" by simp
  have "readable_fold tags (map (stored_directory s) rows) (abs_path ?q) \<longleftrightarrow> path_granted s tags ?q"
  proof (cases "?q = []")
    case True
    then show ?thesis by (simp add: IH)
  next
    case False
    then obtain x where x: "x \<in> set (directory_table s)" "row_parts x = ?q"
      using parent_exists [OF ok r(1)] by auto
    have "length (row_parts x) < length (row_parts r)" by (simp add: x(2) parts)
    then have "x \<in> set rows" using snoc.prems(3) x(1) by (fastforce simp: nth_append dest: spec [of _ "length rows"])
    then show ?thesis
      using False x(2) good good_row_parts [OF ok] snoc.prems(2) by (auto simp: IH intro!: bexI [of _ x])
  qed
  then have new: "readable_fold tags (map (stored_directory s) rows) (dr_path r) \<longleftrightarrow> path_granted s tags ?q"
    by (metis dp)
  have pg: "path_granted s tags (row_parts r) \<longleftrightarrow> path_granted s tags ?q \<and> dir_grants s tags Acl_READ (row_parts r)"
    unfolding parts by (rule path_granted_snoc)
  have fresh: "abs_path (row_parts r) \<noteq> abs_path (row_parts x)" if "x \<in> set rows" for x
    using that r row_parts_unique [OF ok r(1), of x] snoc.prems(2) good_row_parts [OF ok] by auto
  have root: "abs_path (row_parts r) \<noteq> ''/''" using good_row_parts [OF ok r(1)] by simp
  show ?case unfolding step using new pg fresh root by (auto simp: IH)
qed

lemma sort_key_map: "sort_key f (map g xs) = map g (sort_key (\<lambda>x. f (g x)) xs)"
proof (induction xs)
  case (Cons x xs)
  have "insort_key f (g x) (map g ys) = map g (insort_key (\<lambda>x. f (g x)) x ys)" for ys by (induction ys) auto
  with Cons show ?case by simp
qed simp

lemma depth_sorted_closed:
  assumes "sorted (map f rows)" and "i < length rows" and "x \<in> set rows" and "f x < f (rows ! i)"
  shows "x \<in> set (take i rows)"
proof -
  obtain j where j: "j < length rows" "x = rows ! j" using assms(3) by (auto simp: in_set_conv_nth)
  have "j < i"
  proof (rule ccontr)
    assume "\<not> j < i"
    then have "f (rows ! i) \<le> f (rows ! j)" using assms(1) j(1) by (auto simp: sorted_iff_nth_mono)
    with assms(4) j(2) show False by simp
  qed
  then show ?thesis using j(2) assms(2) by (auto simp: in_set_conv_nth intro!: exI [of _ j])
qed

lemma depth_stored:
  assumes ok: "directories_ok (directory_table s)" and r: "r \<in> set (directory_table s)"
  shows "count_char CHR ''/'' (Directory_FullPath (stored_directory s r)) = length (row_parts r)"
  by (simp add: stored_directory_full_path [OF ok r] count_slash_abs_path good_row_parts [OF ok r])

lemma path_granted_exists: "path_granted s tags ps \<Longrightarrow> ps \<noteq> [] \<Longrightarrow> dir_tree s ps \<noteq> None"
  using path_granted_iff [of s tags ps] by (auto simp: dir_grants_def split: option.splits)

lemma granted_rows:
  assumes ok: "directories_ok (directory_table s)"
  shows "(p = [] \<or> p = ''/'' \<or>
      (\<exists>r \<in> set (directory_table s). p = abs_path (row_parts r) \<and> path_granted s tags (row_parts r))) \<longleftrightarrow>
    p = [] \<or> (\<exists>ps. p = abs_path ps \<and> path_granted s tags ps)"
proof -
  have "\<exists>r \<in> set (directory_table s). row_parts r = ps" if "path_granted s tags ps" "ps \<noteq> []" for ps
    using path_granted_exists [OF that] by (auto simp: dir_tree_None)
  then show ?thesis by (metis abs_path_Nil path_granted_Nil)
qed

lemma readable_fold_sorted:
  assumes inv: "store_inv s" and perm: "mset rows = mset (directory_table s)"
    and sorted: "sorted (map (\<lambda>r. length (row_parts r)) rows)"
  shows "readable_fold tags (map (stored_directory s) rows) p \<longleftrightarrow>
    p = [] \<or> (\<exists>ps. p = abs_path ps \<and> path_granted s tags ps)"
proof -
  note ok = store_inv_dirs [OF inv]
  have set: "set rows = set (directory_table s)" using perm by (rule mset_eq_setD)
  have "distinct (directory_table s)" using ok by (auto simp: directories_ok_def distinct_map)
  then have "distinct rows" using perm mset_eq_imp_distinct_iff by blast
  moreover have "\<forall>i < length rows. \<forall>x \<in> set (directory_table s).
      length (row_parts x) < length (row_parts (rows ! i)) \<longrightarrow> x \<in> set (take i rows)"
    using depth_sorted_closed [OF sorted] set by blast
  ultimately show ?thesis
    using readable_fold_granted [OF ok, of rows tags p] granted_rows [OF ok, of p tags] set by simp
qed

lemma readable_all:
  assumes inv: "store_inv s"
  shows "readableDirectories (allDirectoriesWithACLs s) tags p \<longleftrightarrow>
    p = [] \<or> (\<exists>ps. p = abs_path ps \<and> path_granted s tags ps)"
proof -
  note ok = store_inv_dirs [OF inv]
  let ?f = "\<lambda>r. count_char CHR ''/'' (Directory_FullPath (stored_directory s r))"
  let ?rs = "sort_key ?f (sort_key dr_path (directory_table s))"
  have "map ?f ?rs = map (\<lambda>r. length (row_parts r)) ?rs" using depth_stored [OF ok] by auto
  moreover have "sorted (map ?f ?rs)" by simp
  ultimately have "sorted (map (\<lambda>r. length (row_parts r)) ?rs)" by metis
  then show ?thesis
    using readable_fold_sorted [OF inv, of ?rs] store_inv_dir_acls [OF inv]
    by (simp add: readableDirectories_def allDirectories_eq sort_key_map)
qed

text \<open>
  C23: The readable set is exactly the granted one: whatever order the sort leaves directories of
  equal depth in, \<open>readableDirectories\<close> marks a path readable if and only if it is the root or every
  directory on it exists and is transparent or grants READ to the caller.
\<close>

theorem readable_iff_granted:
  assumes inv: "store_inv s" and perm: "mset rows = mset (directory_table s)"
    and sorted: "sorted (map (\<lambda>r. count_char CHR ''/'' (Directory_FullPath (stored_directory s r))) rows)"
  shows "(readable_fold tags (map (stored_directory s) rows) p \<longleftrightarrow>
      p = [] \<or> (\<exists>ps. p = abs_path ps \<and> path_granted s tags ps)) \<and>
    readableDirectories (allDirectoriesWithACLs s) tags p = readable_fold tags (map (stored_directory s) rows) p"
proof -
  have "map (\<lambda>r. count_char CHR ''/'' (Directory_FullPath (stored_directory s r))) rows =
      map (\<lambda>r. length (row_parts r)) rows"
    using depth_stored [OF store_inv_dirs [OF inv]] mset_eq_setD [OF perm] by auto
  with sorted have "sorted (map (\<lambda>r. length (row_parts r)) rows)" by (simp only:)
  then show ?thesis using readable_fold_sorted [OF inv perm] readable_all [OF inv] by simp
qed

theorem readable_iff_granted_witness:
  "readableDirectories (allDirectoriesWithACLs sample_db) [''tag:dev''] ''/team/docs'' \<and>
   \<not> readableDirectories (allDirectoriesWithACLs sample_db) [''tag:other''] ''/team/docs''"
proof -
  let ?rows = "[directory_table sample_db ! 2, directory_table sample_db ! 0, directory_table sample_db ! 1]"
  have h: "mset ?rows = mset (directory_table sample_db)"
    "sorted (map (\<lambda>r. count_char CHR ''/'' (Directory_FullPath (stored_directory sample_db r))) ?rows)"
    by (simp add: sample_db_def, code_simp)
  have "readable_fold [''tag:dev''] (map (stored_directory sample_db) ?rows) ''/team/docs''"
    "\<not> readable_fold [''tag:other''] (map (stored_directory sample_db) ?rows) ''/team/docs''" by code_simp+
  then show ?thesis using readable_iff_granted [OF sample_inv h] by simp
qed

end
