(* ===== verification/DirTreeProofs.thy ===== *)
theory DirTreeProofs
  imports DirTree
begin

text \<open>
  \<open>TreeForACLTags\<close> of \<open>internal/store/sqlite/store.go\<close>: on a well-formed database it returns, and
  the tree it returns holds exactly what the caller may see, every config and every directory at
  its place.
\<close>

section \<open>The selection loop\<close>

lemma tree_loop_eq:
  assumes "\<forall>c \<in> set cs. cr_path c = [] \<or> cr_path c = ''/'' \<or> cr_path c \<in> paths"
  shows "tree_loop s paths readable tags pre acls cs configs =
    Inr (configs @ map (\<lambda>c. config_of_row s (acls (cr_id c)) c)
      (filter (\<lambda>c. in_prefix pre (cr_path c) \<and> acls_grant (acls (cr_id c)) tags Acl_READ \<and> readable (cr_path c)) cs))"
  using assms
  by (induction cs arbitrary: configs)
    (auto simp: Let_def Config_Allows_def in_prefix_def has_prefix_def)

lemma loaded_config_acls:
  assumes "acl_rows_ok (config_acl_table s)" and "r \<in> set rows"
  shows "loadACLs Config_acl s (map cr_id rows) (cr_id r) = aclsForOwner Config_acl s (cr_id r)"
  using assms by (intro loadACLs_owner) auto

lemma clean_parts_root [simp]: "clean_parts [] = []" "clean_parts ''/'' = []"
  by (simp_all add: clean_parts_def)

lemma config_path_clean:
  assumes ok: "directories_ok (directory_table s)" and p: "config_path_ok (directory_table s) p"
  shows "rootNormalised p = abs_path (clean_parts p)"
  using p good_row_parts [OF ok] by (auto simp: config_path_ok_def rootNormalised_def)

lemma readable_config_path:
  assumes inv: "store_inv s" and p: "config_path_ok (directory_table s) p"
  shows "readableDirectories (allDirectoriesWithACLs s) tags p \<longleftrightarrow> path_granted s tags (clean_parts p)"
proof -
  note ok = store_inv_dirs [OF inv]
  have good: "good_path ps" if "path_granted s tags ps" for ps
  proof (cases "ps = []")
    case False
    with path_granted_exists [OF that] show ?thesis using stored.tree_good [OF ok] by blast
  qed simp
  have "(p = [] \<or> (\<exists>ps. p = abs_path ps \<and> path_granted s tags ps)) \<longleftrightarrow> path_granted s tags (clean_parts p)"
  proof
    assume "p = [] \<or> (\<exists>ps. p = abs_path ps \<and> path_granted s tags ps)"
    then show "path_granted s tags (clean_parts p)" using good by auto
  next
    assume "path_granted s tags (clean_parts p)"
    then show "p = [] \<or> (\<exists>ps. p = abs_path ps \<and> path_granted s tags ps)"
      using config_path_clean [OF ok p] by (auto simp: rootNormalised_def split: if_splits)
  qed
  then show ?thesis by (simp add: readable_all [OF inv])
qed

text \<open>The configs that go into the tree.\<close>

definition visible_configs :: "db \<Rightarrow> string list \<Rightarrow> string \<Rightarrow> config list" where
  "visible_configs s tags pre = map (stored_config s)
     (filter (\<lambda>c. in_prefix pre (cr_path c) \<and> config_visible s tags c) (config_table s))"

lemma tree_rows_sub: "set (tree_rows s pre) \<subseteq> set (config_table s)"
  by (auto simp: tree_rows_def)

lemma filter_tree_rows:
  assumes "\<And>c. P c \<Longrightarrow> in_prefix pre (cr_path c)"
  shows "filter P (tree_rows s pre) = filter P (config_table s)"
  using assms sql_like_subtree
  by (auto simp: tree_rows_def filter_filter in_prefix_def intro!: filter_cong)

lemma tree_loop_visible:
  assumes inv: "store_inv s"
  shows "tree_loop s (set (map Directory_FullPath (allDirectoriesWithACLs s)))
      (readableDirectories (allDirectoriesWithACLs s) tags) tags pre
      (loadACLs Config_acl s (map cr_id (tree_rows s pre))) (tree_rows s pre) [] =
    Inr (visible_configs s tags pre)"
proof -
  note ok = store_inv_dirs [OF inv]
  have paths: "set (map Directory_FullPath (allDirectoriesWithACLs s)) = full_paths s"
    using store_inv_dir_acls [OF inv]
    by (auto simp: allDirectories_eq full_paths_def stored_directory_full_path [OF ok] image_iff)
  have path_ok: "config_path_ok (directory_table s) (cr_path c)" if "c \<in> set (tree_rows s pre)" for c
    using that tree_rows_sub store_inv_configs [OF inv] by (auto simp: configs_ok_def)
  let ?acls = "loadACLs Config_acl s (map cr_id (tree_rows s pre))"
  let ?P = "\<lambda>c. in_prefix pre (cr_path c) \<and> config_visible s tags c"
  have acls: "?acls (cr_id c) = aclsForOwner Config_acl s (cr_id c)" if "c \<in> set (tree_rows s pre)" for c
    using store_inv_config_acls [OF inv] that by (rule loaded_config_acls)
  have "\<forall>c \<in> set (tree_rows s pre). cr_path c = [] \<or> cr_path c = ''/'' \<or> cr_path c \<in> full_paths s"
    using path_ok by (auto simp: config_path_ok_def full_paths_def)
  from tree_loop_eq [OF this]
  have "tree_loop s (full_paths s) (readableDirectories (allDirectoriesWithACLs s) tags) tags pre ?acls
      (tree_rows s pre) [] =
    Inr (map (\<lambda>c. config_of_row s (?acls (cr_id c)) c)
      (filter (\<lambda>c. in_prefix pre (cr_path c) \<and> acls_grant (?acls (cr_id c)) tags Acl_READ \<and>
        readableDirectories (allDirectoriesWithACLs s) tags (cr_path c)) (tree_rows s pre)))"
    by simp
  also have "filter (\<lambda>c. in_prefix pre (cr_path c) \<and> acls_grant (?acls (cr_id c)) tags Acl_READ \<and>
        readableDirectories (allDirectoriesWithACLs s) tags (cr_path c)) (tree_rows s pre) =
      filter ?P (tree_rows s pre)"
    using acls readable_config_path [OF inv path_ok] by (intro filter_cong) (auto simp: config_visible_def)
  also have "map (\<lambda>c. config_of_row s (?acls (cr_id c)) c) (filter ?P (tree_rows s pre)) =
      map (stored_config s) (filter ?P (tree_rows s pre))"
    using acls by (intro map_cong) (auto simp: stored_config_def)
  also have "filter ?P (tree_rows s pre) = filter ?P (config_table s)" by (rule filter_tree_rows) simp
  finally show ?thesis unfolding paths visible_configs_def .
qed

section \<open>Building the tree\<close>

text \<open>Every node of a tree, the top included, and every config in it.\<close>

fun tree_nodes :: "directory \<Rightarrow> directory list" where
  "tree_nodes (Directory i n p ds cs acls) = Directory i n p ds cs acls # concat (map tree_nodes ds)"

fun tree_configs :: "directory \<Rightarrow> config list" where
  "tree_configs (Directory i n p ds cs acls) = cs @ concat (map tree_configs ds)"

text \<open>The rows directly beneath the components \<open>q\<close>.\<close>

definition child_rows :: "string list \<Rightarrow> directory_row list \<Rightarrow> directory_row list" where
  "child_rows q rows = filter (\<lambda>r. butlast (row_parts r) = q) rows"

text \<open>
  What \<open>populateDirectory\<close> makes of a childless directory at components \<open>q\<close>, the directories
  \<open>rows\<close> and the configs \<open>cs\<close>.
\<close>

definition populated :: "directory_row list \<Rightarrow> config list \<Rightarrow> string list \<Rightarrow> directory \<Rightarrow> bool" where
  "populated rows cs q t \<longleftrightarrow>
     Directory_FullPath t = abs_path q \<and>
     set (d_configs t) = {c \<in> set cs. rootNormalised (c_path c) = abs_path q} \<and>
     d_configs t = filter (\<lambda>c. rootNormalised (c_path c) = abs_path q) cs \<and>
     map (\<lambda>d. (d_id d, d_name d, d_path d)) (d_directories t) =
       map (\<lambda>r. (show_int (dr_id r), dr_name r, dr_path r)) (child_rows q rows) \<and>
     set (tree_configs t) = {c \<in> set cs. \<exists>p. rootNormalised (c_path c) = abs_path p \<and> prefix q p \<and>
       (p = q \<or> p \<in> row_parts ` set rows)} \<and>
     d_id ` set (tree_nodes t) = insert (d_id t) ((\<lambda>r. show_int (dr_id r)) ` {r \<in> set rows. strict_prefix q (row_parts r)})"

lemma those_map_Some: "(\<And>x. x \<in> set xs \<Longrightarrow> f x = Some (g x)) \<Longrightarrow> those (map f xs) = Some (map g xs)"
  by (induction xs) auto

lemma strict_prefixE_step:
  assumes "strict_prefix q p"
  obtains n where "prefix (q @ [n]) p"
proof -
  obtain x xs where "p = q @ x # xs" using assms by (auto elim: strict_prefixE')
  then have "p = (q @ [x]) @ xs" by simp
  then show thesis by (intro that [of x]) (simp only: prefixI)
qed

lemma strict_prefix_stepI: "prefix (q @ [n]) p \<Longrightarrow> strict_prefix q p"
  by (auto simp: prefix_def strict_prefix_def)

lemma child_rows_iff: "r \<in> set (child_rows q rows) \<longleftrightarrow> r \<in> set rows \<and> row_parts r = q @ [dr_name r]"
  by (auto simp: child_rows_def row_parts_def)

lemma children_eq:
  assumes ok: "directories_ok (directory_table s)" and sub: "set rows \<subseteq> set (directory_table s)" and q: "good_path q"
  shows "filter (\<lambda>d. d_path d = abs_path q) (map (stored_directory s) rows) =
    map (stored_directory s) (child_rows q rows)"
proof -
  have "dr_path r = abs_path q \<longleftrightarrow> clean_parts (dr_path r) = q" if "r \<in> set rows" for r
    using directories_okD(2) [OF ok, of r] that sub q by (metis clean_parts_abs_path subsetD)
  then show ?thesis
    by (auto simp: child_rows_def filter_map comp_def stored_directory_def intro!: arg_cong [where f = "map _"] filter_cong)
qed

text \<open>The node made of a stored directory: its own row, its place and what lies beneath it.\<close>

definition node_of :: "db \<Rightarrow> directory_row list \<Rightarrow> config list \<Rightarrow> directory_row \<Rightarrow> directory \<Rightarrow> bool" where
  "node_of s rows cs r x \<longleftrightarrow> d_id x = show_int (dr_id r) \<and> d_name x = dr_name r \<and> d_path x = dr_path r \<and>
     d_acls x = aclsForOwner Directory_acl s (dr_id r) \<and> populated rows cs (row_parts r) x"

definition ancestors_in :: "directory_row list \<Rightarrow> bool" where
  "ancestors_in rows \<longleftrightarrow> (\<forall>r \<in> set rows. \<forall>p. prefix p (row_parts r) \<longrightarrow> p \<noteq> [] \<longrightarrow> p \<in> row_parts ` set rows)"

lemma ancestors_in_child:
  assumes "ancestors_in rows" and "p \<in> row_parts ` set rows" and "strict_prefix q p"
  obtains r where "r \<in> set (child_rows q rows)" "prefix (row_parts r) p"
proof -
  obtain n where n: "prefix (q @ [n]) p" using assms(3) by (rule strict_prefixE_step)
  then obtain r where "r \<in> set rows" "row_parts r = q @ [n]"
    using assms(1,2) by (fastforce simp: ancestors_in_def)
  moreover from this(2) have "butlast (row_parts r) = q" by (metis butlast_snoc)
  ultimately have "r \<in> set (child_rows q rows)" unfolding child_rows_def by (simp del: butlast_row_parts)
  with n \<open>row_parts r = q @ [n]\<close> show thesis by (intro that [of r]) simp_all
qed

text \<open>One level: populated children make a populated parent.\<close>

lemma populated_step:
  assumes anc: "ancestors_in rows" and inj: "inj_on row_parts (set rows)" and full: "Directory_FullPath (Directory i n p [] [] acls) = abs_path q"
    and kids: "\<And>r. r \<in> set (child_rows q rows) \<Longrightarrow> node_of s rows cs r (g r)"
  shows "populated rows cs q (Directory i n p (map g (child_rows q rows))
    (filter (\<lambda>c. rootNormalised (c_path c) = abs_path q) cs) acls)"
proof -
  have pre: "strict_prefix q (row_parts r)" if "r \<in> set (child_rows q rows)" for r
    using that by (auto simp: child_rows_iff intro: strict_prefix_stepI [of q "dr_name r"])
  have kid: "populated rows cs (row_parts r) (g r)" "d_id (g r) = show_int (dr_id r)"
    if "r \<in> set (child_rows q rows)" for r using kids [OF that] by (simp_all add: node_of_def)
  have sub: "r \<in> set rows" if "r \<in> set (child_rows q rows)" for r using that by (simp add: child_rows_iff)
  have configs: "(\<exists>r \<in> set (child_rows q rows). c \<in> set (tree_configs (g r))) \<longleftrightarrow>
      c \<in> set cs \<and> (\<exists>p. rootNormalised (c_path c) = abs_path p \<and> strict_prefix q p \<and> p \<in> row_parts ` set rows)" for c
  proof
    assume "\<exists>r \<in> set (child_rows q rows). c \<in> set (tree_configs (g r))"
    then obtain r where r: "r \<in> set (child_rows q rows)" "c \<in> set (tree_configs (g r))" by blast
    then obtain p where "c \<in> set cs" "rootNormalised (c_path c) = abs_path p" "prefix (row_parts r) p"
      "p = row_parts r \<or> p \<in> row_parts ` set rows"
      using kid(1) [OF r(1)] by (auto simp: populated_def)
    then show "c \<in> set cs \<and> (\<exists>p. rootNormalised (c_path c) = abs_path p \<and> strict_prefix q p \<and> p \<in> row_parts ` set rows)"
      using pre [OF r(1)] sub [OF r(1)] by (blast intro: prefix_order.less_le_trans)
  next
    assume "c \<in> set cs \<and> (\<exists>p. rootNormalised (c_path c) = abs_path p \<and> strict_prefix q p \<and> p \<in> row_parts ` set rows)"
    then obtain p where p: "c \<in> set cs" "rootNormalised (c_path c) = abs_path p" "strict_prefix q p"
      "p \<in> row_parts ` set rows" by blast
    obtain r where r: "r \<in> set (child_rows q rows)" "prefix (row_parts r) p"
      using ancestors_in_child [OF anc p(4,3)] .
    then have "c \<in> set (tree_configs (g r))" using kid(1) [OF r(1)] p by (auto simp: populated_def)
    with r(1) show "\<exists>r \<in> set (child_rows q rows). c \<in> set (tree_configs (g r))" by blast
  qed
  have ids: "(\<exists>r \<in> set (child_rows q rows). j \<in> d_id ` set (tree_nodes (g r))) \<longleftrightarrow>
      j \<in> (\<lambda>r. show_int (dr_id r)) ` {r \<in> set rows. strict_prefix q (row_parts r)}" for j
  proof
    assume "\<exists>r \<in> set (child_rows q rows). j \<in> d_id ` set (tree_nodes (g r))"
    then obtain r where r: "r \<in> set (child_rows q rows)" "j \<in> d_id ` set (tree_nodes (g r))" by blast
    then show "j \<in> (\<lambda>r. show_int (dr_id r)) ` {r \<in> set rows. strict_prefix q (row_parts r)}"
      using kid [OF r(1)] pre [OF r(1)] sub [OF r(1)] unfolding populated_def
      by (auto intro: prefix_order.less_trans)
  next
    assume "j \<in> (\<lambda>r. show_int (dr_id r)) ` {r \<in> set rows. strict_prefix q (row_parts r)}"
    then obtain x where x: "x \<in> set rows" "strict_prefix q (row_parts x)" "j = show_int (dr_id x)" by blast
    obtain r where r: "r \<in> set (child_rows q rows)" "prefix (row_parts r) (row_parts x)"
      using ancestors_in_child [OF anc _ x(2)] x(1) by blast
    have "j \<in> d_id ` set (tree_nodes (g r))"
    proof (cases "row_parts r = row_parts x")
      case True
      then have "r = x" using inj sub [OF r(1)] x(1) by (auto dest: inj_onD)
      then show ?thesis using kid [OF r(1)] x(3) unfolding populated_def by auto
    next
      case False
      then show ?thesis using kid [OF r(1)] x r(2) unfolding populated_def by (auto simp: strict_prefix_def)
    qed
    with r(1) show "\<exists>r \<in> set (child_rows q rows). j \<in> d_id ` set (tree_nodes (g r))" by blast
  qed
  let ?placed = "filter (\<lambda>c. rootNormalised (c_path c) = abs_path q) cs"
  let ?t = "Directory i n p (map g (child_rows q rows)) ?placed acls"
  have "c \<in> set (tree_configs ?t) \<longleftrightarrow> c \<in> set ?placed \<or> (\<exists>r \<in> set (child_rows q rows). c \<in> set (tree_configs (g r)))" for c
    by auto
  then have "set (tree_configs ?t) = {c \<in> set cs. \<exists>p. rootNormalised (c_path c) = abs_path p \<and> prefix q p \<and>
      (p = q \<or> p \<in> row_parts ` set rows)}"
    unfolding configs set_eq_iff set_filter mem_Collect_eq strict_prefix_def by blast
  moreover have "j \<in> d_id ` set (tree_nodes ?t) \<longleftrightarrow> j = i \<or> (\<exists>r \<in> set (child_rows q rows). j \<in> d_id ` set (tree_nodes (g r)))" for j
    by auto
  then have "d_id ` set (tree_nodes ?t) = insert i ((\<lambda>r. show_int (dr_id r)) ` {r \<in> set rows. strict_prefix q (row_parts r)})"
    unfolding ids set_eq_iff insert_iff by blast
  moreover have "map (\<lambda>d. (d_id d, d_name d, d_path d)) (d_directories ?t) =
      map (\<lambda>r. (show_int (dr_id r), dr_name r, dr_path r)) (child_rows q rows)"
    using kids by (simp add: node_of_def)
  ultimately show ?thesis
    using full unfolding populated_def by (simp add: Directory_FullPath_def)
qed

lemma d_id_in_nodes: "d_id t \<in> d_id ` set (tree_nodes t)"
  by (cases t) simp

text \<open>With enough fuel the recursion returns, and every node is populated.\<close>

lemma populateDirectory_spec:
  assumes ok: "directories_ok (directory_table s)" and sub: "set rows \<subseteq> set (directory_table s)"
    and anc: "ancestors_in rows"
  shows "good_path q \<Longrightarrow> Directory_FullPath (Directory i n p [] [] acls) = abs_path q \<Longrightarrow> 0 < fuel \<Longrightarrow>
    (\<forall>r \<in> set rows. prefix q (row_parts r) \<longrightarrow> length (row_parts r) < length q + fuel) \<Longrightarrow>
    \<exists>ds cs'. populateDirectory fuel (Directory i n p [] [] acls) (map (stored_directory s) rows) cs =
        Some (Directory i n p ds cs' acls) \<and> populated rows cs q (Directory i n p ds cs' acls) \<and>
      (\<forall>x \<in> set (tree_nodes (Directory i n p ds cs' acls)).
         x = Directory i n p ds cs' acls \<or> (\<exists>r \<in> set rows. strict_prefix q (row_parts r) \<and> node_of s rows cs r x))"
proof (induction fuel arbitrary: q i n p acls)
  case 0
  then show ?case by simp
next
  case (Suc fuel)
  let ?others = "map (stored_directory s) rows" and ?kids = "child_rows q rows"
  have inj: "inj_on row_parts (set rows)"
    using row_parts_unique [OF ok] sub by (auto simp: inj_on_def subset_iff)
  have "\<exists>t. populateDirectory fuel (stored_directory s r) ?others cs = Some t \<and> node_of s rows cs r t \<and>
      (\<forall>x \<in> set (tree_nodes t). x = t \<or> (\<exists>r' \<in> set rows. strict_prefix (row_parts r) (row_parts r') \<and> node_of s rows cs r' x))"
    if r: "r \<in> set ?kids" for r
  proof -
    have parts: "row_parts r = q @ [dr_name r]" and rin: "r \<in> set rows" using r by (simp_all add: child_rows_iff)
    have rt: "r \<in> set (directory_table s)" using rin sub by blast
    have bound: "length (row_parts x) < length (row_parts r) + fuel"
      if "x \<in> set rows" "prefix (row_parts r) (row_parts x)" for x
    proof -
      have "prefix q (row_parts x)" using that(2) parts by (metis append_prefixD)
      with Suc.prems(4) that(1) show ?thesis by (simp add: parts)
    qed
    have "0 < fuel" using bound [OF rin] by simp
    moreover have eq: "stored_directory s r = Directory (show_int (dr_id r)) (dr_name r) (dr_path r) [] []
        (aclsForOwner Directory_acl s (dr_id r))"
      by (simp add: stored_directory_def directory_of_row_def)
    moreover have "Directory_FullPath (stored_directory s r) = abs_path (row_parts r)"
      by (rule stored_directory_full_path [OF ok rt])
    ultimately show ?thesis
      using Suc.IH [of "row_parts r" "show_int (dr_id r)" "dr_name r" "dr_path r" "aclsForOwner Directory_acl s (dr_id r)"]
        good_row_parts [OF ok rt] bound by (fastforce simp: node_of_def)
  qed
  then obtain g where g: "\<And>r. r \<in> set ?kids \<Longrightarrow> populateDirectory fuel (stored_directory s r) ?others cs = Some (g r)"
    "\<And>r. r \<in> set ?kids \<Longrightarrow> node_of s rows cs r (g r)"
    "\<And>r x. r \<in> set ?kids \<Longrightarrow> x \<in> set (tree_nodes (g r)) \<Longrightarrow>
       x = g r \<or> (\<exists>r' \<in> set rows. strict_prefix (row_parts r) (row_parts r') \<and> node_of s rows cs r' x)"
    by metis
  let ?t = "Directory i n p (map g ?kids) (filter (\<lambda>c. rootNormalised (c_path c) = abs_path q) cs) acls"
  have "those (map (\<lambda>d. populateDirectory fuel d ?others cs) (map (stored_directory s) ?kids)) = Some (map g ?kids)"
    using g(1) by (simp add: comp_def those_map_Some)
  then have run: "populateDirectory (Suc fuel) (Directory i n p [] [] acls) ?others cs = Some ?t"
    using Suc.prems(2) children_eq [OF ok sub Suc.prems(1)] by (simp add: Let_def)
  have "populated rows cs q ?t" using populated_step [OF anc inj Suc.prems(2) g(2)] by simp
  moreover have "x = ?t \<or> (\<exists>r \<in> set rows. strict_prefix q (row_parts r) \<and> node_of s rows cs r x)"
    if x: "x \<in> set (tree_nodes ?t)" for x
  proof (cases "x = ?t")
    case False
    with x obtain r where r: "r \<in> set ?kids" "x \<in> set (tree_nodes (g r))" by auto
    have pre: "strict_prefix q (row_parts r)" "r \<in> set rows"
      using r(1) by (auto simp: child_rows_iff intro: strict_prefix_stepI [of q "dr_name r"])
    from g(3) [OF r] show ?thesis
      using pre g(2) [OF r(1)] by (blast intro: prefix_order.less_trans)
  qed simp
  ultimately show ?case using run by blast
qed

section \<open>TreeForACLTags\<close>

lemma depth_bound:
  assumes ok: "directories_ok (directory_table s)" and r: "r \<in> set (directory_table s)"
  shows "length (row_parts r) \<le> length (directory_table s)"
proof -
  let ?f = "\<lambda>n. take (Suc n) (row_parts r)"
  have "inj_on ?f {..<length (row_parts r)}" by (auto simp: inj_on_def dest!: arg_cong [where f = length])
  moreover have "?f ` {..<length (row_parts r)} \<subseteq> row_parts ` set (directory_table s)"
  proof (rule image_subsetI)
    fix n
    have "prefix (?f n) (row_parts r)" "?f n \<noteq> []" by (simp_all add: take_is_prefix)
    then obtain x where "x \<in> set (directory_table s)" "row_parts x = ?f n" using ancestors_exist [OF ok r] by blast
    then show "?f n \<in> row_parts ` set (directory_table s)" by (metis imageI)
  qed
  ultimately have "card {..<length (row_parts r)} \<le> card (row_parts ` set (directory_table s))"
    using card_inj_on_le by blast
  also have "\<dots> \<le> length (directory_table s)" by (metis card_image_le card_length finite_set order_trans)
  finally show ?thesis by simp
qed

definition granted_directories :: "db \<Rightarrow> string list \<Rightarrow> directory_row list" where
  "granted_directories s tags = filter (\<lambda>r. path_granted s tags (row_parts r)) (sort_key dr_path (directory_table s))"

lemma set_granted_directories:
  "set (granted_directories s tags) = {r \<in> set (directory_table s). path_granted s tags (row_parts r)}"
  by (auto simp: granted_directories_def)

lemma granted_ancestors_in:
  assumes ok: "directories_ok (directory_table s)"
  shows "ancestors_in (granted_directories s tags)"
  unfolding ancestors_in_def set_granted_directories
  using ancestors_exist [OF ok] path_granted_prefix [of s tags] by blast

lemma visible_placed:
  assumes inv: "store_inv s" and c: "c \<in> set (visible_configs s tags pre)"
  shows "\<exists>p. rootNormalised (c_path c) = abs_path p \<and> good_path p \<and> p = clean_parts (c_path c) \<and>
    (p = [] \<or> p \<in> row_parts ` set (granted_directories s tags))"
proof -
  note ok = store_inv_dirs [OF inv]
  from c obtain r where r: "r \<in> set (config_table s)" "config_visible s tags r" "c_path c = cr_path r"
    by (auto simp: visible_configs_def stored_config_def)
  have "config_path_ok (directory_table s) (cr_path r)" using store_inv_configs [OF inv] r(1) by (simp add: configs_ok_def)
  then have root: "rootNormalised (c_path c) = abs_path (clean_parts (c_path c))"
    using config_path_clean [OF ok] r(3) by simp
  have granted: "path_granted s tags (clean_parts (c_path c))" using r(2,3) by (simp add: config_visible_def)
  have "clean_parts (c_path c) \<in> row_parts ` set (granted_directories s tags)" if "clean_parts (c_path c) \<noteq> []"
    using path_granted_exists [OF granted that] granted by (auto simp: dir_tree_None set_granted_directories)
  with root show ?thesis by auto
qed

lemma included_directories:
  assumes inv: "store_inv s"
  shows "filter (\<lambda>d. readableDirectories (allDirectoriesWithACLs s) tags (Directory_FullPath d)) (allDirectoriesWithACLs s) =
      map (stored_directory s) (granted_directories s tags)"
    and "length (allDirectoriesWithACLs s) = length (directory_table s)"
proof -
  note ok = store_inv_dirs [OF inv]
  have path: "Directory_FullPath (stored_directory s r) = abs_path (row_parts r)"
    if "r \<in> set (directory_table s)" for r using stored_directory_full_path [OF ok that] .
  have read: "readableDirectories (allDirectoriesWithACLs s) tags (abs_path (row_parts r)) \<longleftrightarrow> path_granted s tags (row_parts r)"
    if "r \<in> set (directory_table s)" for r
    using that good_row_parts [OF ok that] readable_config_path [OF inv, of "abs_path (row_parts r)" tags]
    by (auto simp: config_path_ok_def)
  show "filter (\<lambda>d. readableDirectories (allDirectoriesWithACLs s) tags (Directory_FullPath d))
      (allDirectoriesWithACLs s) = map (stored_directory s) (granted_directories s tags)"
    using store_inv_dir_acls [OF inv] path read
    by (auto simp: allDirectories_eq granted_directories_def filter_map comp_def
        intro!: arg_cong [where f = "map _"] filter_cong)
  show "length (allDirectoriesWithACLs s) = length (directory_table s)"
    using store_inv_dir_acls [OF inv] by (simp add: allDirectories_eq)
qed

text \<open>The recursion from the root, with the fuel \<open>TreeForACLTags\<close> gives it.\<close>

lemma populate_root:
  assumes inv: "store_inv s"
  obtains ds cs' where "populateDirectory (Suc (length (allDirectoriesWithACLs s))) tree_root (map (stored_directory s) (granted_directories s tags)) cs =
        Some (Directory ''0'' ''/'' [] ds cs' [])"
    "populated (granted_directories s tags) cs [] (Directory ''0'' ''/'' [] ds cs' [])"
    "\<forall>x \<in> set (tree_nodes (Directory ''0'' ''/'' [] ds cs' [])). x = Directory ''0'' ''/'' [] ds cs' [] \<or>
       (\<exists>r \<in> set (granted_directories s tags). strict_prefix [] (row_parts r) \<and> node_of s (granted_directories s tags) cs r x)"
proof -
  note ok = store_inv_dirs [OF inv]
  let ?rows = "granted_directories s tags"
  have bound: "\<forall>r \<in> set ?rows. prefix [] (row_parts r) \<longrightarrow>
      length (row_parts r) < length [] + Suc (length (directory_table s))"
    using depth_bound [OF ok] by (auto simp: set_granted_directories le_imp_less_Suc)
  have sub: "set ?rows \<subseteq> set (directory_table s)" by (auto simp: set_granted_directories)
  have root: "Directory_FullPath (Directory ''0'' ''/'' [] [] [] []) = abs_path []"
    by (simp add: Directory_FullPath_def)
  show thesis
    using populateDirectory_spec [OF ok sub granted_ancestors_in [OF ok] good_path_simps(1) root zero_less_Suc bound, of cs] that
    unfolding tree_root_def included_directories(2) [OF inv] by blast
qed

lemma TreeForACLTags_spec:
  assumes inv: "store_inv s"
  obtains t where "TreeForACLTags s tags pre = Inr t" "d_id t = ''0''"
    "populated (granted_directories s tags) (visible_configs s tags pre) [] t"
    "\<forall>x \<in> set (tree_nodes t). x = t \<or> (\<exists>r \<in> set (granted_directories s tags).
       node_of s (granted_directories s tags) (visible_configs s tags pre) r x)"
proof (rule populate_root [OF inv, of tags "visible_configs s tags pre"])
  let ?rows = "granted_directories s tags" and ?cs = "visible_configs s tags pre"
  fix ds cs'
  assume pop: "populateDirectory (Suc (length (allDirectoriesWithACLs s))) tree_root (map (stored_directory s) ?rows) ?cs =
        Some (Directory ''0'' ''/'' [] ds cs' [])"
    "populated ?rows ?cs [] (Directory ''0'' ''/'' [] ds cs' [])"
    "\<forall>x \<in> set (tree_nodes (Directory ''0'' ''/'' [] ds cs' [])). x = Directory ''0'' ''/'' [] ds cs' [] \<or>
       (\<exists>r \<in> set ?rows. strict_prefix [] (row_parts r) \<and> node_of s ?rows ?cs r x)"
  have "TreeForACLTags s tags pre = Inr (Directory ''0'' ''/'' [] ds cs' [])"
    using tree_loop_visible [OF inv, of tags pre] pop(1)
    by (simp only: TreeForACLTags_def Let_def sum.case included_directories(1) [OF inv] option.case)
  with pop(2,3) show thesis by (intro that [of "Directory ''0'' ''/'' [] ds cs' []"]) auto
qed

lemma visible_tree_configs:
  assumes inv: "store_inv s"
    and t: "populated (granted_directories s tags) (visible_configs s tags pre) [] t"
  shows "set (tree_configs t) = stored_config s `
      {r \<in> set (config_table s). in_prefix pre (cr_path r) \<and> config_visible s tags r}"
proof -
  have "\<exists>p. rootNormalised (c_path c) = abs_path p \<and> prefix [] p \<and>
      (p = [] \<or> p \<in> row_parts ` set (granted_directories s tags))" if "c \<in> set (visible_configs s tags pre)" for c
    using visible_placed [OF inv that] by auto
  then have "set (tree_configs t) = set (visible_configs s tags pre)"
    using t unfolding populated_def by (simp only:) blast
  then show ?thesis by (simp add: visible_configs_def)
qed



section \<open>The recursion returns\<close>

lemma those_mono:
  "those (map f xs) = Some ys \<Longrightarrow> (\<And>x y. x \<in> set xs \<Longrightarrow> f x = Some y \<Longrightarrow> g x = Some y) \<Longrightarrow> those (map g xs) = Some ys"
proof (induction xs arbitrary: ys)
  case (Cons x xs)
  from Cons.prems(1) obtain z zs where z: "f x = Some z" "those (map f xs) = Some zs" "ys = z # zs"
    by (auto split: option.splits)
  have "those (map g xs) = Some zs" by (rule Cons.IH [OF z(2)]) (use Cons.prems(2) in auto)
  with z Cons.prems(2) [of x z] show ?case by simp
qed simp

text \<open>More fuel never changes a result.\<close>

lemma populateDirectory_mono:
  "populateDirectory fuel d ds cs = Some t \<Longrightarrow> fuel \<le> k \<Longrightarrow> populateDirectory k d ds cs = Some t"
proof (induction fuel d ds cs arbitrary: t k rule: populateDirectory.induct)
  case (2 fuel d ds cs)
  obtain j where k: "k = Suc j" "fuel \<le> j" using 2(3) by (cases k) auto
  let ?kids = "filter (\<lambda>otherDir. d_path otherDir = Directory_FullPath d) ds"
  obtain copies where c: "those (map (\<lambda>d. populateDirectory fuel d ds cs) ?kids) = Some copies"
    using 2(2) by (auto simp: Let_def)
  have step: "populateDirectory j x ds cs = Some y" if "x \<in> set ?kids" "populateDirectory fuel x ds cs = Some y" for x y
    by (rule 2(1) [OF refl refl that k(2)])
  have "those (map (\<lambda>d. populateDirectory j d ds cs) ?kids) = Some copies"
    by (rule those_mono [OF c]) (rule step)
  with c 2(2) show ?case by (simp add: k(1) Let_def)
qed simp

text \<open>
  C34: The recursion of \<open>populateDirectory\<close> ends: on the readable directories of any caller, and for
  any configs, there is one tree that it returns for every recursion depth beyond the number of
  directories, so the bound the model puts on it is never met.
\<close>

theorem tree_recursion_returns:
  assumes inv: "store_inv s"
  shows "\<exists>t. \<forall>extra. populateDirectory (Suc (length (allDirectoriesWithACLs s)) + extra) tree_root
    (filter (\<lambda>d. readableDirectories (allDirectoriesWithACLs s) tags (Directory_FullPath d)) (allDirectoriesWithACLs s)) cs = Some t"
proof (rule populate_root [OF inv, of tags cs])
  fix ds cs'
  assume "populateDirectory (Suc (length (allDirectoriesWithACLs s))) tree_root (map (stored_directory s) (granted_directories s tags)) cs =
        Some (Directory ''0'' ''/'' [] ds cs' [])"
  from populateDirectory_mono [OF this le_add1] show ?thesis
    unfolding included_directories(1) [OF inv] by blast
qed

theorem tree_recursion_returns_witness:
  "\<exists>t. populateDirectory 9 tree_root
    (filter (\<lambda>d. readableDirectories (allDirectoriesWithACLs sample_db) [''tag:dev''] (Directory_FullPath d)) (allDirectoriesWithACLs sample_db)) [] = Some t"
proof -
  have len: "Suc (length (allDirectoriesWithACLs sample_db)) + (8 - length (allDirectoriesWithACLs sample_db)) = 9" by code_simp
  from tree_recursion_returns [OF sample_inv, of "[''tag:dev'']" "[]"] show ?thesis
    by (elim exE) (drule spec [of _ "8 - length (allDirectoriesWithACLs sample_db)"], unfold len, rule exI)
qed

end
