(* ===== verification/Api.thy ===== *)
theory Api
  imports DirTreeProofs
begin

text \<open>
  The gRPC service of \<open>internal/api/server.go\<close>: the identity interceptors, the access gates and the
  eight handlers.  A handler is a function of the server's allow-list, the caller's tags (what
  \<open>aclTags\<close> reads from the context), the request and the database; it returns a status or a
  response, and the database it leaves.  The texts of the status messages are not modelled; a
  status carries its code and the store error it wraps.

  Code outside the repository enters as parameters: the gRPC metadata functions \<open>from_incoming\<close>,
  \<open>new_incoming\<close> and \<open>value_from_incoming\<close>, the Tailscale lookup \<open>whois\<close>, and \<open>q\<close>, the quoting of
  the \<open>%q\<close> verb.
\<close>

section \<open>Requests and results\<close>

datatype code = InvalidArgument | NotFound | PermissionDenied | Internal | FailedPrecondition
  | AlreadyExists | Unauthenticated | DataLoss

text \<open>\<open>Panicked\<close>: the handler goroutine panics in the store.\<close>

datatype api_error = Status code "store_error option" | Panicked

definition store_failure :: "code \<Rightarrow> store_error \<Rightarrow> api_error" where
  "store_failure c e = (if e = GoPanic then Panicked else Status c (Some e))"

section \<open>Identities\<close>

type_synonym md = "string \<Rightarrow> string list option"

record whois_response =
  node_tags :: "string list option"
  login_name :: "string option"

definition identitiesFromWhoIs :: "whois_response option \<Rightarrow> string list" where
  "identitiesFromWhoIs resp =
     (case resp of
        None \<Rightarrow> []
      | Some r \<Rightarrow>
          (case node_tags r of
             Some (t # ts) \<Rightarrow> t # ts
           | _ \<Rightarrow> (case login_name r of
                     None \<Rightarrow> []
                   | Some l \<Rightarrow> if l \<noteq> [] then [''user:'' @ l] else [])))"

definition aclTags :: "('ctx \<Rightarrow> string \<Rightarrow> string list) \<Rightarrow> 'ctx \<Rightarrow> string list" where
  "aclTags value_from_incoming ctx = value_from_incoming ctx ''acl_tags''"

definition TailscaleAuthenticationInterceptor ::
    "(string \<Rightarrow> whois_response option option) \<Rightarrow> ('ctx \<Rightarrow> string option) \<Rightarrow>
     ('ctx \<Rightarrow> md option) \<Rightarrow> ('ctx \<Rightarrow> md \<Rightarrow> 'ctx) \<Rightarrow> ('ctx \<Rightarrow> api_error + 'r) \<Rightarrow> 'ctx \<Rightarrow> api_error + 'r" where
  "TailscaleAuthenticationInterceptor whois peer from_incoming new_incoming handler ctx =
     (case peer ctx of
        None \<Rightarrow> Inl (Status Unauthenticated None)
      | Some addr \<Rightarrow>
          (case whois addr of
             None \<Rightarrow> Inl (Status Unauthenticated None)
           | Some resp \<Rightarrow>
               (case from_incoming ctx of
                  None \<Rightarrow> Inl (Status DataLoss None)
                | Some md \<Rightarrow>
                    handler (new_incoming ctx (md(''acl_tags'' \<mapsto> identitiesFromWhoIs resp))))))"

definition StripACLTagsInterceptor ::
    "('ctx \<Rightarrow> md option) \<Rightarrow> ('ctx \<Rightarrow> md \<Rightarrow> 'ctx) \<Rightarrow> ('ctx \<Rightarrow> api_error + 'r) \<Rightarrow> 'ctx \<Rightarrow> api_error + 'r" where
  "StripACLTagsInterceptor from_incoming new_incoming handler ctx =
     (case from_incoming ctx of
        None \<Rightarrow> handler ctx
      | Some md \<Rightarrow> handler (new_incoming ctx (md(''acl_tags'' := None))))"

section \<open>The gates\<close>

text \<open>The server state: the allow-list as the list of its distinct keys.\<close>

definition NewServer :: "string list \<Rightarrow> string list" where
  "NewServer createAllowedTags =
     foldl (\<lambda>allowed t. let t = trim_space t in if t \<noteq> [] then List.insert t allowed else allowed)
       [] createAllowedTags"

fun any_allowed :: "string list \<Rightarrow> string list \<Rightarrow> bool" where
  "any_allowed allowed [] = False"
| "any_allowed allowed (i # ids) = (if i \<in> set allowed then True else any_allowed allowed ids)"

definition canCreate :: "string list \<Rightarrow> string list \<Rightarrow> bool" where
  "canCreate allowed identities = (if length allowed = 0 then True else any_allowed allowed identities)"

definition pathReadable :: "db \<Rightarrow> string \<Rightarrow> string list \<Rightarrow> bool" where
  "pathReadable s path tags =
     (if path = [] \<or> path = ''/'' then True
      else (case DirectoryChain s path of (chain, missing) \<Rightarrow>
              if 0 < length missing then False
              else list_all (\<lambda>d. Directory_Allows (Some d) tags Acl_READ) chain))"

text \<open>The directory (nil for the root) and whether it exists.\<close>

definition containingDirectory :: "db \<Rightarrow> string \<Rightarrow> directory option \<times> bool" where
  "containingDirectory s path =
     (if path = [] \<or> path = ''/'' then (None, True)
      else (case DirectoryChain s path of (chain, missing) \<Rightarrow>
              if path \<in> set missing then (None, False)
              else (case find (\<lambda>d. Directory_FullPath d = path) chain of
                      Some d \<Rightarrow> (Some d, True)
                    | None \<Rightarrow> (None, False))))"

definition directoryWritable :: "db \<Rightarrow> directory \<Rightarrow> string list \<Rightarrow> bool" where
  "directoryWritable s dir tags =
     (if \<not> pathReadable s (d_path dir) tags then False
      else Directory_Allows (Some dir) tags Acl_WRITE)"

definition deepestExistingAncestor :: "directory list \<Rightarrow> directory option" where
  "deepestExistingAncestor chain =
     foldl (\<lambda>deepest d. case deepest of
              None \<Rightarrow> Some d
            | Some x \<Rightarrow> if length (Directory_FullPath x) < length (Directory_FullPath d) then Some d else deepest)
       None chain"

text \<open>The recursion of \<open>findDirectory\<close> through the children of a tree.\<close>

fun findDirectory :: "string \<Rightarrow> directory \<Rightarrow> directory option"
  and find_in_children :: "string \<Rightarrow> directory list \<Rightarrow> directory option" where
  "findDirectory i (Directory _ _ _ ds _ _) = find_in_children i ds"
| "find_in_children i [] = None"
| "find_in_children i (d # ds) =
     (if d_id d = i then Some d
      else case findDirectory i d of
             Some child \<Rightarrow> Some child
           | None \<Rightarrow> find_in_children i ds)"

section \<open>The handlers\<close>

definition List_tree :: "db \<Rightarrow> string list \<Rightarrow> string \<Rightarrow> api_error + directory option" where
  "List_tree s tags directoryId =
     (case (if directoryId \<noteq> []
            then (case GetDirectoryByID s directoryId of
                    Inl e \<Rightarrow> Inl (store_failure Internal e)
                  | Inr None \<Rightarrow> Inl (Status NotFound None)
                  | Inr (Some d) \<Rightarrow> Inr (Some d))
            else Inr None) of
        Inl e \<Rightarrow> Inl e
      | Inr directory \<Rightarrow>
          (case TreeForACLTags s tags (case directory of None \<Rightarrow> [] | Some d \<Rightarrow> Directory_FullPath d) of
             Inl e \<Rightarrow> Inl (store_failure Internal e)
           | Inr dir \<Rightarrow>
               Inr (case directory of
                      None \<Rightarrow> Some dir
                    | Some d \<Rightarrow> findDirectory (d_id d) dir)))"

definition GetConfig :: "db \<Rightarrow> string list \<Rightarrow> string \<Rightarrow> string option \<Rightarrow> api_error + config" where
  "GetConfig s tags i version =
     (if i = [] then Inl (Status InvalidArgument None)
      else case GetConfigByID s i True (case version of None \<Rightarrow> [] | Some v \<Rightarrow> v) of
             Inl e \<Rightarrow> Inl (store_failure Internal e)
           | Inr None \<Rightarrow> Inl (Status NotFound None)
           | Inr (Some conf) \<Rightarrow>
               if \<not> Config_Allows conf tags Acl_READ then Inl (Status PermissionDenied None)
               else if \<not> pathReadable s (c_path conf) tags then Inl (Status PermissionDenied None)
               else Inr conf)"

text \<open>The checks of \<open>SetConfig\<close> before the store is written.\<close>

definition set_config_checks :: "string list \<Rightarrow> db \<Rightarrow> string list \<Rightarrow> config \<Rightarrow> api_error + unit" where
  "set_config_checks allowed s tags conf =
     (case (if c_id conf \<noteq> []
            then (case GetConfigByID s (c_id conf) False [] of
                    Inl e \<Rightarrow> Inl (store_failure Internal e)
                  | Inr None \<Rightarrow> Inl (Status NotFound None)
                  | Inr (Some existing) \<Rightarrow>
                      if \<not> Config_Allows existing tags Acl_WRITE then Inl (Status PermissionDenied None)
                      else Inr ())
            else if \<not> canCreate allowed tags then Inl (Status PermissionDenied None)
            else Inr ()) of
        Inl e \<Rightarrow> Inl e
      | Inr _ \<Rightarrow>
          (case containingDirectory s (c_path conf) of (containing, exists) \<Rightarrow>
             if \<not> exists then Inl (Status FailedPrecondition None)
             else if \<not> Directory_Allows containing tags Acl_WRITE then Inl (Status PermissionDenied None)
             else Inr ()))"

definition SetConfig ::
    "string list \<Rightarrow> string list \<Rightarrow> config option \<Rightarrow> int \<Rightarrow> db \<Rightarrow> (api_error + config option) \<times> db" where
  "SetConfig allowed tags reqConfig now s =
     (case reqConfig of
        None \<Rightarrow> (Inl (Status InvalidArgument None), s)
      | Some conf \<Rightarrow>
          (case set_config_checks allowed s tags conf of
             Inl e \<Rightarrow> (Inl e, s)
           | Inr _ \<Rightarrow>
               (case Upsert conf now s of
                  (Inl e, s') \<Rightarrow> (Inl (store_failure Internal e), s')
                | (Inr storedConfig, s') \<Rightarrow> (Inr storedConfig, s'))))"

definition DeleteConfig :: "string list \<Rightarrow> string \<Rightarrow> db \<Rightarrow> (api_error + unit) \<times> db" where
  "DeleteConfig tags i s =
     (if i = [] then (Inl (Status InvalidArgument None), s)
      else case GetConfigByID s i False [] of
             Inl e \<Rightarrow> (Inl (store_failure Internal e), s)
           | Inr None \<Rightarrow> (Inl (Status NotFound None), s)
           | Inr (Some existing) \<Rightarrow>
               if \<not> Config_Allows existing tags Acl_WRITE then (Inl (Status PermissionDenied None), s)
               else (case Delete i s of
                       (Inl e, s') \<Rightarrow> (Inl (store_failure Internal e), s')
                     | (Inr _, s') \<Rightarrow> (Inr (), s')))"

definition CreateDirectory_handler ::
    "(string \<Rightarrow> string) \<Rightarrow> string list \<Rightarrow> string list \<Rightarrow> directory option \<Rightarrow> db \<Rightarrow>
     (api_error + directory option) \<times> db" where
  "CreateDirectory_handler q allowed tags reqDir s =
     (case reqDir of
        None \<Rightarrow> (Inl (Status InvalidArgument None), s)
      | Some dir \<Rightarrow>
          if trim_space (d_name dir) = [] then (Inl (Status InvalidArgument None), s)
          else if \<not> canCreate allowed tags then (Inl (Status PermissionDenied None), s)
          else if d_path dir \<noteq> [] \<and> d_path dir \<noteq> ''/'' \<and>
              \<not> Directory_Allows (deepestExistingAncestor (fst (DirectoryChain s (d_path dir)))) tags Acl_WRITE
            then (Inl (Status PermissionDenied None), s)
          else (case CreateDirectory dir s of
                  (Inl e, s') \<Rightarrow>
                    (Inl (store_failure
                       (if contains_str (error_text q e) ''already exists'' then AlreadyExists else Internal) e), s')
                | (Inr created, s') \<Rightarrow> (Inr created, s')))"

definition GetDirectory :: "db \<Rightarrow> string list \<Rightarrow> string \<Rightarrow> api_error + directory" where
  "GetDirectory s tags i =
     (if i = [] then Inl (Status InvalidArgument None)
      else case GetDirectoryByID s i of
             Inl e \<Rightarrow> Inl (store_failure Internal e)
           | Inr None \<Rightarrow> Inl (Status NotFound None)
           | Inr (Some dir) \<Rightarrow>
               if \<not> pathReadable s (Directory_FullPath dir) tags then Inl (Status PermissionDenied None)
               else Inr dir)"

definition UpdateDirectory_handler ::
    "(string \<Rightarrow> string) \<Rightarrow> string list \<Rightarrow> directory option \<Rightarrow> db \<Rightarrow> (api_error + directory option) \<times> db" where
  "UpdateDirectory_handler q tags reqDir s =
     (case reqDir of
        None \<Rightarrow> (Inl (Status InvalidArgument None), s)
      | Some dir \<Rightarrow>
          if d_id dir = [] then (Inl (Status InvalidArgument None), s)
          else case GetDirectoryByID s (d_id dir) of
                 Inl e \<Rightarrow> (Inl (store_failure Internal e), s)
               | Inr None \<Rightarrow> (Inl (Status NotFound None), s)
               | Inr (Some existing) \<Rightarrow>
                   if \<not> directoryWritable s existing tags then (Inl (Status PermissionDenied None), s)
                   else (case UpdateDirectory dir s of
                           (Inl e, s') \<Rightarrow>
                             (Inl (store_failure
                                (if contains_str (error_text q e) ''does not match'' then InvalidArgument else Internal) e), s')
                         | (Inr updated, s') \<Rightarrow> (Inr updated, s')))"

definition DeleteDirectory_handler ::
    "(string \<Rightarrow> string) \<Rightarrow> string list \<Rightarrow> string \<Rightarrow> db \<Rightarrow> (api_error + unit) \<times> db" where
  "DeleteDirectory_handler q tags i s =
     (if i = [] then (Inl (Status InvalidArgument None), s)
      else case GetDirectoryByID s i of
             Inl e \<Rightarrow> (Inl (store_failure Internal e), s)
           | Inr None \<Rightarrow> (Inl (Status NotFound None), s)
           | Inr (Some existing) \<Rightarrow>
               if \<not> directoryWritable s existing tags then (Inl (Status PermissionDenied None), s)
               else (case DeleteDirectory i s of
                       (Inl e, s') \<Rightarrow>
                         (Inl (store_failure
                            (if contains_str (error_text q e) ''not empty'' then FailedPrecondition else Internal) e), s')
                     | (Inr _, s') \<Rightarrow> (Inr (), s')))"

end
