(* ===== verification/ApiGates.thy ===== *)
theory ApiGates
  imports Api
begin

text \<open>
  The access gates of \<open>internal/api/server.go\<close> against the specification: \<open>pathReadable\<close>,
  \<open>containingDirectory\<close>, \<open>directoryWritable\<close>, \<open>deepestExistingAncestor\<close> and \<open>canCreate\<close>
  decide what the abstract directory tree says.
\<close>

section \<open>Reading along a path\<close>

lemma pathReadable_iff:
  assumes inv: "store_inv s"
  shows "pathReadable s p tags \<longleftrightarrow> p = [] \<or> (\<exists>ps. p = abs_path ps \<and> path_granted s tags ps)"
proof (cases "p = [] \<or> p = ''/''")
  case True
  have "\<exists>ps. ''/'' = abs_path ps \<and> path_granted s tags ps" by (intro exI [of _ "[]"]) simp
  with True show ?thesis by (auto simp: pathReadable_def)
next
  case False
  note ok = store_inv_dirs [OF inv]
  have chain: "DirectoryChain s p = (map (stored_directory s) (selected_rows s [p]), if p \<in> full_paths s then [] else [p])"
    using DirectoryChain_eq [OF inv] False by simp
  show ?thesis
  proof (cases "p \<in> full_paths s")
    case True
    then obtain r where r: "r \<in> set (directory_table s)" "p = abs_path (row_parts r)" by (auto simp: full_paths_def)
    note good = good_row_parts [OF ok r(1)]
    have parts: "clean_parts p = row_parts r" using r(2) good by simp
    have "pathReadable s p tags \<longleftrightarrow> (\<forall>x \<in> set (directory_table s). prefix (row_parts x) (row_parts r) \<longrightarrow>
        dir_grants s tags Acl_READ (row_parts x))"
      using False True chain Directory_Allows_stored [OF ok]
      by (auto simp: pathReadable_def list_all_iff set_selected_rows parts)
    also have "\<dots> \<longleftrightarrow> path_granted s tags (row_parts r)"
      unfolding path_granted_iff using ancestors_exist [OF ok r(1)] by (metis row_parts_not_Nil)
    also have "\<dots> \<longleftrightarrow> p = [] \<or> (\<exists>ps. p = abs_path ps \<and> path_granted s tags ps)"
    proof
      assume "p = [] \<or> (\<exists>ps. p = abs_path ps \<and> path_granted s tags ps)"
      then obtain ps where ps: "p = abs_path ps" "path_granted s tags ps" using False by blast
      then have "ps \<noteq> []" using False by auto
      then have "good_path ps" using path_granted_exists [OF ps(2)] stored.tree_good [OF ok] by blast
      then show "path_granted s tags (row_parts r)" using ps r(2) good by simp
    qed (use r(2) in blast)
    finally show ?thesis .
  next
    case out: False
    have "p \<noteq> abs_path ps" if "path_granted s tags ps" for ps
    proof
      assume p: "p = abs_path ps"
      then have "ps \<noteq> []" using False by auto
      then have "dir_tree s ps \<noteq> None" using path_granted_exists [OF that] by simp
      then show False using out p stored.tree_good [OF ok] full_paths_abs [OF ok, of ps] by auto
    qed
    then show ?thesis using False out chain by (auto simp: pathReadable_def)
  qed
qed

text \<open>
  The two implementations of the hierarchical READ gate agree on every string: the API's
  \<open>pathReadable\<close>, which walks the chain of one path, allows exactly the paths that the store's
  \<open>readableDirectories\<close>, which sweeps all directories, marks readable.
\<close>

theorem path_gates_agree:
  assumes "store_inv s"
  shows "pathReadable s p tags = readableDirectories (allDirectoriesWithACLs s) tags p"
  using assms by (simp add: pathReadable_iff readable_all)

theorem path_gates_agree_witness:
  "pathReadable sample_db ''/team'' [''tag:other''] =
     readableDirectories (allDirectoriesWithACLs sample_db) [''tag:other''] ''/team''"
  by (rule path_gates_agree [OF sample_inv])

lemma pathReadable_root [simp]: "pathReadable s [] tags" "pathReadable s ''/'' tags"
  by (simp_all add: pathReadable_def)

lemma pathReadable_config_path:
  "store_inv s \<Longrightarrow> config_path_ok (directory_table s) p \<Longrightarrow>
     pathReadable s p tags \<longleftrightarrow> path_granted s tags (clean_parts p)"
  using readable_config_path [of s p tags] by (simp add: pathReadable_iff readable_all)

lemma pathReadable_row:
  "store_inv s \<Longrightarrow> r \<in> set (directory_table s) \<Longrightarrow>
     pathReadable s (abs_path (row_parts r)) tags \<longleftrightarrow> path_granted s tags (row_parts r)"
  using pathReadable_config_path [of s "abs_path (row_parts r)" tags] good_row_parts [OF store_inv_dirs]
  by (auto simp: config_path_ok_def)

section \<open>Writing into a directory\<close>

text \<open>The gate of the directory at a path string; the root is transparent.\<close>

definition path_gate :: "db \<Rightarrow> string list \<Rightarrow> Acl \<Rightarrow> string \<Rightarrow> bool" where
  "path_gate s tags r p = (clean_parts p = [] \<or> dir_grants s tags r (clean_parts p))"

lemma containingDirectory_spec:
  assumes inv: "store_inv s"
  shows "snd (containingDirectory s p) = config_path_ok (directory_table s) p"
    and "config_path_ok (directory_table s) p \<Longrightarrow>
      Directory_Allows (fst (containingDirectory s p)) tags r = path_gate s tags r p"
proof -
  note ok = store_inv_dirs [OF inv]
  have "snd (containingDirectory s p) = config_path_ok (directory_table s) p \<and>
    (config_path_ok (directory_table s) p \<longrightarrow>
      Directory_Allows (fst (containingDirectory s p)) tags r = path_gate s tags r p)"
  proof (cases "p = [] \<or> p = ''/''")
    case True
    then have "clean_parts p = []" by auto
    from True this show ?thesis
      by (elim disjE) (simp_all add: containingDirectory_def config_path_ok_def Directory_Allows_def
          Directory_GetAcls_def path_gate_def)
  next
    case False
    have chain: "DirectoryChain s p = (map (stored_directory s) (selected_rows s [p]), if p \<in> full_paths s then [] else [p])"
      using DirectoryChain_eq [OF inv] False by simp
    show ?thesis
    proof (cases "p \<in> full_paths s")
      case out: False
      then have "containingDirectory s p = (None, False)" using False chain by (simp add: containingDirectory_def)
      then show ?thesis using False out by (auto simp: config_path_ok_def full_paths_def)
    next
      case True
      then obtain x where x: "x \<in> set (directory_table s)" "p = abs_path (row_parts x)" by (auto simp: full_paths_def)
      note good = good_row_parts [OF ok x(1)]
      have parts: "clean_parts p = row_parts x" using x(2) good by simp
      have sel: "d \<in> set (map (stored_directory s) (selected_rows s [p])) \<and> Directory_FullPath d = p \<longleftrightarrow>
          d = stored_directory s x" for d
      proof
        assume d: "d \<in> set (map (stored_directory s) (selected_rows s [p])) \<and> Directory_FullPath d = p"
        then obtain y where y: "y \<in> set (directory_table s)" "d = stored_directory s y"
          by (auto simp: set_selected_rows)
        then have "row_parts y = row_parts x"
          using d x(2) good good_row_parts [OF ok y(1)] stored_directory_full_path [OF ok y(1)] by simp
        with row_parts_unique [OF ok y(1) x(1)] y(2) show "d = stored_directory s x" by simp
      next
        assume "d = stored_directory s x"
        then show "d \<in> set (map (stored_directory s) (selected_rows s [p])) \<and> Directory_FullPath d = p"
          using x stored_directory_full_path [OF ok x(1)] good by (auto simp: set_selected_rows)
      qed
      have "find (\<lambda>d. Directory_FullPath d = p) (map (stored_directory s) (selected_rows s [p])) = Some (stored_directory s x)"
        using sel [of "stored_directory s x"] sel by (intro find_unique) blast+
      then have "containingDirectory s p = (Some (stored_directory s x), True)"
        using False True chain by (simp add: containingDirectory_def)
      moreover have "config_path_ok (directory_table s) p" using x by (auto simp: config_path_ok_def)
      ultimately show ?thesis
        using Directory_Allows_stored [OF ok x(1)] parts by (simp add: path_gate_def)
    qed
  qed
  then show "snd (containingDirectory s p) = config_path_ok (directory_table s) p"
    "config_path_ok (directory_table s) p \<Longrightarrow>
      Directory_Allows (fst (containingDirectory s p)) tags r = path_gate s tags r p" by blast+
qed

lemma directoryWritable_iff:
  assumes inv: "store_inv s" and r: "r \<in> set (directory_table s)"
  shows "directoryWritable s (stored_directory s r) tags \<longleftrightarrow>
    path_granted s tags (butlast (row_parts r)) \<and> dir_grants s tags Acl_WRITE (row_parts r)"
proof -
  note ok = store_inv_dirs [OF inv]
  let ?q = "clean_parts (dr_path r)"
  have "config_path_ok (directory_table s) (dr_path r)"
  proof (cases "?q = []")
    case True
    then have "dr_path r = ''/''" using directories_okD(2) [OF ok r] by (metis abs_path_Nil)
    then show ?thesis by (simp add: config_path_ok_def)
  next
    case False
    then obtain x where "x \<in> set (directory_table s)" "row_parts x = ?q" using parent_exists [OF ok r] by auto
    then show ?thesis using directories_okD(2) [OF ok r] unfolding config_path_ok_def by metis
  qed
  then have "pathReadable s (dr_path r) tags \<longleftrightarrow> path_granted s tags ?q" by (rule pathReadable_config_path [OF inv])
  then show ?thesis
    using Directory_Allows_stored [OF ok r]
    by (simp add: directoryWritable_def stored_directory_def)
qed

section \<open>Creating below an ancestor\<close>

lemma deepest_foldl:
  "(\<exists>d \<in> insert d0 (set chain). foldl (\<lambda>deepest d. case deepest of
              None \<Rightarrow> Some d
            | Some x \<Rightarrow> if length (Directory_FullPath x) < length (Directory_FullPath d) then Some d else deepest)
       (Some d0) chain = Some d \<and>
     (\<forall>x \<in> insert d0 (set chain). length (Directory_FullPath x) \<le> length (Directory_FullPath d)))"
proof (induction chain arbitrary: d0)
  case Nil
  show ?case by simp
next
  case (Cons c chain)
  show ?case
    using Cons [of "if length (Directory_FullPath d0) < length (Directory_FullPath c) then c else d0"]
    by (auto split: if_splits)
qed

lemma deepestExistingAncestor_spec:
  assumes "chain \<noteq> []"
  obtains d where "d \<in> set chain" "deepestExistingAncestor chain = Some d"
    "\<forall>x \<in> set chain. length (Directory_FullPath x) \<le> length (Directory_FullPath d)"
proof -
  obtain c cs where "chain = c # cs" using assms by (cases chain) auto
  moreover from deepest_foldl [of c cs] obtain d where "d \<in> insert c (set cs)"
    "deepestExistingAncestor (c # cs) = Some d"
    "\<forall>x \<in> insert c (set cs). length (Directory_FullPath x) \<le> length (Directory_FullPath d)"
    by (auto simp: deepestExistingAncestor_def)
  ultimately show thesis by (intro that [of d]) simp_all
qed

text \<open>The longest existing directory on a path, the root if there is none.\<close>

function deepest_dir :: "db \<Rightarrow> string list \<Rightarrow> string list" where
  "deepest_dir s ps = (if ps = [] then [] else if dir_tree s ps \<noteq> None then ps else deepest_dir s (butlast ps))"
  by pat_completeness auto
termination
  by (relation "measure (\<lambda>(s, ps). length ps)") auto

declare deepest_dir.simps [simp del]

lemma deepest_dir_Nil [simp]: "deepest_dir s [] = []"
  by (simp add: deepest_dir.simps)

lemma deepest_dir_snoc:
  "deepest_dir s (ps @ [n]) = (if dir_tree s (ps @ [n]) \<noteq> None then ps @ [n] else deepest_dir s ps)"
  by (subst deepest_dir.simps) simp

lemma deepest_dir_spec:
  "prefix (deepest_dir s ps) ps \<and> (deepest_dir s ps = [] \<or> dir_tree s (deepest_dir s ps) \<noteq> None) \<and>
   (\<forall>p. prefix p ps \<longrightarrow> p \<noteq> [] \<longrightarrow> dir_tree s p \<noteq> None \<longrightarrow> prefix p (deepest_dir s ps))"
proof (induction ps rule: rev_induct)
  case Nil
  show ?case by simp
next
  case (snoc n ps)
  then show ?case by (auto simp: deepest_dir_snoc)
qed

text \<open>The gate of \<open>CreateDirectory\<close>: WRITE on the longest existing directory of the parent path.\<close>

lemma deepest_gate:
  assumes inv: "store_inv s" and p: "p \<noteq> []" "p \<noteq> ''/''"
  shows "Directory_Allows (deepestExistingAncestor (fst (DirectoryChain s p))) tags r \<longleftrightarrow>
    deepest_dir s (clean_parts p) = [] \<or> dir_grants s tags r (deepest_dir s (clean_parts p))"
proof -
  note ok = store_inv_dirs [OF inv]
  let ?ps = "clean_parts p" and ?chain = "map (stored_directory s) (selected_rows s [p])"
  let ?q = "deepest_dir s ?ps"
  have chain: "fst (DirectoryChain s p) = ?chain" using DirectoryChain_eq [OF inv p] by simp
  have q: "prefix ?q ?ps" "?q = [] \<or> dir_tree s ?q \<noteq> None"
    "\<And>x. prefix x ?ps \<Longrightarrow> x \<noteq> [] \<Longrightarrow> dir_tree s x \<noteq> None \<Longrightarrow> prefix x ?q"
    using deepest_dir_spec [of s ?ps] by blast+
  have sel: "set (selected_rows s [p]) = {x \<in> set (directory_table s). prefix (row_parts x) ?ps}"
    by (rule set_selected_rows)
  show ?thesis
  proof (cases "?q = []")
    case True
    have "selected_rows s [p] = []"
    proof (rule ccontr)
      assume "selected_rows s [p] \<noteq> []"
      then obtain x where x: "x \<in> set (directory_table s)" "prefix (row_parts x) ?ps"
        using sel by (metis (lifting) mem_Collect_eq last_in_set)
      then have "prefix (row_parts x) ?q" using q(3) [of "row_parts x"] dir_tree_row [OF ok x(1)] by simp
      with True show False by simp
    qed
    then show ?thesis using True by (simp add: chain deepestExistingAncestor_def Directory_Allows_def Directory_GetAcls_def)
  next
    case False
    then obtain x where x: "x \<in> set (directory_table s)" "row_parts x = ?q"
      using q(2) by (auto simp: dir_tree_None)
    then have xin: "x \<in> set (selected_rows s [p])" using sel q(1) by simp
    then have "?chain \<noteq> []" by auto
    then obtain d where d: "d \<in> set ?chain" "deepestExistingAncestor ?chain = Some d"
      "\<forall>y \<in> set ?chain. length (Directory_FullPath y) \<le> length (Directory_FullPath d)"
      using deepestExistingAncestor_spec by blast
    then obtain y where y: "y \<in> set (directory_table s)" "prefix (row_parts y) ?ps" "d = stored_directory s y"
      using sel by auto
    have pre: "prefix (row_parts y) (row_parts x)" using q(3) [OF y(2)] dir_tree_row [OF ok y(1)] x(2) by simp
    have "row_parts y = row_parts x"
    proof (rule ccontr)
      assume "row_parts y \<noteq> row_parts x"
      then obtain zs where zs: "row_parts x = row_parts y @ zs" "zs \<noteq> []" using pre by (auto simp: prefix_def)
      then have "good_path zs" using good_row_parts [OF ok x(1)] by simp
      then have "length (abs_path (row_parts y)) < length (abs_path (row_parts x))"
        using length_abs_path_append zs by simp
      moreover have "length (abs_path (row_parts x)) \<le> length (abs_path (row_parts y))"
        using d(3) xin y(3) stored_directory_full_path [OF ok x(1)] stored_directory_full_path [OF ok y(1)] by fastforce
      ultimately show False by simp
    qed
    then show ?thesis using False d(2) y(3) x(2) Directory_Allows_stored [OF ok y(1)] by (simp add: chain)
  qed
qed

section \<open>The allow-list\<close>

lemma any_allowed_iff: "any_allowed allowed ids \<longleftrightarrow> (\<exists>i \<in> set ids. i \<in> set allowed)"
  by (induction ids) auto

lemma set_NewServer: "set (NewServer ts) = {trim_space t |t. t \<in> set ts \<and> trim_space t \<noteq> []}"
proof -
  have "set (foldl (\<lambda>allowed t. let t = trim_space t in if t \<noteq> [] then List.insert t allowed else allowed) a ts) =
      set a \<union> {trim_space t |t. t \<in> set ts \<and> trim_space t \<noteq> []}" for a
    by (induction ts arbitrary: a) (auto simp: Let_def)
  then show ?thesis by (simp add: NewServer_def)
qed

text \<open>
  The create allow-list: a server built from a list of identities lets a caller create if and
  only if no entry of the list is more than white space, or some entry, trimmed, is one of the
  caller's identities.
\<close>

theorem can_create_iff:
  "canCreate (NewServer ts) ids \<longleftrightarrow>
     (\<forall>t \<in> set ts. trim_space t = []) \<or> (\<exists>t \<in> set ts. trim_space t \<noteq> [] \<and> trim_space t \<in> set ids)"
proof -
  have "NewServer ts = [] \<longleftrightarrow> (\<forall>t \<in> set ts. trim_space t = [])"
    unfolding set_empty [symmetric] set_NewServer by auto
  then show ?thesis using set_NewServer [of ts] by (auto simp: canCreate_def any_allowed_iff)
qed

theorem can_create_iff_witness:
  "canCreate (NewServer [''  '', '' tag:ops '']) [''tag:dev'', ''tag:ops''] \<and>
   \<not> canCreate (NewServer ['' tag:ops '']) [''tag:dev'']"
proof -
  have t: "trim_space '' tag:ops '' = ''tag:ops''" "trim_space ''  '' = []" by code_simp+
  show ?thesis unfolding can_create_iff by (simp add: t)
qed

end
