(* ===== verification/ApiReads.thy ===== *)
theory ApiReads
  imports ApiGates
begin

text \<open>
  The read handlers of \<open>internal/api/server.go\<close> (\<open>GetConfig\<close>, \<open>GetDirectory\<close>, \<open>List\<close>): each answers
  exactly when the specification lets the caller see the object, and the three agree.
\<close>

section \<open>GetConfig and GetDirectory\<close>

definition version_string :: "string option \<Rightarrow> string" where
  "version_string v = (case v of None \<Rightarrow> [] | Some v \<Rightarrow> v)"

lemma GetConfig_Inr:
  assumes inv: "store_inv s"
  shows "GetConfig s tags i v = Inr c \<longleftrightarrow>
    (\<exists>r \<in> set (config_table s). parse_int64 i = Some (cr_id r) \<and> config_visible s tags r \<and>
       GetConfigByID s i True (version_string v) = Inr (Some c))"
proof -
  have path_ok: "config_path_ok (directory_table s) (cr_path r)" if "r \<in> set (config_table s)" for r
    using that store_inv_configs [OF inv] by (simp add: configs_ok_def)
  have vis: "Config_Allows x tags Acl_READ \<and> pathReadable s (c_path x) tags \<longleftrightarrow> config_visible s tags r"
    if "r \<in> set (config_table s)" "c_path x = cr_path r" "c_acls x = aclsForOwner Config_acl s (cr_id r)" for x r
    using that pathReadable_config_path [OF inv path_ok] by (simp add: Config_Allows_def config_visible_def)
  show ?thesis
  proof
    assume l: "GetConfig s tags i v = Inr c"
    then have g: "GetConfigByID s i True (version_string v) = Inr (Some c)" and
      a: "Config_Allows c tags Acl_READ" "pathReadable s (c_path c) tags"
      by (auto simp: GetConfig_def version_string_def split: if_splits sum.splits option.splits)
    obtain r where r: "r \<in> set (config_table s)" "parse_int64 i = Some (cr_id r)" "c_path c = cr_path r"
      "c_acls c = aclsForOwner Config_acl s (cr_id r)"
      using GetConfigByID_Some [OF inv g] by metis
    then show "\<exists>r \<in> set (config_table s). parse_int64 i = Some (cr_id r) \<and> config_visible s tags r \<and>
       GetConfigByID s i True (version_string v) = Inr (Some c)"
      using vis [OF r(1,3,4)] a g by blast
  next
    assume "\<exists>r \<in> set (config_table s). parse_int64 i = Some (cr_id r) \<and> config_visible s tags r \<and>
       GetConfigByID s i True (version_string v) = Inr (Some c)"
    then obtain r where r: "r \<in> set (config_table s)" "parse_int64 i = Some (cr_id r)" "config_visible s tags r"
      and g: "GetConfigByID s i True (version_string v) = Inr (Some c)" by blast
    obtain r' where r': "r' \<in> set (config_table s)" "parse_int64 i = Some (cr_id r')" "c_path c = cr_path r'"
      "c_acls c = aclsForOwner Config_acl s (cr_id r')"
      using GetConfigByID_Some [OF inv g] by metis
    have "r' = r" using r(1,2) r'(1,2) cr_id_unique [OF inv] by simp
    with vis [OF r'(1,3,4)] r(3) have "Config_Allows c tags Acl_READ" "pathReadable s (c_path c) tags" by simp_all
    moreover have "i \<noteq> []" using r(2) by auto
    ultimately show "GetConfig s tags i v = Inr c" using g by (simp add: GetConfig_def version_string_def)
  qed
qed

text \<open>
  C2: \<open>GetConfig\<close> returns a config exactly when the store holds the requested version and the caller
  may see the config: its own ACL grants READ and so does every directory on its path.  Otherwise
  the request fails, and what it returns is what the store holds.
\<close>

theorem get_config_iff_visible:
  assumes "store_inv s"
  shows "GetConfig s tags i v = Inr c \<longleftrightarrow>
    (\<exists>r \<in> set (config_table s). parse_int64 i = Some (cr_id r) \<and> config_visible s tags r \<and>
       GetConfigByID s i True (version_string v) = Inr (Some c))"
  using assms by (rule GetConfig_Inr)

theorem get_config_iff_visible_witness:
  "\<exists>c. GetConfig sample_db [''tag:dev''] ''3'' None = Inr c \<and>
     (\<exists>r \<in> set (config_table sample_db). config_visible sample_db [''tag:dev''] r)"
proof -
  have "\<not> isl (GetConfig sample_db [''tag:dev''] ''3'' None)" by code_simp
  then obtain c where c: "GetConfig sample_db [''tag:dev''] ''3'' None = Inr c"
    by (cases "GetConfig sample_db [''tag:dev''] ''3'' None") auto
  then show ?thesis using get_config_iff_visible [OF sample_inv, of "[''tag:dev'']" "''3''" None c] by blast
qed

text \<open>
  \<open>GetDirectory\<close> returns a directory exactly when it exists and every directory on its path, its
  own included, grants READ to the caller or is transparent.
\<close>

theorem get_directory_iff_granted:
  assumes inv: "store_inv s"
  shows "GetDirectory s tags i = Inr d \<longleftrightarrow>
    (\<exists>r \<in> set (directory_table s). parse_int64 i = Some (dr_id r) \<and> path_granted s tags (row_parts r) \<and>
       d = stored_directory s r)"
proof
  note ok = store_inv_dirs [OF inv]
  assume "GetDirectory s tags i = Inr d"
  then have g: "GetDirectoryByID s i = Inr (Some d)" "pathReadable s (Directory_FullPath d) tags"
    by (auto simp: GetDirectory_def split: if_splits sum.splits option.splits)
  obtain r where r: "r \<in> set (directory_table s)" "parse_int64 i = Some (dr_id r)" "d = stored_directory s r"
    using GetDirectoryByID_Some [OF inv g(1)] .
  with g(2) stored_directory_full_path [OF ok r(1)] pathReadable_row [OF inv r(1)]
  show "\<exists>r \<in> set (directory_table s). parse_int64 i = Some (dr_id r) \<and> path_granted s tags (row_parts r) \<and>
       d = stored_directory s r" by auto
next
  note ok = store_inv_dirs [OF inv]
  assume "\<exists>r \<in> set (directory_table s). parse_int64 i = Some (dr_id r) \<and> path_granted s tags (row_parts r) \<and>
       d = stored_directory s r"
  then obtain r where r: "r \<in> set (directory_table s)" "parse_int64 i = Some (dr_id r)"
    "path_granted s tags (row_parts r)" "d = stored_directory s r" by blast
  have "GetDirectoryByID s i = Inr (Some d)"
    using r find_dr_id [OF ok, of "dr_id r" r] by (simp add: GetDirectoryByID_def stored_directory_def)
  moreover have "i \<noteq> []" using r(2) by auto
  ultimately show "GetDirectory s tags i = Inr d"
    using r stored_directory_full_path [OF ok r(1)] pathReadable_row [OF inv r(1)] by (simp add: GetDirectory_def)
qed

theorem get_directory_iff_granted_witness:
  "\<exists>d. GetDirectory sample_db [''tag:dev''] ''2'' = Inr d \<and>
     (\<exists>r \<in> set (directory_table sample_db). d = stored_directory sample_db r)"
proof -
  have "\<not> isl (GetDirectory sample_db [''tag:dev''] ''2'')" by code_simp
  then obtain d where d: "GetDirectory sample_db [''tag:dev''] ''2'' = Inr d"
    by (cases "GetDirectory sample_db [''tag:dev''] ''2''") auto
  then show ?thesis using get_directory_iff_granted [OF sample_inv, of "[''tag:dev'']" "''2''" d] by blast
qed

section \<open>List\<close>

lemma findDirectory_Some:
  "findDirectory i t = Some x \<Longrightarrow> x \<in> set (tl (tree_nodes t)) \<and> d_id x = i"
  "find_in_children i ds = Some x \<Longrightarrow> x \<in> set (concat (map tree_nodes ds)) \<and> d_id x = i"
proof (induction i t and i ds rule: findDirectory_find_in_children.induct)
  case (3 i d ds)
  have "x \<in> set (tree_nodes d)" if "x \<in> set (tl (tree_nodes d))" using that by (cases d) auto
  moreover have "d \<in> set (tree_nodes d)" by (cases d) simp
  ultimately show ?case using 3 by (auto split: if_splits option.splits)
qed auto

lemma findDirectory_None:
  "findDirectory i t = None \<Longrightarrow> i \<notin> d_id ` set (tl (tree_nodes t))"
  "find_in_children i ds = None \<Longrightarrow> i \<notin> d_id ` set (concat (map tree_nodes ds))"
proof (induction i t and i ds rule: findDirectory_find_in_children.induct)
  case (3 i d ds)
  have "tree_nodes d = d # tl (tree_nodes d)" by (cases d) simp
  then have "d_id ` set (tree_nodes d) = insert (d_id d) (d_id ` set (tl (tree_nodes d)))"
    by (metis image_insert list.simps(15))
  moreover have n: "d_id d \<noteq> i" "findDirectory i d = None" "find_in_children i ds = None"
    using 3(3) by (auto split: if_splits option.splits)
  have "i \<notin> d_id ` set (tl (tree_nodes d))" using 3(1) [OF n(1,2)] .
  moreover have "i \<notin> d_id ` set (concat (map tree_nodes ds))" using 3(2) n by simp
  ultimately show ?case using n(1) by (simp add: image_Un)
qed auto

text \<open>
  C24: \<open>List\<close> of the whole tree and \<open>GetConfig\<close> agree: a stored config is in the listed tree of a
  caller exactly when the same caller can fetch its current content.
\<close>

theorem list_agrees_with_get:
  assumes inv: "store_inv s" and r: "r \<in> set (config_table s)"
  shows "\<exists>t. List_tree s tags [] = Inr (Some t) \<and>
    (stored_config s r \<in> set (tree_configs t) \<longleftrightarrow>
     (\<exists>c. GetConfig s tags (show_int (cr_id r)) None = Inr c \<and> c_content c \<noteq> None))"
proof -
  obtain t where t: "TreeForACLTags s tags [] = Inr t" and
    p: "populated (granted_directories s tags) (visible_configs s tags []) [] t"
    using TreeForACLTags_spec [OF inv] by metis
  note cs = visible_tree_configs [OF inv p]
  have "stored_config s r \<in> set (tree_configs t) \<longleftrightarrow> config_visible s tags r"
  proof
    assume "stored_config s r \<in> set (tree_configs t)"
    then obtain x where x: "x \<in> set (config_table s)" "config_visible s tags x" "stored_config s r = stored_config s x"
      using cs by auto
    then have "parse_int64 (show_int (cr_id r)) = parse_int64 (show_int (cr_id x))"
      by (metis config_of_row_sel(1) stored_config_def)
    then have "cr_id r = cr_id x" using parse_cr_id [OF inv r] parse_cr_id [OF inv x(1)] by simp
    with cr_id_unique [OF inv r x(1)] x(2) show "config_visible s tags r" by simp
  qed (use cs r in \<open>auto simp: in_prefix_def\<close>)
  moreover obtain v b sz where "cr_current_content_id r = Some v" "version_content s (cr_id r) v = Some (b, sz)"
    using current_version_content [OF inv r] .
  then have "GetConfigByID s (show_int (cr_id r)) True [] = Inr (Some ((stored_config s r)\<lparr>c_content := Some b\<rparr>))"
    by (rule readback_row(1) [OF inv r])
  then have "(\<exists>c. GetConfig s tags (show_int (cr_id r)) None = Inr c \<and> c_content c \<noteq> None) \<longleftrightarrow> config_visible s tags r"
    using r parse_cr_id [OF inv r] cr_id_unique [OF inv r] GetConfig_Inr [OF inv]
    by (auto simp: version_string_def)
  moreover have "List_tree s tags [] = Inr (Some t)" using t by (simp add: List_tree_def)
  ultimately show ?thesis by blast
qed

theorem list_agrees_with_get_witness:
  "\<exists>t. List_tree sample_db [''tag:other''] [] = Inr (Some t) \<and>
     stored_config sample_db (hd (config_table sample_db)) \<notin> set (tree_configs t)"
proof -
  have r: "hd (config_table sample_db) \<in> set (config_table sample_db)" by (simp add: sample_db_def)
  have "isl (GetConfig sample_db [''tag:other''] (show_int (cr_id (hd (config_table sample_db)))) None)" by code_simp
  then show ?thesis using list_agrees_with_get [OF sample_inv r, of "[''tag:other'']"] by auto
qed

text \<open>The subtree below a directory, in strings and in components.\<close>

lemma prefix_slash: "q \<noteq> [] \<Longrightarrow> prefix (abs_path q @ ''/'') (abs_path (q @ z # zs))"
proof -
  assume "q \<noteq> []"
  then have "prefix (abs_path q @ ''/'') (abs_path (q @ [z]))" by (simp add: abs_path_snoc)
  moreover have "prefix (abs_path (q @ [z])) (abs_path ((q @ [z]) @ zs))" by (rule prefix_abs_path)
  ultimately show ?thesis using prefix_order.trans by fastforce
qed

lemma in_prefix_subtree:
  assumes ok: "directories_ok (directory_table s)" and p: "config_path_ok (directory_table s) p"
    and q: "q \<noteq> []" and pre: "prefix q (clean_parts p)"
  shows "in_prefix (abs_path q) p"
proof -
  have "p = abs_path (clean_parts p)"
    using config_path_clean [OF ok p] pre q by (auto simp: rootNormalised_def split: if_splits)
  moreover obtain zs where "clean_parts p = q @ zs" using pre by (auto simp: prefix_def)
  ultimately have zs: "p = abs_path (q @ zs)" by simp
  show ?thesis
  proof (cases zs)
    case Nil
    with zs show ?thesis by (simp add: in_prefix_def)
  next
    case (Cons y ys)
    with zs prefix_slash [OF q] show ?thesis by (simp add: in_prefix_def)
  qed
qed

lemma populated_subtree_configs:
  assumes inv: "store_inv s" and q: "q \<noteq> []" "good_path q"
    and x: "populated (granted_directories s tags) (visible_configs s tags (abs_path q)) q x"
  shows "set (tree_configs x) = stored_config s `
      {c \<in> set (config_table s). prefix q (clean_parts (cr_path c)) \<and> config_visible s tags c}"
proof -
  note ok = store_inv_dirs [OF inv]
  have path_ok: "config_path_ok (directory_table s) (cr_path c)" if "c \<in> set (config_table s)" for c
    using that store_inv_configs [OF inv] by (simp add: configs_ok_def)
  have good: "good_path p" if "p = q \<or> p \<in> row_parts ` set (granted_directories s tags)" for p
    using that q(2) good_row_parts [OF ok] by (auto simp: set_granted_directories)
  have place: "(\<exists>p. rootNormalised (c_path y) = abs_path p \<and> prefix q p \<and>
      (p = q \<or> p \<in> row_parts ` set (granted_directories s tags))) \<longleftrightarrow> prefix q (clean_parts (c_path y))"
    if vis: "y \<in> set (visible_configs s tags (abs_path q))" for y
  proof -
    let ?p = "clean_parts (c_path y)"
    have root: "rootNormalised (c_path y) = abs_path ?p"
      and dir: "?p = [] \<or> ?p \<in> row_parts ` set (granted_directories s tags)"
      using visible_placed [OF inv vis] by auto
    show ?thesis
    proof
      assume "\<exists>p. rootNormalised (c_path y) = abs_path p \<and> prefix q p \<and>
        (p = q \<or> p \<in> row_parts ` set (granted_directories s tags))"
      then obtain p where p: "rootNormalised (c_path y) = abs_path p" "prefix q p" "good_path p"
        using good by blast
      then have "p = ?p" using root by simp
      with p(2) show "prefix q ?p" by (simp only:)
    next
      assume below: "prefix q ?p"
      then have "?p \<noteq> []" using q(1) by (metis prefix_Nil)
      with dir have "?p \<in> row_parts ` set (granted_directories s tags)" by (simp only: simp_thms)
      with root below show "\<exists>p. rootNormalised (c_path y) = abs_path p \<and> prefix q p \<and>
          (p = q \<or> p \<in> row_parts ` set (granted_directories s tags))"
        by (intro exI [of _ ?p] conjI disjI2)
    qed
  qed
  have "set (tree_configs x) = {y \<in> set (visible_configs s tags (abs_path q)). prefix q (clean_parts (c_path y))}"
  proof -
    have "set (tree_configs x) = {y \<in> set (visible_configs s tags (abs_path q)).
        \<exists>p. rootNormalised (c_path y) = abs_path p \<and> prefix q p \<and>
          (p = q \<or> p \<in> row_parts ` set (granted_directories s tags))}"
      using x unfolding populated_def by (elim conjE)
    also have "\<dots> = {y \<in> set (visible_configs s tags (abs_path q)). prefix q (clean_parts (c_path y))}"
      by (intro Collect_cong conj_cong refl place)
    finally show ?thesis .
  qed
  also have "\<dots> = stored_config s ` {c \<in> set (config_table s). in_prefix (abs_path q) (cr_path c) \<and>
      config_visible s tags c \<and> prefix q (clean_parts (cr_path c))}"
    by (auto simp: visible_configs_def stored_config_def)
  also have "{c \<in> set (config_table s). in_prefix (abs_path q) (cr_path c) \<and>
      config_visible s tags c \<and> prefix q (clean_parts (cr_path c))} =
    {c \<in> set (config_table s). prefix q (clean_parts (cr_path c)) \<and> config_visible s tags c}"
    using in_prefix_subtree [OF ok path_ok q(1)] by blast
  finally show ?thesis .
qed

lemma dr_id_not_zero: "store_inv s \<Longrightarrow> r \<in> set (directory_table s) \<Longrightarrow> show_int (dr_id r) \<noteq> ''0''"
proof
  assume a: "store_inv s" "r \<in> set (directory_table s)" "show_int (dr_id r) = ''0''"
  have "parse_int64 ''0'' = Some 0" by code_simp
  then have "dr_id r = 0" using parse_dr_id [OF a(1,2)] a(3) by simp
  with a(1,2) show False by (force simp: store_inv_def ids_bounded_def)
qed

text \<open>The node that \<open>findDirectory\<close> picks out of the tree for a directory id.\<close>

lemma findDirectory_row:
  assumes inv: "store_inv s" and r: "r \<in> set (directory_table s)" and t0: "d_id t = ''0''"
    and pop: "populated (granted_directories s tags) cs [] t"
    and nodes: "\<forall>x \<in> set (tree_nodes t). x = t \<or> (\<exists>r \<in> set (granted_directories s tags).
       node_of s (granted_directories s tags) cs r x)"
  shows "if path_granted s tags (row_parts r)
    then \<exists>x. findDirectory (show_int (dr_id r)) t = Some x \<and> node_of s (granted_directories s tags) cs r x
    else findDirectory (show_int (dr_id r)) t = None"
proof -
  note ok = store_inv_dirs [OF inv]
  have cons: "tree_nodes t = t # tl (tree_nodes t)" by (cases t) simp
  have sub: "set (tl (tree_nodes t)) \<subseteq> set (tree_nodes t)" by (metis cons set_subset_Cons)
  have hit: "node_of s (granted_directories s tags) cs r x \<and> path_granted s tags (row_parts r)"
    if f: "findDirectory (show_int (dr_id r)) t = Some x" for x
  proof -
    have x: "x \<in> set (tree_nodes t)" "d_id x = show_int (dr_id r)" using findDirectory_Some(1) [OF f] sub by auto
    then have "x \<noteq> t" using t0 dr_id_not_zero [OF inv r] by auto
    with nodes x(1) obtain r' where r': "r' \<in> set (granted_directories s tags)"
      "node_of s (granted_directories s tags) cs r' x" by blast
    have rt: "r' \<in> set (directory_table s)" using r'(1) by (simp add: set_granted_directories)
    have "show_int (dr_id r') = show_int (dr_id r)" using r'(2) x(2) by (simp add: node_of_def)
    then have "dr_id r' = dr_id r" using parse_dr_id [OF inv r] parse_dr_id [OF inv rt] by simp
    then have "r' = r" using dr_id_unique [OF ok rt r] by simp
    with r' show ?thesis by (simp add: set_granted_directories)
  qed
  moreover have "findDirectory (show_int (dr_id r)) t \<noteq> None" if g: "path_granted s tags (row_parts r)"
  proof
    assume none: "findDirectory (show_int (dr_id r)) t = None"
    have "strict_prefix [] (row_parts r)" by (metis prefix_order.less_le prefix_bot.bot_least row_parts_not_Nil)
    then have "show_int (dr_id r) \<in> d_id ` set (tree_nodes t)"
      using pop r g by (auto simp: populated_def set_granted_directories)
    moreover have "show_int (dr_id r) \<noteq> d_id t" using t0 dr_id_not_zero [OF inv r] by simp
    ultimately have "show_int (dr_id r) \<in> d_id ` set (tl (tree_nodes t))"
      by (metis (no_types, lifting) cons image_insert insertE list.simps(15))
    then show False using findDirectory_None(1) [OF none] by blast
  qed
  ultimately show ?thesis by (cases "findDirectory (show_int (dr_id r)) t") auto
qed



end
