(* ===== verification/ApiSystem.thy ===== *)
theory ApiSystem
  imports ApiReads
begin

text \<open>
  The service of \<open>internal/api/server.go\<close> as a state machine: a request is dispatched to its
  handler, a run is a sequence of requests by any callers.  Every database a run reaches is
  well-formed, a request changes the database only for a caller with the authority to, and the
  content a config version holds stays what it is for as long as the config exists.
\<close>

section \<open>Requests\<close>

datatype request =
    ListRequest string
  | GetConfigRequest string "string option"
  | SetConfigRequest "config option"
  | DeleteConfigRequest string
  | CreateDirectoryRequest "directory option"
  | GetDirectoryRequest string
  | UpdateDirectoryRequest "directory option"
  | DeleteDirectoryRequest string

datatype response =
    ListResponse "directory option"
  | ConfigResponse config
  | SetConfigResponse "config option"
  | DirectoryResponse "directory option"
  | EmptyResponse

definition respond :: "('a \<Rightarrow> response) \<Rightarrow> (api_error + 'a) \<times> db \<Rightarrow> (api_error + response) \<times> db" where
  "respond f p = (case p of (Inl e, s) \<Rightarrow> (Inl e, s) | (Inr a, s) \<Rightarrow> (Inr (f a), s))"

text \<open>
  The dispatch of the generated service: quoting function, allow-list, the caller's tags, the clock.
\<close>

fun handle :: "(string \<Rightarrow> string) \<Rightarrow> string list \<Rightarrow> string list \<Rightarrow> int \<Rightarrow> request \<Rightarrow> db \<Rightarrow>
    (api_error + response) \<times> db" where
  "handle q allowed tags now (ListRequest i) s = respond ListResponse (List_tree s tags i, s)"
| "handle q allowed tags now (GetConfigRequest i v) s = respond ConfigResponse (GetConfig s tags i v, s)"
| "handle q allowed tags now (SetConfigRequest c) s = respond SetConfigResponse (SetConfig allowed tags c now s)"
| "handle q allowed tags now (DeleteConfigRequest i) s = respond (\<lambda>_. EmptyResponse) (DeleteConfig tags i s)"
| "handle q allowed tags now (CreateDirectoryRequest d) s =
     respond DirectoryResponse (CreateDirectory_handler q allowed tags d s)"
| "handle q allowed tags now (GetDirectoryRequest i) s = respond (\<lambda>d. DirectoryResponse (Some d)) (GetDirectory s tags i, s)"
| "handle q allowed tags now (UpdateDirectoryRequest d) s =
     respond DirectoryResponse (UpdateDirectory_handler q tags d s)"
| "handle q allowed tags now (DeleteDirectoryRequest i) s =
     respond (\<lambda>_. EmptyResponse) (DeleteDirectory_handler q tags i s)"

lemma respond_state [simp]: "snd (respond f p) = snd p"
  by (cases p; cases "fst p") (auto simp: respond_def)

section \<open>What each write handler does to the database\<close>

text \<open>
  A write handler either leaves the database alone or is the store operation it guards, on a
  caller that passed its checks.
\<close>

lemma SetConfig_state:
  assumes "SetConfig allowed tags rc now s = (r, s')"
  shows "s' = s \<or> (\<exists>c x. rc = Some c \<and> set_config_checks allowed s tags c = Inr () \<and> Upsert c now s = (x, s'))"
  using assms by (auto simp: SetConfig_def split: option.splits sum.splits prod.splits)

lemma DeleteConfig_state:
  assumes "DeleteConfig tags i s = (r, s')"
  shows "s' = s \<or> (\<exists>e x. GetConfigByID s i False [] = Inr (Some e) \<and> Config_Allows e tags Acl_WRITE \<and> Delete i s = (x, s'))"
  using assms by (auto simp: DeleteConfig_def split: option.splits sum.splits prod.splits if_splits)

lemma CreateDirectory_handler_state:
  assumes "CreateDirectory_handler q allowed tags rd s = (r, s')"
  shows "s' = s \<or> (\<exists>d x. rd = Some d \<and> canCreate allowed tags \<and>
    (d_path d = [] \<or> d_path d = ''/'' \<or>
       Directory_Allows (deepestExistingAncestor (fst (DirectoryChain s (d_path d)))) tags Acl_WRITE) \<and>
    CreateDirectory d s = (x, s'))"
  using assms by (auto simp: CreateDirectory_handler_def split: option.splits sum.splits prod.splits if_splits)

lemma UpdateDirectory_handler_state:
  assumes "UpdateDirectory_handler q tags rd s = (r, s')"
  shows "s' = s \<or> (\<exists>d e x. rd = Some d \<and> GetDirectoryByID s (d_id d) = Inr (Some e) \<and> directoryWritable s e tags \<and>
    UpdateDirectory d s = (x, s'))"
  using assms by (auto simp: UpdateDirectory_handler_def split: option.splits sum.splits prod.splits if_splits)

lemma DeleteDirectory_handler_state:
  assumes "DeleteDirectory_handler q tags i s = (r, s')"
  shows "s' = s \<or> (\<exists>e x. GetDirectoryByID s i = Inr (Some e) \<and> directoryWritable s e tags \<and> DeleteDirectory i s = (x, s'))"
  using assms by (auto simp: DeleteDirectory_handler_def split: option.splits sum.splits prod.splits if_splits)

text \<open>The store operation behind a request that changed the database.\<close>

inductive store_write :: "int \<Rightarrow> db \<Rightarrow> db \<Rightarrow> bool" for now :: int where
  upsert: "Upsert c now s = (r, s') \<Longrightarrow> store_write now s s'"
| delete: "Delete i s = (r, s') \<Longrightarrow> store_write now s s'"
| create_directory: "CreateDirectory d s = (r, s') \<Longrightarrow> store_write now s s'"
| update_directory: "UpdateDirectory d s = (r, s') \<Longrightarrow> store_write now s s'"
| delete_directory: "DeleteDirectory i s = (r, s') \<Longrightarrow> store_write now s s'"

lemma store_write_inv: "store_write now s s' \<Longrightarrow> store_inv s \<Longrightarrow> store_inv s'"
  by (induction rule: store_write.induct)
    (blast intro: Upsert_inv Delete_inv CreateDirectory_inv UpdateDirectory_inv DeleteDirectory_inv)+

lemma handle_store_write:
  assumes "handle q allowed tags now req s = (r, s')"
  shows "s' = s \<or> store_write now s s'"
proof -
  have s': "s' = snd (handle q allowed tags now req s)" using assms by simp
  show ?thesis
  proof (cases req)
    case (SetConfigRequest c)
    then show ?thesis using SetConfig_state [of allowed tags c now s] s'
      by (cases "SetConfig allowed tags c now s") (auto intro: store_write.intros)
  next
    case (DeleteConfigRequest i)
    then show ?thesis using DeleteConfig_state [of tags i s] s'
      by (cases "DeleteConfig tags i s") (auto intro: store_write.intros)
  next
    case (CreateDirectoryRequest d)
    then show ?thesis using CreateDirectory_handler_state [of q allowed tags d s] s'
      by (cases "CreateDirectory_handler q allowed tags d s") (auto intro: store_write.intros)
  next
    case (UpdateDirectoryRequest d)
    then show ?thesis using UpdateDirectory_handler_state [of q tags d s] s'
      by (cases "UpdateDirectory_handler q tags d s") (auto intro: store_write.intros)
  next
    case (DeleteDirectoryRequest i)
    then show ?thesis using DeleteDirectory_handler_state [of q tags i s] s'
      by (cases "DeleteDirectory_handler q tags i s") (auto intro: store_write.intros)
  qed (use s' in auto)
qed

section \<open>Runs\<close>

text \<open>One request by some caller, at some time.\<close>

inductive api_step :: "(string \<Rightarrow> string) \<Rightarrow> string list \<Rightarrow> db \<Rightarrow> db \<Rightarrow> bool" for q :: "string \<Rightarrow> string" and allowed :: "string list" where
  request: "handle q allowed tags now req s = (r, s') \<Longrightarrow> api_step q allowed s s'"

inductive_cases api_stepE: "api_step q allowed s s'"

inductive api_reachable :: "(string \<Rightarrow> string) \<Rightarrow> string list \<Rightarrow> db \<Rightarrow> bool" for q :: "string \<Rightarrow> string" and allowed :: "string list" where
  fresh: "api_reachable q allowed empty_db"
| step: "api_reachable q allowed s \<Longrightarrow> api_step q allowed s s' \<Longrightarrow> api_reachable q allowed s'"

lemma api_step_write: "api_step q allowed s s' \<Longrightarrow> s' = s \<or> (\<exists>now. store_write now s s')"
  by (erule api_stepE) (use handle_store_write in blast)

text \<open>
  The contract a step relation keeps towards its states: an invariant, and a transitive relation
  between the states before and after.
\<close>

locale guarded_steps =
  fixes step :: "'s \<Rightarrow> 's \<Rightarrow> bool"
    and inv :: "'s \<Rightarrow> bool"
    and keeps :: "'s \<Rightarrow> 's \<Rightarrow> bool"
  assumes inv_step: "inv s \<Longrightarrow> step s s' \<Longrightarrow> inv s'"
    and keeps_step: "inv s \<Longrightarrow> step s s' \<Longrightarrow> keeps s s'"
    and keeps_refl: "inv s \<Longrightarrow> keeps s s"
    and keeps_trans: "inv s \<Longrightarrow> inv t \<Longrightarrow> keeps s t \<Longrightarrow> keeps t u \<Longrightarrow> keeps s u"
begin

lemma run_keeps: "step\<^sup>*\<^sup>* s t \<Longrightarrow> inv s \<Longrightarrow> inv t \<and> keeps s t"
proof (induction rule: rtranclp_induct)
  case base
  then show ?case by (simp add: keeps_refl)
next
  case (step t u)
  then show ?case using inv_step keeps_step keeps_trans by blast
qed

lemma run_inv: "step\<^sup>*\<^sup>* s t \<Longrightarrow> inv s \<Longrightarrow> inv t"
  using run_keeps by blast

end

text \<open>
  What every step keeps: ids are never reused, and a version of a config holds what it held unless
  the config is gone.
\<close>

definition config_ids :: "db \<Rightarrow> int set" where
  "config_ids s = cr_id ` set (config_table s)"

definition keeps_history :: "db \<Rightarrow> db \<Rightarrow> bool" where
  "keeps_history s s' \<longleftrightarrow> inode_top s \<le> inode_top s' \<and>
     (\<forall>n \<in> config_ids s'. n \<in> config_ids s \<or> inode_top s < n) \<and>
     (\<forall>n v w. version_content s n v = Some w \<longrightarrow> version_content s' n v = Some w \<or> n \<notin> config_ids s')"

lemma version_of_config:
  assumes "store_inv s" and "version_content s n v = Some w"
  shows "n \<in> config_ids s \<and> n \<le> inode_top s"
proof -
  obtain p where "p \<in> set (config_content_table s)" "cc_config_id p = n" using version_content_Some [OF assms(2)] by blast
  then have "n \<in> config_ids s" using store_inv_contents [OF assms(1)] by (auto simp: contents_ok_def config_ids_def)
  moreover have "config_ids s \<subseteq> {1..inode_top s}" using assms(1) by (simp add: store_inv_def ids_bounded_def config_ids_def)
  ultimately show ?thesis by auto
qed

lemma keeps_history_same:
  "inode_top s \<le> inode_top s' \<Longrightarrow> config_table s' = config_table s \<Longrightarrow>
     config_content_table s' = config_content_table s \<Longrightarrow> keeps_history s s'"
  by (simp add: keeps_history_def config_ids_def version_content_def)

lemma keeps_history_refl: "keeps_history s s"
  by (simp add: keeps_history_same)

lemma keeps_history_trans:
  assumes inv: "store_inv s" and inv': "store_inv t" and st: "keeps_history s t" and tu: "keeps_history t u"
  shows "keeps_history s u"
  unfolding keeps_history_def
proof (intro conjI ballI allI impI)
  show "inode_top s \<le> inode_top u" using st tu by (simp add: keeps_history_def)
  fix n assume "n \<in> config_ids u"
  then show "n \<in> config_ids s \<or> inode_top s < n" using st tu unfolding keeps_history_def by force
next
  fix n v w assume w: "version_content s n v = Some w"
  show "version_content u n v = Some w \<or> n \<notin> config_ids u"
  proof (cases "n \<in> config_ids t")
    case True
    then have "version_content t n v = Some w" using st w unfolding keeps_history_def by blast
    then show ?thesis using tu unfolding keeps_history_def by blast
  next
    case False
    have "n \<le> inode_top t" using version_of_config [OF inv w] st unfolding keeps_history_def by linarith
    then show ?thesis using False tu unfolding keeps_history_def by force
  qed
qed

text \<open>Each store operation keeps the history.\<close>

lemma Upsert_history:
  assumes inv: "store_inv s" and res: "Upsert c now s = (r, s')"
  shows "keeps_history s s'"
proof (cases r)
  case (Inl e)
  with res have "s' = s" by (auto dest: Upsert_error_state)
  then show ?thesis by (simp add: keeps_history_refl)
next
  case (Inr d)
  have versions: "\<forall>n v w. version_content s n v = Some w \<longrightarrow> version_content s' n v = Some w \<or> n \<notin> config_ids s'"
    using Upsert_keeps(2) [OF inv res] by blast
  have "inode_top s \<le> inode_top s' \<and> (\<forall>n \<in> config_ids s'. n \<in> config_ids s \<or> inode_top s < n)"
  proof (rule Upsert_success_cases [OF inv res [unfolded Inr]])
    fix b assume "s' = add_config c b now s"
    then show ?thesis by (auto simp: config_ids_def row_simps)
  next
    fix x assume s': "s' = change_config (cr_id x) c now s"
    have "config_ids s' = config_ids s" unfolding config_ids_def s' by (rule change_config_id)
    moreover have "inode_top s \<le> inode_top s'" by (simp add: s' row_simps split: option.split)
    ultimately show ?thesis by simp
  qed
  with versions show ?thesis unfolding keeps_history_def by blast
qed

lemma Delete_history: "Delete i s = (r, s') \<Longrightarrow> keeps_history s s'"
  by (auto simp: Delete_eq keeps_history_refl keeps_history_def config_ids_def remove_config_versions row_simps
      split: option.splits)

lemma CreateDirectory_history:
  assumes inv: "store_inv s" and res: "CreateDirectory d s = (r, s')"
  shows "keeps_history s s'"
proof (cases r)
  case (Inl e)
  with res have "s' = s" by (auto dest: CreateDirectory_error_state)
  then show ?thesis by (simp add: keeps_history_refl)
next
  case (Inr x)
  then obtain t where "create_directory_body t (d_acls d) s = Inr (x, s')"
    using res CreateDirectory_Inr [OF inv] by metis
  then obtain qs ns where "s' = add_missing qs ns (d_acls d) s"
    using create_directory_body_Inr [OF inv] by metis
  then show ?thesis by (simp add: keeps_history_same row_simps)
qed

lemma UpdateDirectory_history:
  assumes inv: "store_inv s" and res: "UpdateDirectory d s = (r, s')"
  shows "keeps_history s s'"
proof (cases r)
  case (Inl e)
  with res have "s' = s" by (auto dest: UpdateDirectory_error_state)
  then show ?thesis by (simp add: keeps_history_refl)
next
  case (Inr x)
  show ?thesis
  proof (rule UpdateDirectory_Inr [OF inv res [unfolded Inr]])
    fix y assume "s' = replaceACLs Directory_acl (dr_id y) (d_acls d) s"
    then show ?thesis by (simp add: keeps_history_same row_simps)
  qed
qed

lemma DeleteDirectory_history:
  assumes inv: "store_inv s" and res: "DeleteDirectory i s = (r, s')"
  shows "keeps_history s s'"
proof (cases r)
  case (Inl e)
  with res have "s' = s" by (auto dest: DeleteDirectory_error_state)
  then show ?thesis by (simp add: keeps_history_refl)
next
  case (Inr u)
  show ?thesis
  proof (rule DeleteDirectory_Inr [OF inv res [unfolded Inr]])
    fix y assume "s' = remove_directory (dr_id y) s"
    then show ?thesis by (simp add: keeps_history_same row_simps)
  qed
qed

lemma store_write_history: "store_write now s s' \<Longrightarrow> store_inv s \<Longrightarrow> keeps_history s s'"
  by (induction rule: store_write.induct)
    (blast intro: Upsert_history Delete_history CreateDirectory_history UpdateDirectory_history DeleteDirectory_history)+

interpretation api: guarded_steps "api_step q allowed" store_inv keeps_history for q allowed
proof (unfold_locales, goal_cases)
  case (1 s s')
  then show ?case using api_step_write store_write_inv by blast
next
  case (2 s s')
  then show ?case using api_step_write store_write_history keeps_history_refl by blast
next
  case (3 s)
  show ?case by (rule keeps_history_refl)
next
  case (4 s t u)
  then show ?case by (rule keeps_history_trans)
qed

text \<open>
  Every database that any run of requests by any callers reaches from the empty one is
  well-formed: paths canonical, ancestors present, keys unique, every config in an existing
  directory with its current version stored, no orphaned ACL or content row.
\<close>

theorem api_reachable_inv: "api_reachable q allowed s \<Longrightarrow> store_inv s"
proof (induction rule: api_reachable.induct)
  case fresh
  show ?case by (rule store_inv_empty)
next
  case (step s s')
  then show ?case using api.inv_step by blast
qed

theorem api_reachable_inv_witness:
  "\<exists>s. api_reachable (\<lambda>x. x) [] s \<and> store_inv s \<and> directory_table s \<noteq> []"
proof -
  let ?req = "CreateDirectoryRequest (Some (Directory [] ''a'' ''/'' [] [] []))"
  let ?h = "handle (\<lambda>x. x) [] [] 0 ?req empty_db"
  have "api_step (\<lambda>x. x) [] empty_db (snd ?h)" by (rule api_step.request) (rule prod.collapse [symmetric])
  then have r: "api_reachable (\<lambda>x. x) [] (snd ?h)" by (rule api_reachable.step [OF api_reachable.fresh])
  have "directory_table (snd ?h) \<noteq> []" by code_simp
  with r api_reachable_inv [OF r] show ?thesis by blast
qed

lemma history_keeps_reads:
  assumes inv: "store_inv s" and inv': "store_inv s'" and hist: "keeps_history s s'"
    and old: "GetConfigByID s i True v = Inr (Some x)" and v: "v \<noteq> []"
  shows "GetConfigByID s' i True v = Inr None \<or>
    (\<exists>y. GetConfigByID s' i True v = Inr (Some y) \<and> c_content y = c_content x \<and> c_content_size y = c_content_size x)"
proof -
  obtain a n b sz where a: "a \<in> set (config_table s)" "parse_int64 i = Some (cr_id a)" "parse_int64 v = Some n"
    "version_content s (cr_id a) n = Some (b, sz)"
    "x = (stored_config s a)\<lparr>c_content := Some b, c_content_size := sz\<rparr>"
    using GetConfigByID_version_Some [OF inv old v] .
  show ?thesis
  proof (cases "cr_id a \<in> config_ids s'")
    case True
    then obtain y where y: "y \<in> set (config_table s')" "cr_id y = cr_id a" by (auto simp: config_ids_def)
    have "version_content s' (cr_id y) n = Some (b, sz)" using hist a(4) True y(2) unfolding keeps_history_def by metis
    moreover have "parse_int64 i = Some (cr_id y)" using a(2) y(2) by simp
    ultimately show ?thesis using GetConfigByID_version [OF inv' y(1) _ v, of i] a(3,5) by simp
  next
    case False
    then show ?thesis using GetConfigByID_none [OF a(2)] by (simp add: config_ids_def)
  qed
qed

text \<open>
  Over any run of requests, what a version of a config holds never changes: \<open>GetConfigByID\<close>
  returns the same content and size for it at the end as at the start, unless the config has been
  deleted, and then nothing is ever found under its id again.
\<close>

theorem run_keeps_versions:
  assumes inv: "store_inv s" and run: "(api_step q allowed)\<^sup>*\<^sup>* s s'"
    and old: "GetConfigByID s i True v = Inr (Some x)" and v: "v \<noteq> []"
  shows "GetConfigByID s' i True v = Inr None \<or>
    (\<exists>y. GetConfigByID s' i True v = Inr (Some y) \<and> c_content y = c_content x \<and> c_content_size y = c_content_size x)"
proof -
  have "store_inv s'" "keeps_history s s'" using api.run_keeps [OF run inv] by blast+
  then show ?thesis using history_keeps_reads inv old v by blast
qed

theorem run_keeps_versions_witness:
  "\<exists>s' x. (api_step (\<lambda>x. x) [])\<^sup>*\<^sup>* sample_db s' \<and> s' \<noteq> sample_db \<and>
     GetConfigByID sample_db ''3'' True ''4'' = Inr (Some x) \<and>
     (GetConfigByID s' ''3'' True ''4'' = Inr None \<or> (\<exists>y. GetConfigByID s' ''3'' True ''4'' = Inr (Some y) \<and> c_content y = c_content x))"
proof -
  let ?h = "handle (\<lambda>x. x) [] [''tag:ops''] 7 (SetConfigRequest (Some sample_change)) sample_db"
  have "api_step (\<lambda>x. x) [] sample_db (snd ?h)" by (rule api_step.request) (rule prod.collapse [symmetric])
  then have run: "(api_step (\<lambda>x. x) [])\<^sup>*\<^sup>* sample_db (snd ?h)" by (rule r_into_rtranclp)
  have "inode_top (snd ?h) \<noteq> inode_top sample_db" by code_simp
  then have ne: "snd ?h \<noteq> sample_db" by metis
  have "\<not> isl (GetConfigByID sample_db ''3'' True ''4'')" "projr (GetConfigByID sample_db ''3'' True ''4'') \<noteq> None"
    by code_simp+
  then obtain x where x: "GetConfigByID sample_db ''3'' True ''4'' = Inr (Some x)"
    by (cases "GetConfigByID sample_db ''3'' True ''4''") auto
  have "''4'' \<noteq> ([] :: string)" by simp
  from run_keeps_versions [OF sample_inv run x this] ne run x show ?thesis by blast
qed

end
