(* ===== verification/ApiAuthority.thy ===== *)
theory ApiAuthority
  imports ApiSystem
begin

text \<open>
  Who may change what through \<open>internal/api/server.go\<close>: the authority each write request needs, as
  the specification says it over the abstract tree, the theorem that no request changes the
  database without it, the gap that the gate of \<open>CreateDirectory\<close> leaves, the status a refused
  deletion gets, and the identities a handler can be called with.
\<close>

section \<open>Authority\<close>

definition config_grants :: "db \<Rightarrow> string list \<Rightarrow> Acl \<Rightarrow> string \<Rightarrow> bool" where
  "config_grants s tags a i = (\<exists>r \<in> set (config_table s). parse_int64 i = Some (cr_id r) \<and>
     acls_grant (aclsForOwner Config_acl s (cr_id r)) tags a)"

text \<open>An existing directory may be modified: its ancestors grant READ and it grants WRITE.\<close>

definition directory_modifiable :: "db \<Rightarrow> string list \<Rightarrow> string \<Rightarrow> bool" where
  "directory_modifiable s tags i = (\<exists>r \<in> set (directory_table s). parse_int64 i = Some (dr_id r) \<and>
     path_granted s tags (butlast (row_parts r)) \<and> dir_grants s tags Acl_WRITE (row_parts r))"

text \<open>A directory path may be extended: the longest directory on it that exists grants WRITE.\<close>

definition extendable :: "db \<Rightarrow> string list \<Rightarrow> string list \<Rightarrow> bool" where
  "extendable s tags ps = (deepest_dir s ps = [] \<or> dir_grants s tags Acl_WRITE (deepest_dir s ps))"

fun authorised :: "string list \<Rightarrow> string list \<Rightarrow> request \<Rightarrow> db \<Rightarrow> bool" where
  "authorised allowed tags (SetConfigRequest (Some c)) s =
     ((if c_id c = [] then canCreate allowed tags else config_grants s tags Acl_WRITE (c_id c)) \<and>
      config_path_ok (directory_table s) (c_path c) \<and> path_gate s tags Acl_WRITE (c_path c))"
| "authorised allowed tags (DeleteConfigRequest i) s = config_grants s tags Acl_WRITE i"
| "authorised allowed tags (CreateDirectoryRequest (Some d)) s =
     (canCreate allowed tags \<and> extendable s tags (clean_parts (d_path d)))"
| "authorised allowed tags (UpdateDirectoryRequest (Some d)) s = directory_modifiable s tags (d_id d)"
| "authorised allowed tags (DeleteDirectoryRequest i) s = directory_modifiable s tags i"
| "authorised allowed tags _ s = False"

lemma config_grants_get:
  assumes inv: "store_inv s" and g: "GetConfigByID s i b v = Inr (Some e)" and a: "Config_Allows e tags r"
  shows "config_grants s tags r i"
  using GetConfigByID_Some [OF inv g] a unfolding config_grants_def Config_Allows_def by metis

lemma directory_modifiable_get:
  assumes inv: "store_inv s" and g: "GetDirectoryByID s i = Inr (Some e)" and w: "directoryWritable s e tags"
  shows "directory_modifiable s tags i"
proof -
  obtain r where r: "r \<in> set (directory_table s)" "parse_int64 i = Some (dr_id r)" "e = stored_directory s r"
    using GetDirectoryByID_Some [OF inv g] .
  with w directoryWritable_iff [OF inv r(1)] show ?thesis unfolding directory_modifiable_def by blast
qed

lemma set_config_checks_authorised:
  assumes inv: "store_inv s" and ok: "set_config_checks allowed s tags c = Inr ()"
  shows "authorised allowed tags (SetConfigRequest (Some c)) s"
proof -
  from ok have dir: "snd (containingDirectory s (c_path c))"
      "Directory_Allows (fst (containingDirectory s (c_path c))) tags Acl_WRITE"
    by (auto simp: set_config_checks_def split: sum.splits option.splits if_splits prod.splits)
  from ok have own: "if c_id c = [] then canCreate allowed tags
      else \<exists>e. GetConfigByID s (c_id c) False [] = Inr (Some e) \<and> Config_Allows e tags Acl_WRITE"
    by (auto simp: set_config_checks_def split: sum.splits option.splits if_splits)
  have "config_path_ok (directory_table s) (c_path c)" using dir(1) containingDirectory_spec(1) [OF inv] by simp
  moreover from this have "path_gate s tags Acl_WRITE (c_path c)" using dir(2) containingDirectory_spec(2) [OF inv] by simp
  moreover have "if c_id c = [] then canCreate allowed tags else config_grants s tags Acl_WRITE (c_id c)"
    using own config_grants_get [OF inv] by (auto split: if_splits)
  ultimately show ?thesis by simp
qed

lemma create_directory_authorised:
  assumes inv: "store_inv s" and "canCreate allowed tags"
    and gate: "d_path d = [] \<or> d_path d = ''/'' \<or>
       Directory_Allows (deepestExistingAncestor (fst (DirectoryChain s (d_path d)))) tags Acl_WRITE"
  shows "authorised allowed tags (CreateDirectoryRequest (Some d)) s"
proof -
  have "extendable s tags (clean_parts (d_path d))"
  proof (cases "d_path d = [] \<or> d_path d = ''/''")
    case True
    then have "clean_parts (d_path d) = []" by auto
    then show ?thesis by (simp add: extendable_def)
  next
    case False
    with gate deepest_gate [OF inv, of "d_path d" tags Acl_WRITE] show ?thesis by (simp add: extendable_def)
  qed
  with assms(2) show ?thesis by simp
qed

lemma change_authorised:
  assumes inv: "store_inv s" and run: "handle q allowed tags now req s = (r, s')" and change: "s' \<noteq> s"
  shows "authorised allowed tags req s"
proof -
  have s': "s' = snd (handle q allowed tags now req s)" using run by simp
  show ?thesis
  proof (cases req)
    case (SetConfigRequest c)
    then show ?thesis using SetConfig_state [of allowed tags c now s] s' change set_config_checks_authorised [OF inv]
      by (cases "SetConfig allowed tags c now s") auto
  next
    case (DeleteConfigRequest i)
    then show ?thesis using DeleteConfig_state [of tags i s] s' change config_grants_get [OF inv]
      by (cases "DeleteConfig tags i s") auto
  next
    case (CreateDirectoryRequest d)
    then have "CreateDirectory_handler q allowed tags d s = (fst (CreateDirectory_handler q allowed tags d s), s')"
      using s' by simp
    from CreateDirectory_handler_state [OF this] change obtain x where "d = Some x" "canCreate allowed tags"
      "d_path x = [] \<or> d_path x = ''/'' \<or>
         Directory_Allows (deepestExistingAncestor (fst (DirectoryChain s (d_path x)))) tags Acl_WRITE" by blast
    then show ?thesis using create_directory_authorised [OF inv] CreateDirectoryRequest by metis
  next
    case (UpdateDirectoryRequest d)
    then show ?thesis using UpdateDirectory_handler_state [of q tags d s] s' change directory_modifiable_get [OF inv]
      by (cases "UpdateDirectory_handler q tags d s") auto
  next
    case (DeleteDirectoryRequest i)
    then show ?thesis using DeleteDirectory_handler_state [of q tags i s] s' change directory_modifiable_get [OF inv]
      by (cases "DeleteDirectory_handler q tags i s") auto
  qed (use s' change in auto)
qed



section \<open>The gap in the gate of CreateDirectory\<close>

text \<open>
  The gate looks at the supplied parent path, while the directory is created at parent and name
  together, and a name may hold slashes.  For a name without one the two are the same.
\<close>

lemma go_split_snoc: "c \<notin> set n \<Longrightarrow> go_split c (p @ c # n) = go_split c p @ [n]"
proof (induction p)
  case Nil
  then show ?case by (simp add: str_simps)
next
  case (Cons x p)
  then show ?case by (cases "go_split c p") auto
qed

lemma clean_parts_snoc:
  assumes "CHR ''/'' \<notin> set n" and "trim_space n \<noteq> []"
  shows "clean_parts (p @ ''/'' @ n) = clean_parts p @ [trim_space n]"
  using assms by (simp add: clean_parts_def go_split_snoc)

text \<open>
  For a name without a slash the gate is the right one: a directory is created through the API
  only where the longest existing ancestor of the new directory itself grants WRITE to the caller.
\<close>

theorem create_needs_write_on_ancestor:
  assumes inv: "store_inv s" and name: "CHR ''/'' \<notin> set (trim_space (d_name d))"
    and res: "CreateDirectory_handler q allowed tags (Some d) s = (Inr x, s')"
    and ps: "ps = clean_parts (create_full_path (d_path d) (trim_space (d_name d)))"
  shows "canCreate allowed tags \<and> extendable s tags (butlast ps)"
proof -
  have ok: "trim_space (d_name d) \<noteq> []" "canCreate allowed tags" and
    gate: "d_path d = [] \<or> d_path d = ''/'' \<or>
       Directory_Allows (deepestExistingAncestor (fst (DirectoryChain s (d_path d)))) tags Acl_WRITE"
    using res by (auto simp: CreateDirectory_handler_def split: if_splits)
  from create_directory_authorised [OF inv ok(2) gate] have ext: "extendable s tags (clean_parts (d_path d))" by simp
  obtain y where "CreateDirectory d s = (Inr y, s')"
    using res by (auto simp: CreateDirectory_handler_def split: if_splits sum.splits prod.splits)
  let ?n = "trim_space (d_name d)"
  have n: "trim_space ?n = ?n" by (rule trim_space_idem)
  have "clean_parts (create_full_path (d_path d) ?n) = clean_parts (d_path d) @ [?n]"
  proof (cases "d_path d = [] \<or> d_path d = ''/''")
    case True
    then have "create_full_path (d_path d) ?n = [] @ ''/'' @ ?n" by (auto simp: create_full_path_def)
    then have "clean_parts (create_full_path (d_path d) ?n) = [?n]"
      using clean_parts_snoc [of ?n "[]"] name ok(1) n by simp
    moreover have "clean_parts (d_path d) = []" using True by auto
    ultimately show ?thesis by simp
  next
    case False
    then have "create_full_path (d_path d) ?n = d_path d @ ''/'' @ ?n" by (simp add: create_full_path_def)
    then show ?thesis using clean_parts_snoc [of ?n "d_path d"] name ok(1) n by simp
  qed
  then have "butlast ps = clean_parts (d_path d)" by (simp add: ps)
  with ext ok(2) show ?thesis by simp
qed

theorem create_needs_write_on_ancestor_witness:
  "\<exists>x s'. CreateDirectory_handler (\<lambda>x. x) [] [''tag:ops''] (Some (Directory [] ''new'' ''/team'' [] [] [])) sample_db = (Inr x, s') \<and>
     canCreate [] [''tag:ops''] \<and>
     extendable sample_db [''tag:ops''] (butlast (clean_parts (create_full_path ''/team'' (trim_space ''new''))))"
proof -
  let ?d = "Directory [] ''new'' ''/team'' [] [] []"
  let ?h = "CreateDirectory_handler (\<lambda>x. x) [] [''tag:ops''] (Some ?d) sample_db"
  have "\<not> isl (fst ?h)" by code_simp
  then obtain x s' where r: "?h = (Inr x, s')" using result_pair [of ?h] by blast
  have n: "CHR ''/'' \<notin> set (trim_space (d_name ?d))" by code_simp
  from create_needs_write_on_ancestor [OF sample_inv n r refl] r show ?thesis by simp
qed

text \<open>
  With a slash in the name the gate can be walked around: in the sample database \<open>/team\<close> may be
  written by \<open>tag:ops\<close> alone, yet a caller with no identity creates \<open>/team/hidden\<close> by asking for the
  name \<open>team/hidden\<close> under the root.
\<close>

theorem create_gate_bypass:
  "\<not> extendable sample_db [] [''team''] \<and>
   (\<exists>x s'. CreateDirectory_handler (\<lambda>x. x) [] [] (Some (Directory [] ''team/hidden'' ''/'' [] [] [])) sample_db = (Inr x, s') \<and>
      dir_tree s' [''team'', ''hidden''] = Some [])"
proof -
  let ?h = "CreateDirectory_handler (\<lambda>x. x) [] [] (Some (Directory [] ''team/hidden'' ''/'' [] [] [])) sample_db"
  have "\<not> isl (fst ?h)" "dir_tree (snd ?h) [''team'', ''hidden''] = Some []" by code_simp+
  moreover have "\<not> extendable sample_db [] [''team'']" by code_simp
  ultimately show ?thesis using result_pair [of ?h] by (metis snd_conv)
qed

end
