(* ===== verification/ApiOutcomes.thy ===== *)
theory ApiOutcomes
  imports ApiAuthority
begin

text \<open>
  What refused requests of \<open>internal/api/server.go\<close> answer, where the store refuses more than it
  means to, and which identities a handler can be called with behind the two interceptors.
\<close>

section \<open>Deleting a directory\<close>

lemma not_empty_text:
  "contains_str (error_text q (DirectoryHasSubdirectories p n)) ''not empty''"
  "contains_str (error_text q (DirectoryHasConfigs p n)) ''not empty''"
proof -
  have "contains_str (''directory '' @ q p @ '' is not empty: it contains '' @ rest) ''not empty''" for rest
    unfolding contains_str_def sublist_def
    by (intro exI [of _ "''directory '' @ q p @ '' is ''"] exI [of _ "'': it contains '' @ rest"]) simp
  then show "contains_str (error_text q (DirectoryHasSubdirectories p n)) ''not empty''"
    "contains_str (error_text q (DirectoryHasConfigs p n)) ''not empty''" by simp_all
qed

lemma DeleteDirectory_eq:
  assumes inv: "store_inv s" and r: "r \<in> set (directory_table s)" and i: "parse_int64 i = Some (dr_id r)"
  shows "DeleteDirectory i s =
    (let full = abs_path (row_parts r); subs = count_child_directories s (dr_id r); cs = count_child_configs s full
     in if 0 < subs then (Inl (DirectoryHasSubdirectories full subs), s)
        else if 0 < cs then (Inl (DirectoryHasConfigs full cs), s)
        else (Inr (), remove_directory (dr_id r) s))"
proof -
  note ok = store_inv_dirs [OF inv]
  have "GetDirectoryByID s i = Inr (Some (stored_directory s r))"
    using i r find_dr_id [OF ok, of "dr_id r" r] by (simp add: GetDirectoryByID_def stored_directory_def)
  then show ?thesis
    using i stored_directory_full_path [OF ok r]
    by (auto simp: DeleteDirectory_def with_tx_def delete_directory_body_def tx_bind_def tx_lift_def tx_get_def
        tx_fail_def tx_put_def Let_def remove_directory_def row_simps)
qed

text \<open>
  What the API answers to a caller who may delete an existing directory: FailedPrecondition and
  an unchanged database when it has a subdirectory, FailedPrecondition when the counting query finds
  a config, and otherwise success with exactly that directory gone from the tree.
\<close>

theorem delete_directory_status:
  assumes inv: "store_inv s" and r: "r \<in> set (directory_table s)" and i: "parse_int64 i = Some (dr_id r)"
    and may: "directory_modifiable s tags i"
  shows "\<exists>res s'. DeleteDirectory_handler q tags i s = (res, s') \<and>
    (if \<exists>n. dir_tree s (row_parts r @ [n]) \<noteq> None
     then s' = s \<and> (\<exists>e. res = Inl (Status FailedPrecondition (Some e)))
     else if \<exists>c \<in> set (config_table s). cr_path c = abs_path (row_parts r) \<or> sql_like (abs_path (row_parts r) @ ''/%'') (cr_path c)
     then s' = s \<and> (\<exists>e. res = Inl (Status FailedPrecondition (Some e)))
     else res = Inr () \<and> dir_tree s' = (dir_tree s)(row_parts r := None))"
proof -
  note ok = store_inv_dirs [OF inv]
  have get: "GetDirectoryByID s i = Inr (Some (stored_directory s r))"
    using i r find_dr_id [OF ok, of "dr_id r" r] by (simp add: GetDirectoryByID_def stored_directory_def)
  obtain x where "x \<in> set (directory_table s)" "dr_id x = dr_id r"
    "path_granted s tags (butlast (row_parts x))" "dir_grants s tags Acl_WRITE (row_parts x)"
    using may i by (auto simp: directory_modifiable_def)
  moreover from this have "x = r" using dr_id_unique [OF ok _ r] by simp
  ultimately have w: "directoryWritable s (stored_directory s r) tags" using directoryWritable_iff [OF inv r] by simp
  have "i \<noteq> []" using i by auto
  then have h: "DeleteDirectory_handler q tags i s = (case DeleteDirectory i s of
      (Inl e, s') \<Rightarrow> (Inl (store_failure (if contains_str (error_text q e) ''not empty'' then FailedPrecondition else Internal) e), s')
    | (Inr _, s') \<Rightarrow> (Inr (), s'))"
    using get w by (simp add: DeleteDirectory_handler_def)
  have subs: "(\<exists>n. dir_tree s (row_parts r @ [n]) \<noteq> None) \<longleftrightarrow> 0 < count_child_directories s (dr_id r)"
    using count_child_directories_pos [OF ok r] by simp
  have cfgs: "(\<exists>c \<in> set (config_table s). cr_path c = abs_path (row_parts r) \<or> sql_like (abs_path (row_parts r) @ ''/%'') (cr_path c))
      \<longleftrightarrow> 0 < count_child_configs s (abs_path (row_parts r))"
    by (auto simp: count_child_configs_def filter_empty_conv)
  show ?thesis
    unfolding subs cfgs h DeleteDirectory_eq [OF inv r i] Let_def
    using remove_directory_tree [OF inv r] not_empty_text by (simp add: store_failure_def)
qed

theorem delete_directory_status_witness:
  "\<exists>s'. DeleteDirectory_handler (\<lambda>x. x) [''tag:ops''] ''1'' sample_db = (Inl (Status FailedPrecondition
     (Some (DirectoryHasSubdirectories ''/team'' 1))), s') \<and> s' = sample_db"
proof -
  let ?r = "directory_table sample_db ! 0"
  have r: "?r \<in> set (directory_table sample_db)" by (simp add: sample_db_def)
  have i: "parse_int64 ''1'' = Some (dr_id ?r)" "directory_modifiable sample_db [''tag:ops''] ''1''"
    "dir_tree sample_db (row_parts ?r @ [''docs'']) \<noteq> None" by code_simp+
  then have "\<exists>n. dir_tree sample_db (row_parts ?r @ [n]) \<noteq> None" by blast
  with delete_directory_status [OF sample_inv r i(1,2), of "\<lambda>x. x"] have
    "snd (DeleteDirectory_handler (\<lambda>x. x) [''tag:ops''] ''1'' sample_db) = sample_db"
    by (metis (mono_tags, lifting) snd_conv)
  moreover have "fst (DeleteDirectory_handler (\<lambda>x. x) [''tag:ops''] ''1'' sample_db) =
    Inl (Status FailedPrecondition (Some (DirectoryHasSubdirectories ''/team'' 1)))" by code_simp
  ultimately show ?thesis by (metis prod.collapse)
qed

section \<open>Where the store refuses or accepts more than it means to\<close>

text \<open>Directories \<open>/a_b\<close> and \<open>/axb/c\<close>, and a config in the latter.\<close>

definition wildcard_db :: db where
  "wildcard_db = \<lparr>inode_top = 5,
     config_table = [\<lparr>cr_id = 4, cr_name = ''app'', cr_path = ''/axb/c'',
       cr_current_content_id = Some 5, cr_created_at = 1, cr_updated_at = 1\<rparr>],
     config_content_table = [\<lparr>cc_id = 5, cc_config_id = 4, cc_content = [], cc_content_size = 0,
       cc_created_at = 1, cc_updated_at = 1\<rparr>],
     directory_table = [\<lparr>dr_id = 1, dr_name = ''a_b'', dr_path = ''/'', dr_parent_id = None\<rparr>,
       \<lparr>dr_id = 2, dr_name = ''axb'', dr_path = ''/'', dr_parent_id = None\<rparr>,
       \<lparr>dr_id = 3, dr_name = ''c'', dr_path = ''/axb'', dr_parent_id = Some 2\<rparr>],
     config_acl_table = [], directory_acl_table = []\<rparr>"

text \<open>
  The emptiness check of \<open>DeleteDirectory\<close> does not escape the wildcards of LIKE: in a
  well-formed database the directory \<open>/a_b\<close> has no subdirectory and no config at or below it, yet
  its deletion is refused because of a config in \<open>/axb/c\<close>.
\<close>

theorem delete_directory_false_refusal:
  "store_inv wildcard_db \<and> dir_tree wildcard_db [''a_b''] \<noteq> None \<and>
   (\<forall>n. dir_tree wildcard_db [''a_b'', n] = None) \<and>
   list_all (\<lambda>c. \<not> prefix ''/a_b'' (cr_path c)) (config_table wildcard_db) \<and>
   DeleteDirectory ''1'' wildcard_db = (Inl (DirectoryHasConfigs ''/a_b'' 1), wildcard_db)"
proof (intro conjI allI)
  show "store_inv wildcard_db" "dir_tree wildcard_db [''a_b''] \<noteq> None"
    "list_all (\<lambda>c. \<not> prefix ''/a_b'' (cr_path c)) (config_table wildcard_db)" by code_simp+
  have "row_parts ` set (directory_table wildcard_db) = {[''a_b''], [''axb''], [''axb'', ''c'']}" by code_simp
  then show "dir_tree wildcard_db [''a_b'', n] = None" for n by (simp add: dir_tree_None)
  have "fst (DeleteDirectory ''1'' wildcard_db) = Inl (DirectoryHasConfigs ''/a_b'' 1)" by code_simp
  moreover from this have "snd (DeleteDirectory ''1'' wildcard_db) = wildcard_db"
    by (metis DeleteDirectory_error_state prod.collapse)
  ultimately show "DeleteDirectory ''1'' wildcard_db = (Inl (DirectoryHasConfigs ''/a_b'' 1), wildcard_db)"
    by (metis prod.collapse)
qed

definition root_config :: "string \<Rightarrow> config" where
  "root_config path = \<lparr>c_id = [], c_name = ''app'', c_content = Some [], c_content_size = 0,
     c_path = path, c_acls = [\<lparr>acl_level = Acl_READ, acl_tag = [], acl_everyone = True\<rparr>],
     c_created_at = None, c_updated_at = None, c_current_content_id = []\<rparr>"

text \<open>
  The uniqueness check of \<open>Upsert\<close> compares path strings, but the root has two: after creating
  \<open>app\<close> at the empty path and again at a slash, both succeed and the root of the tree holds two
  configs of the same name.
\<close>

theorem root_name_not_unique:
  "\<exists>a s b t tree. Upsert (root_config []) 1 empty_db = (Inr a, s) \<and> Upsert (root_config ''/'') 2 s = (Inr b, t) \<and>
     TreeForACLTags t [] [] = Inr tree \<and> map c_name (d_configs tree) = [''app'', ''app'']"
proof -
  let ?s = "snd (Upsert (root_config []) 1 empty_db)"
  let ?t = "snd (Upsert (root_config ''/'') 2 ?s)"
  have "\<not> isl (fst (Upsert (root_config []) 1 empty_db))" "\<not> isl (fst (Upsert (root_config ''/'') 2 ?s))"
    "\<not> isl (TreeForACLTags ?t [] [])" "map c_name (d_configs (projr (TreeForACLTags ?t [] []))) = [''app'', ''app'']"
    by code_simp+
  moreover from this(3) obtain tree where "TreeForACLTags ?t [] [] = Inr tree" by (cases "TreeForACLTags ?t [] []") auto
  ultimately show ?thesis
    using result_pair [of "Upsert (root_config []) 1 empty_db"] result_pair [of "Upsert (root_config ''/'') 2 ?s"]
    by (metis snd_conv sum.sel(2))
qed

section \<open>Identities\<close>

text \<open>
  What the code relies on of gRPC metadata: incoming keys are lower-case, a context built from
  metadata with lower-case keys reads back what it was given, a context without metadata reads
  empty.
\<close>

definition lower_key :: "string \<Rightarrow> bool" where
  "lower_key k = list_all (\<lambda>c. lower_char c = c) k"

definition metadata_laws ::
    "('ctx \<Rightarrow> md option) \<Rightarrow> ('ctx \<Rightarrow> md \<Rightarrow> 'ctx) \<Rightarrow> ('ctx \<Rightarrow> string \<Rightarrow> string list) \<Rightarrow> bool" where
  "metadata_laws from_incoming new_incoming value_from_incoming \<longleftrightarrow>
     (\<forall>ctx md k. from_incoming ctx = Some md \<longrightarrow> md k \<noteq> None \<longrightarrow> lower_key k) \<and>
     (\<forall>ctx md k. (\<forall>j. md j \<noteq> None \<longrightarrow> lower_key j) \<longrightarrow> lower_key k \<longrightarrow>
        value_from_incoming (new_incoming ctx md) k = (case md k of None \<Rightarrow> [] | Some v \<Rightarrow> v)) \<and>
     (\<forall>ctx k. from_incoming ctx = None \<longrightarrow> value_from_incoming ctx k = [])"

lemma acl_tags_lower: "lower_key ''acl_tags''"
  by code_simp

lemma metadata_override:
  assumes laws: "metadata_laws from_incoming new_incoming value_from_incoming" and ctx: "from_incoming ctx = Some md"
  shows "aclTags value_from_incoming (new_incoming ctx (md(''acl_tags'' := x))) = (case x of None \<Rightarrow> [] | Some v \<Rightarrow> v)"
proof -
  have law: "value_from_incoming (new_incoming ctx md') k = (case md' k of None \<Rightarrow> [] | Some v \<Rightarrow> v)"
    if "\<forall>j. md' j \<noteq> None \<longrightarrow> lower_key j" "lower_key k" for md' k
    using laws that unfolding metadata_laws_def by blast
  have "lower_key j" if "md j \<noteq> None" for j using laws ctx that unfolding metadata_laws_def by blast
  then have "\<forall>j. (md(''acl_tags'' := x)) j \<noteq> None \<longrightarrow> lower_key j" using acl_tags_lower by simp
  from law [of "md(''acl_tags'' := x)", OF this acl_tags_lower] show ?thesis
    unfolding aclTags_def fun_upd_same .
qed

text \<open>
  Behind \<open>TailscaleAuthenticationInterceptor\<close> a handler sees the identities of the peer and
  nothing else: whatever \<open>acl_tags\<close> the client sent, a request that reaches a handler carries
  exactly the tags or the user that Tailscale reports for the peer's address.
\<close>

lemma tailscale_identities:
  assumes laws: "metadata_laws from_incoming new_incoming value_from_incoming"
    and res: "TailscaleAuthenticationInterceptor whois peer from_incoming new_incoming handler ctx = Inr r"
  shows "\<exists>addr resp ctx'. peer ctx = Some addr \<and> whois addr = Some resp \<and> handler ctx' = Inr r \<and>
    aclTags value_from_incoming ctx' = identitiesFromWhoIs resp"
proof -
  from res obtain addr resp md where c: "peer ctx = Some addr" "whois addr = Some resp" "from_incoming ctx = Some md"
    and h: "handler (new_incoming ctx (md(''acl_tags'' \<mapsto> identitiesFromWhoIs resp))) = Inr r"
    by (auto simp: TailscaleAuthenticationInterceptor_def split: option.splits)
  from metadata_override [OF laws c(3), of "Some (identitiesFromWhoIs resp)"]
  have "aclTags value_from_incoming (new_incoming ctx (md(''acl_tags'' \<mapsto> identitiesFromWhoIs resp))) = identitiesFromWhoIs resp"
    by simp
  with c(1,2) h show ?thesis by (intro exI conjI)
qed

text \<open>Concrete metadata functions that satisfy the laws: a context is the metadata it carries.\<close>

definition demo_from :: "md option \<Rightarrow> md option" where
  "demo_from ctx = map_option (\<lambda>md k. if lower_key k then md k else None) ctx"

definition demo_value :: "md option \<Rightarrow> string \<Rightarrow> string list" where
  "demo_value ctx k = (case ctx of None \<Rightarrow> [] | Some md \<Rightarrow> (case md k of None \<Rightarrow> [] | Some v \<Rightarrow> v))"

lemma demo_laws: "metadata_laws demo_from (\<lambda>_. Some) demo_value"
  by (auto simp: metadata_laws_def demo_from_def demo_value_def split: if_splits)

text \<open>
  Behind \<open>StripACLTagsInterceptor\<close> a caller has no identity, so \<open>GetConfig\<close> returns a config
  only when an entry for everyone grants READ on it, whatever tags the client claims.
\<close>

lemma stripped_reads_need_everyone:
  assumes laws: "metadata_laws from_incoming new_incoming value_from_incoming"
    and res: "StripACLTagsInterceptor from_incoming new_incoming
      (\<lambda>ctx. GetConfig s (aclTags value_from_incoming ctx) i v) ctx = Inr c"
  shows "\<exists>acl \<in> set (c_acls c). acl_everyone acl \<and> aclGrants (acl_level acl) Acl_READ"
proof -
  have "GetConfig s [] i v = Inr c"
  proof (cases "from_incoming ctx")
    case None
    with laws have "aclTags value_from_incoming ctx = []" by (simp add: metadata_laws_def aclTags_def)
    with None res show ?thesis by (simp add: StripACLTagsInterceptor_def)
  next
    case (Some md)
    with metadata_override [OF laws Some, of None] res show ?thesis by (simp add: StripACLTagsInterceptor_def)
  qed
  then have "Config_Allows c [] Acl_READ"
    by (auto simp: GetConfig_def split: if_splits sum.splits option.splits)
  then show ?thesis by (auto simp: Config_Allows_def acls_grant_iff acl_matches_def)
qed

lemma stripped_reads_need_everyone_witness:
  "\<exists>c. GetConfig (snd (Upsert (root_config []) 1 empty_db)) [] ''1'' None = Inr c \<and>
     (\<exists>acl \<in> set (c_acls c). acl_everyone acl)"
proof -
  let ?s = "snd (Upsert (root_config []) 1 empty_db)"
  let ?ctx = "Some [''acl_tags'' \<mapsto> [''tag:admin'']] :: md option"
  have "\<not> isl (GetConfig ?s [] ''1'' None)" by code_simp
  then obtain c where c: "GetConfig ?s [] ''1'' None = Inr c" by (cases "GetConfig ?s [] ''1'' None") auto
  then have "StripACLTagsInterceptor demo_from (\<lambda>_. Some) (\<lambda>ctx. GetConfig ?s (aclTags demo_value ctx) ''1'' None) ?ctx = Inr c"
    by (simp add: StripACLTagsInterceptor_def demo_from_def aclTags_def demo_value_def acl_tags_lower)
  from stripped_reads_need_everyone [OF demo_laws this] c show ?thesis by blast
qed

end
