(* ===== verification/Client.thy ===== *)
theory Client
  imports ApiOutcomes
begin

text \<open>
  The service as its clients see it (\<open>types.ConfigFSServerClient\<close>, used by \<open>internal/fs/fs.go\<close> and
  \<open>cmd/pulumi/main.go\<close>): one call per method of the service, each of which may fail, and the laws
  the clients rest on.  The handlers of \<open>internal/api/server.go\<close>, called with the tags of one
  caller, satisfy the laws.
\<close>

section \<open>Effects that are not rolled back\<close>

text \<open>A client call may fail and still have changed the world.\<close>

named_theorems io_simps

type_synonym ('w, 'e, 'a) io = "'w \<Rightarrow> ('e + 'a) \<times> 'w"

definition io_return :: "'a \<Rightarrow> ('w, 'e, 'a) io" where
  "io_return a = (\<lambda>w. (Inr a, w))"

definition io_fail :: "'e \<Rightarrow> ('w, 'e, 'a) io" where
  "io_fail e = (\<lambda>w. (Inl e, w))"

definition io_bind :: "('w, 'e, 'a) io \<Rightarrow> ('a \<Rightarrow> ('w, 'e, 'b) io) \<Rightarrow> ('w, 'e, 'b) io" where
  "io_bind m f = (\<lambda>w. case m w of (Inl e, w') \<Rightarrow> (Inl e, w') | (Inr a, w') \<Rightarrow> f a w')"

lemma io_return_apply [io_simps]: "io_return a w = (Inr a, w)"
  by (simp add: io_return_def)

lemma io_fail_apply [io_simps]: "io_fail e w = (Inl e, w)"
  by (simp add: io_fail_def)

lemma io_bind_Inr [io_simps]:
  "io_bind m f w = (Inr b, w'') \<longleftrightarrow> (\<exists>a w'. m w = (Inr a, w') \<and> f a w' = (Inr b, w''))"
  by (auto simp: io_bind_def split: prod.splits sum.splits)

lemma io_bind_Inl [io_simps]:
  "io_bind m f w = (Inl e, w'') \<longleftrightarrow>
     m w = (Inl e, w'') \<or> (\<exists>a w'. m w = (Inr a, w') \<and> f a w' = (Inl e, w''))"
  by (auto simp: io_bind_def split: prod.splits sum.splits)

lemma io_bind_step: "m w = (Inr a, w') \<Longrightarrow> io_bind m f w = f a w'"
  by (simp add: io_bind_def)

lemma io_bind_stop: "m w = (Inl e, w') \<Longrightarrow> io_bind m f w = (Inl e, w')"
  by (simp add: io_bind_def)

section \<open>The client\<close>

text \<open>What a failed call tells the client: the status code, or a failure below the service.\<close>

datatype rpc_error = RpcStatus code | RpcOther

text \<open>
  The methods as functions of the request's fields and the server's state \<open>'s\<close>.  A message field
  of a response may be absent (a nil pointer).
\<close>

record 's client =
  rpc_List :: "string \<Rightarrow> ('s, rpc_error, directory option) io"
  rpc_GetConfig :: "string \<Rightarrow> string option \<Rightarrow> ('s, rpc_error, config option) io"
  rpc_SetConfig :: "config \<Rightarrow> ('s, rpc_error, config option) io"
  rpc_DeleteConfig :: "string \<Rightarrow> ('s, rpc_error, unit) io"
  rpc_CreateDirectory :: "directory \<Rightarrow> ('s, rpc_error, directory option) io"
  rpc_GetDirectory :: "string \<Rightarrow> ('s, rpc_error, directory option) io"
  rpc_UpdateDirectory :: "directory \<Rightarrow> ('s, rpc_error, directory option) io"
  rpc_DeleteDirectory :: "string \<Rightarrow> ('s, rpc_error, unit) io"

section \<open>The service behind a client\<close>

fun rpc_error_of :: "api_error \<Rightarrow> rpc_error" where
  "rpc_error_of (Status c e) = RpcStatus c"
| "rpc_error_of Panicked = RpcOther"

definition over_rpc :: "('a \<Rightarrow> 'b) \<Rightarrow> (api_error + 'a) \<times> db \<Rightarrow> (rpc_error + 'b) \<times> db" where
  "over_rpc f p = (case p of (Inl e, s) \<Rightarrow> (Inl (rpc_error_of e), s) | (Inr a, s) \<Rightarrow> (Inr (f a), s))"

definition api_client :: "(string \<Rightarrow> string) \<Rightarrow> string list \<Rightarrow> string list \<Rightarrow> int \<Rightarrow> db client" where
  "api_client q allowed tags now = \<lparr>
     rpc_List = (\<lambda>i s. over_rpc id (List_tree s tags i, s)),
     rpc_GetConfig = (\<lambda>i v s. over_rpc Some (GetConfig s tags i v, s)),
     rpc_SetConfig = (\<lambda>c s. over_rpc id (SetConfig allowed tags (Some c) now s)),
     rpc_DeleteConfig = (\<lambda>i s. over_rpc id (DeleteConfig tags i s)),
     rpc_CreateDirectory = (\<lambda>d s. over_rpc id (CreateDirectory_handler q allowed tags (Some d) s)),
     rpc_GetDirectory = (\<lambda>i s. over_rpc Some (GetDirectory s tags i, s)),
     rpc_UpdateDirectory = (\<lambda>d s. over_rpc id (UpdateDirectory_handler q tags (Some d) s)),
     rpc_DeleteDirectory = (\<lambda>i s. over_rpc id (DeleteDirectory_handler q tags i s))\<rparr>"

lemma over_rpc_Inr [io_simps]: "over_rpc f p = (Inr b, s) \<longleftrightarrow> (\<exists>a. p = (Inr a, s) \<and> b = f a)"
  by (auto simp: over_rpc_def split: prod.splits sum.splits)

lemma over_rpc_Inl [io_simps]: "over_rpc f p = (Inl x, s) \<longleftrightarrow> (\<exists>e. p = (Inl e, s) \<and> x = rpc_error_of e)"
  by (auto simp: over_rpc_def split: prod.splits sum.splits)

lemma over_rpc_state [simp]: "snd (over_rpc f p) = snd p"
  by (cases p; cases "fst p") (auto simp: over_rpc_def)

section \<open>The laws\<close>

text \<open>
  What a client relies on: reads change nothing, writes keep the service sound, and a config that
  was read, given new content and written back is read with that content, while what other ids
  read stays as it was.
\<close>

locale config_service =
  fixes cl :: "'s client" and sound :: "'s \<Rightarrow> bool"
  assumes list_pure: "rpc_List cl i s = (r, s') \<Longrightarrow> s' = s"
    and get_pure: "rpc_GetConfig cl i v s = (g, s') \<Longrightarrow> s' = s"
    and set_sound: "sound s \<Longrightarrow> rpc_SetConfig cl c s = (t, s') \<Longrightarrow> sound s'"
    and get_after_set: "sound s \<Longrightarrow> rpc_GetConfig cl i None s = (Inr (Some c), s) \<Longrightarrow>
       rpc_SetConfig cl (c\<lparr>c_content := Some b, c_content_size := n\<rparr>) s = (Inr x, s') \<Longrightarrow>
       \<exists>d. rpc_GetConfig cl i None s' = (Inr (Some d), s') \<and> c_content d = Some b \<and> c_content_size d = n \<and>
         c_id d = c_id c \<and> c_name d = c_name c \<and> c_path d = c_path c"
    and get_frame: "sound s \<Longrightarrow> rpc_GetConfig cl i None s = (Inr (Some c), s) \<Longrightarrow>
       rpc_SetConfig cl (c\<lparr>c_content := Some b, c_content_size := n\<rparr>) s = (Inr x, s') \<Longrightarrow>
       rpc_GetConfig cl j v s = (Inr (Some e), s) \<Longrightarrow> c_id e \<noteq> c_id c \<Longrightarrow>
       rpc_GetConfig cl j v s' = (Inr (Some e), s')"
begin

lemma set_error_or_read:
  assumes "sound s" "rpc_GetConfig cl i None s = (Inr (Some c), s)"
    "rpc_SetConfig cl (c\<lparr>c_content := Some b, c_content_size := n\<rparr>) s = (r, s')"
  shows "(\<exists>e. r = Inl e) \<or> (\<exists>d. rpc_GetConfig cl i None s' = (Inr (Some d), s') \<and> c_content d = Some b)"
  using get_after_set [OF assms(1,2)] assms(3) by (cases r) blast+

end

section \<open>The handlers satisfy the laws\<close>

lemma config_visible_tree:
  assumes "dir_tree s' = dir_tree s" and "path_granted s tags ps"
  shows "path_granted s' tags ps"
  using assms by (simp add: path_granted_def dir_grants_def)

lemma SetConfig_Inr:
  assumes "SetConfig allowed tags (Some c) now s = (Inr x, s')"
  shows "Upsert c now s = (Inr x, s')"
  using assms by (auto simp: SetConfig_def split: sum.splits prod.splits)

lemma Upsert_reads_id:
  assumes inv: "store_inv s" and res: "Upsert c now s = (Inr d, s')" and id: "parse_int64 (c_id c) = Some n"
  shows "\<exists>x. d = Some x \<and> parse_int64 (c_id x) = Some n"
proof -
  have inv': "store_inv s'" using Upsert_inv [OF inv res] .
  obtain r v b sz where r: "r \<in> set (config_table s')" "cr_current_content_id r = Some v"
    "version_content s' (cr_id r) v = Some (b, sz)" "GetConfigByID s' (show_int (cr_id r)) False [] = Inr d"
    "if c_id c = [] then cr_id r \<notin> cr_id ` set (config_table s) else parse_int64 (c_id c) = Some (cr_id r)"
    using Upsert_row [OF inv res] by metis
  have "c_id c \<noteq> []" using id by auto
  then have "cr_id r = n" using r(5) id by simp
  moreover have "d = Some (stored_config s' r)" using readback_row(2) [OF inv' r(1-3)] r(4) by simp
  ultimately show ?thesis using parse_cr_id [OF inv' r(1)] by (simp add: stored_config_def)
qed

lemma set_then_get:
  assumes inv: "store_inv s" and get: "GetConfig s tags i None = Inr c"
    and set: "SetConfig allowed tags (Some (c\<lparr>c_content := Some b, c_content_size := n\<rparr>)) now s = (Inr x, s')"
  shows "\<exists>d. GetConfig s' tags i None = Inr d \<and> c_content d = Some b \<and> c_content_size d = n \<and>
    c_id d = c_id c \<and> c_name d = c_name c \<and> c_path d = c_path c"
proof -
  let ?c = "c\<lparr>c_content := Some b, c_content_size := n\<rparr>"
  obtain r where r: "r \<in> set (config_table s)" "parse_int64 i = Some (cr_id r)" "config_visible s tags r"
    and g: "GetConfigByID s i True [] = Inr (Some c)"
    using get GetConfig_Inr [OF inv, of tags i None c] by (auto simp: version_string_def)
  obtain r' where r': "r' \<in> set (config_table s)" "parse_int64 i = Some (cr_id r')" "c_id c = show_int (cr_id r')"
    "c_name c = cr_name r'" "c_path c = cr_path r'" "c_acls c = aclsForOwner Config_acl s (cr_id r')"
    using GetConfigByID_Some [OF inv g] .
  have same: "r' = r" using r(1,2) r'(1,2) cr_id_unique [OF inv] by simp
  have up: "Upsert ?c now s = (Inr x, s')" using SetConfig_Inr [OF set] .
  have inv': "store_inv s'" using Upsert_inv [OF inv up] .
  have pc: "parse_int64 (c_id c) = Some (cr_id r)" using parse_cr_id [OF inv r(1)] r'(3) same by simp
  then have ne: "c_id ?c \<noteq> []" by auto
  obtain y v b' sz where y: "y \<in> set (config_table s')" "cr_name y = c_name ?c" "cr_path y = c_path ?c"
    "aclsForOwner Config_acl s' (cr_id y) = filter recognised (c_acls ?c)"
    and v: "cr_current_content_id y = Some v" "version_content s' (cr_id y) v = Some (b', sz)"
    "c_content ?c \<noteq> None \<longrightarrow> c_content ?c = Some b' \<and> sz = c_content_size ?c"
    and iy: "if c_id ?c = [] then cr_id y \<notin> cr_id ` set (config_table s) else parse_int64 (c_id ?c) = Some (cr_id y)"
    using Upsert_row [OF inv up] by metis
  have id: "cr_id y = cr_id r" using iy ne pc by simp
  have tree: "dir_tree s' = dir_tree s" by (rule Upsert_success_cases [OF inv up]) (simp_all add: config_writes_tree)
  have "path_granted s tags (clean_parts (cr_path r))" using r(3) by (simp add: config_visible_def)
  from config_visible_tree [OF tree this] have vis: "config_visible s' tags y"
    using r(3) y(3,4) r'(5,6) same by (simp add: config_visible_def acls_grant_recognised)
  let ?d = "(stored_config s' y)\<lparr>c_content := Some b, c_content_size := n\<rparr>"
  have iy': "parse_int64 i = Some (cr_id y)" using r(2) id by simp
  have "GetConfigByID s' i True [] = Inr (Some ?d)"
    using GetConfigByID_current [OF inv' y(1) iy' v(1)] v(2,3) by simp
  then have "GetConfig s' tags i None = Inr ?d"
    using GetConfig_Inr [OF inv', of tags i None ?d] y(1) iy' vis by (auto simp: version_string_def)
  then show ?thesis using y(2,3) r'(3,4,5) same id by (intro exI [of _ ?d]) (simp add: stored_config_def)
qed

lemma set_keeps_others:
  assumes inv: "store_inv s" and get: "GetConfig s tags i None = Inr c"
    and set: "SetConfig allowed tags (Some (c\<lparr>c_content := Some b, c_content_size := n\<rparr>)) now s = (Inr x, s')"
    and other: "GetConfig s tags j v = Inr e" "c_id e \<noteq> c_id c"
  shows "GetConfig s' tags j v = Inr e"
proof -
  let ?c = "c\<lparr>c_content := Some b, c_content_size := n\<rparr>"
  have up: "Upsert ?c now s = (Inr x, s')" using SetConfig_Inr [OF set] .
  have inv': "store_inv s'" using Upsert_inv [OF inv up] .
  have g: "GetConfigByID s i True [] = Inr (Some c)"
    using get GetConfig_Inr [OF inv, of tags i None c] by (auto simp: version_string_def)
  obtain r where r: "r \<in> set (config_table s)" "c_id c = show_int (cr_id r)"
    using GetConfigByID_Some [OF inv g] by metis
  obtain y where y: "y \<in> set (config_table s)" "parse_int64 j = Some (cr_id y)" "config_visible s tags y"
    and ge: "GetConfigByID s j True (version_string v) = Inr (Some e)"
    using other(1) GetConfig_Inr [OF inv, of tags j v e] by auto
  obtain y' where y': "y' \<in> set (config_table s)" "parse_int64 j = Some (cr_id y')" "c_id e = show_int (cr_id y')"
    "c_path e = cr_path y'" "c_acls e = aclsForOwner Config_acl s (cr_id y')"
    using GetConfigByID_Some [OF inv ge] by metis
  have "y' = y" using y(1,2) y'(1,2) cr_id_unique [OF inv] by simp
  then have ne: "cr_id y \<noteq> cr_id r" using other(2) r(2) y'(3) by auto
  have "parse_int64 (c_id ?c) = Some (cr_id r)" using parse_cr_id [OF inv r(1)] r(2) by simp
  from Upsert_reads_id [OF inv up this] obtain z where z: "x = Some z" "parse_int64 (c_id z) = Some (cr_id r)" by blast
  have "parse_int64 j \<noteq> parse_int64 (c_id z)" using y(2) z(2) ne by simp
  from Upsert_frame [OF inv up [unfolded z(1)] this]
  have same: "GetConfigByID s' j b v = GetConfigByID s j b v" "dir_tree s' = dir_tree s" for b v by blast+
  have ge': "GetConfigByID s' j True (version_string v) = Inr (Some e)" using same(1) ge by simp
  obtain w where w: "w \<in> set (config_table s')" "parse_int64 j = Some (cr_id w)"
    "c_path e = cr_path w" "c_acls e = aclsForOwner Config_acl s' (cr_id w)"
    using GetConfigByID_Some [OF inv' ge'] by metis
  have "path_granted s tags (clean_parts (cr_path y))" using y(3) by (simp add: config_visible_def)
  from config_visible_tree [OF same(2) this] have "config_visible s' tags w"
    using w(3,4) y(3) y'(4,5) \<open>y' = y\<close> by (simp add: config_visible_def)
  then show ?thesis using GetConfig_Inr [OF inv', of tags j v e] w(1,2) ge' by blast
qed

lemma api_client_simps [simp]:
  "rpc_List (api_client q allowed tags now) i s = over_rpc id (List_tree s tags i, s)"
  "rpc_GetConfig (api_client q allowed tags now) i v s = over_rpc Some (GetConfig s tags i v, s)"
  "rpc_SetConfig (api_client q allowed tags now) c s = over_rpc id (SetConfig allowed tags (Some c) now s)"
  "rpc_DeleteConfig (api_client q allowed tags now) i s = over_rpc id (DeleteConfig tags i s)"
  "rpc_CreateDirectory (api_client q allowed tags now) d s = over_rpc id (CreateDirectory_handler q allowed tags (Some d) s)"
  "rpc_GetDirectory (api_client q allowed tags now) i s = over_rpc Some (GetDirectory s tags i, s)"
  "rpc_UpdateDirectory (api_client q allowed tags now) d s = over_rpc id (UpdateDirectory_handler q tags (Some d) s)"
  "rpc_DeleteDirectory (api_client q allowed tags now) i s = over_rpc id (DeleteDirectory_handler q tags i s)"
  by (simp_all add: api_client_def)

lemma SetConfig_inv: "store_inv s \<Longrightarrow> SetConfig allowed tags c now s = (r, s') \<Longrightarrow> store_inv s'"
  using SetConfig_state [of allowed tags c now s r s'] Upsert_inv by metis

interpretation api_service: config_service "api_client q allowed tags now" store_inv for q allowed tags now
proof (unfold_locales, goal_cases)
  case (1 i s r s')
  then show ?case by (metis api_client_simps(1) over_rpc_state snd_conv)
next
  case (2 i v s r s')
  then show ?case by (metis api_client_simps(2) over_rpc_state snd_conv)
next
  case (3 s c r s')
  then show ?case using SetConfig_inv [of s allowed tags "Some c" now] by (cases "SetConfig allowed tags (Some c) now s")
      (auto simp: over_rpc_def split: sum.splits)
next
  case (4 s i c b n x s')
  then show ?case using set_then_get [of s tags i c allowed b n now x s'] by (auto simp: io_simps)
next
  case (5 s i c b n x s' j v e)
  then show ?case using set_keeps_others [of s tags i c allowed b n now x s' j v e] by (auto simp: io_simps)
qed

end
