(* ===== verification/Pulumi.thy ===== *)
theory Pulumi
  imports Client
begin

text \<open>
  The Pulumi provider of \<open>cmd/pulumi/main.go\<close>: the translation between the entries a program writes
  and the messages of the service, and the operations of its two resources.  The provider's
  framework is outside the repository; an operation is a function of its request's fields and the
  client (\<open>None\<close> when the provider was not configured), and returns the fields of its response.
  A dry run is a flag of the request.
\<close>

section \<open>Values\<close>

text \<open>A Go string and the bytes it is made of.\<close>

definition bytes_of_string :: "string \<Rightarrow> bytes" where
  "bytes_of_string s = map (\<lambda>c. word_of_nat (of_char c)) s"

definition string_of_bytes :: "bytes \<Rightarrow> string" where
  "string_of_bytes b = map (\<lambda>w. char_of (unat w)) b"

record pulumi_acl =
  pa_Acl :: string
  pa_Tag :: string
  pa_Everyone :: bool

record config_args =
  ca_Name :: string
  ca_Path :: string
  ca_Content :: string
  ca_Acls :: "pulumi_acl list"

record config_state =
  cs_Name :: string
  cs_Path :: string
  cs_Content :: string
  cs_Acls :: "pulumi_acl list"
  cs_ContentSize :: int

record directory_args =
  da_Name :: string
  da_Path :: string
  da_Acls :: "pulumi_acl list"

record directory_state =
  ds_Name :: string
  ds_Path :: string
  ds_Acls :: "pulumi_acl list"

section \<open>Access entries\<close>

text \<open>The maps generated from the enumeration \<open>Acl\<close> of \<open>proto/configfs.proto\<close>.\<close>

definition Acl_value :: "string \<rightharpoonup> int" where
  "Acl_value = [''UNKNOWN_ACL'' \<mapsto> 0, ''READ'' \<mapsto> 1, ''WRITE'' \<mapsto> 2]"

definition Acl_name :: "int \<rightharpoonup> string" where
  "Acl_name = [0 \<mapsto> ''UNKNOWN_ACL'', 1 \<mapsto> ''READ'', 2 \<mapsto> ''WRITE'']"

definition aclLevel :: "string \<Rightarrow> Acl" where
  "aclLevel s = (case Acl_value (to_upper (trim_space s)) of Some v \<Rightarrow> Acl v | None \<Rightarrow> UNKNOWN_ACL)"

definition aclsToProto :: "pulumi_acl list \<Rightarrow> config_acl list" where
  "aclsToProto acls =
     (if length acls = 0 then []
      else map (\<lambda>a. \<lparr>acl_level = aclLevel (pa_Acl a), acl_tag = pa_Tag a, acl_everyone = pa_Everyone a\<rparr>) acls)"

text \<open>A level outside the map reads as the empty string.\<close>

definition aclsFromProto :: "config_acl list \<Rightarrow> pulumi_acl list" where
  "aclsFromProto acls =
     (if length acls = 0 then []
      else map (\<lambda>a. \<lparr>pa_Acl = (case Acl_name (acl_num (acl_level a)) of None \<Rightarrow> [] | Some n \<Rightarrow> n),
        pa_Tag = acl_tag a, pa_Everyone = acl_everyone a\<rparr>) acls)"

text \<open>The loop of \<open>aclsEqual\<close> over the indexes of the first list, both being of one length.\<close>

fun acls_agree :: "pulumi_acl list \<Rightarrow> pulumi_acl list \<Rightarrow> bool" where
  "acls_agree (a # as) (b # bs) =
     (if aclLevel (pa_Acl a) \<noteq> aclLevel (pa_Acl b) \<or> pa_Tag a \<noteq> pa_Tag b \<or> pa_Everyone a \<noteq> pa_Everyone b then False
      else acls_agree as bs)"
| "acls_agree _ _ = True"

definition aclsEqual :: "pulumi_acl list \<Rightarrow> pulumi_acl list \<Rightarrow> bool" where
  "aclsEqual a b = (if length a \<noteq> length b then False else acls_agree a b)"

datatype pulumi_error =
    InvalidAclLevel string
  | NotConfigured
  | Creating rpc_error
  | Reading string rpc_error
  | Updating string rpc_error
  | Deleting string rpc_error

fun validateACLs :: "pulumi_acl list \<Rightarrow> pulumi_error + unit" where
  "validateACLs [] = Inr ()"
| "validateACLs (a # as) =
     (if aclLevel (pa_Acl a) = UNKNOWN_ACL then Inl (InvalidAclLevel (pa_Acl a)) else validateACLs as)"

section \<open>Arguments, messages and states\<close>

definition configFromArgs :: "string \<Rightarrow> config_args \<Rightarrow> config" where
  "configFromArgs i a =
     \<lparr>c_id = i, c_name = ca_Name a, c_content = Some (bytes_of_string (ca_Content a)),
      c_content_size = word_of_nat (length (ca_Content a)), c_path = ca_Path a, c_acls = aclsToProto (ca_Acls a),
      c_created_at = None, c_updated_at = None, c_current_content_id = []\<rparr>"

definition stateFromArgs :: "config_args \<Rightarrow> config_state" where
  "stateFromArgs a =
     \<lparr>cs_Name = ca_Name a, cs_Path = ca_Path a, cs_Content = ca_Content a, cs_Acls = ca_Acls a,
      cs_ContentSize = int (length (ca_Content a))\<rparr>"

definition directoryFromArgs :: "string \<Rightarrow> directory_args \<Rightarrow> directory" where
  "directoryFromArgs i a = Directory i (da_Name a) (da_Path a) [] [] (aclsToProto (da_Acls a))"

definition directoryStateFromArgs :: "directory_args \<Rightarrow> directory_state" where
  "directoryStateFromArgs a = \<lparr>ds_Name = da_Name a, ds_Path = da_Path a, ds_Acls = da_Acls a\<rparr>"

text \<open>
  \<open>Check\<close> of both resources fills in the name and leaves the rest to the framework's
  \<open>default_check\<close>; \<open>new_property\<close> makes a property of a string.
\<close>

definition Check :: "(string \<Rightarrow> 'v) \<Rightarrow> ((string \<rightharpoonup> 'v) \<Rightarrow> 'r) \<Rightarrow> string \<Rightarrow> (string \<rightharpoonup> 'v) \<Rightarrow> 'r" where
  "Check new_property default_check name inputs =
     default_check (if inputs ''name'' = None then inputs(''name'' \<mapsto> new_property name) else inputs)"

section \<open>The config resource\<close>

type_synonym ('s, 'a) pulumi_op = "('s, pulumi_error, 'a) io"

definition configClient :: "'s client option \<Rightarrow> pulumi_error + 's client" where
  "configClient c = (case c of None \<Rightarrow> Inl NotConfigured | Some cl \<Rightarrow> Inr cl)"

text \<open>A call of the service with its error wrapped.\<close>

definition wrapped :: "(rpc_error \<Rightarrow> pulumi_error) \<Rightarrow> ('s, rpc_error, 'a) io \<Rightarrow> ('s, 'a) pulumi_op" where
  "wrapped f m s = (case m s of (Inl e, s') \<Rightarrow> (Inl (f e), s') | (Inr a, s') \<Rightarrow> (Inr a, s'))"

text \<open>The id and the output of the response.\<close>

definition Config_Create :: "'s client option \<Rightarrow> bool \<Rightarrow> config_args \<Rightarrow> ('s, string \<times> config_state) pulumi_op" where
  "Config_Create client dryRun inputs s =
     (case validateACLs (ca_Acls inputs) of
        Inl e \<Rightarrow> (Inl e, s)
      | Inr _ \<Rightarrow>
          (let state = stateFromArgs inputs
           in if dryRun then (Inr ([], state), s)
              else (case configClient client of
                      Inl e \<Rightarrow> (Inl e, s)
                    | Inr cl \<Rightarrow>
                        io_bind (wrapped Creating (rpc_SetConfig cl (configFromArgs [] inputs)))
                          (\<lambda>resp. io_return (case resp of None \<Rightarrow> [] | Some c \<Rightarrow> c_id c, state)) s)))"

definition config_args_of :: "config option \<Rightarrow> config_args" where
  "config_args_of cfg =
     (case cfg of
        None \<Rightarrow> \<lparr>ca_Name = [], ca_Path = [], ca_Content = [], ca_Acls = aclsFromProto []\<rparr>
      | Some c \<Rightarrow> \<lparr>ca_Name = c_name c, ca_Path = c_path c,
          ca_Content = string_of_bytes (case c_content c of None \<Rightarrow> [] | Some b \<Rightarrow> b),
          ca_Acls = aclsFromProto (c_acls c)\<rparr>)"

text \<open>\<open>None\<close> is the zero response, which tells that the resource is gone.\<close>

definition Config_Read :: "'s client option \<Rightarrow> string \<Rightarrow> ('s, (string \<times> config_args \<times> config_state) option) pulumi_op" where
  "Config_Read client i s =
     (case configClient client of
        Inl e \<Rightarrow> (Inl e, s)
      | Inr cl \<Rightarrow>
          (case rpc_GetConfig cl i None s of
             (Inl e, s') \<Rightarrow> if e = RpcStatus NotFound then (Inr None, s') else (Inl (Reading i e), s')
           | (Inr cfg, s') \<Rightarrow>
               (let args = config_args_of cfg in (Inr (Some (i, args, stateFromArgs args)), s'))))"

definition Config_Update :: "'s client option \<Rightarrow> bool \<Rightarrow> string \<Rightarrow> config_args \<Rightarrow> ('s, config_state) pulumi_op" where
  "Config_Update client dryRun i inputs s =
     (case validateACLs (ca_Acls inputs) of
        Inl e \<Rightarrow> (Inl e, s)
      | Inr _ \<Rightarrow>
          (let state = stateFromArgs inputs
           in if dryRun then (Inr state, s)
              else (case configClient client of
                      Inl e \<Rightarrow> (Inl e, s)
                    | Inr cl \<Rightarrow>
                        io_bind (wrapped (Updating i) (rpc_SetConfig cl (configFromArgs i inputs)))
                          (\<lambda>_. io_return state) s)))"

definition Config_Delete :: "'s client option \<Rightarrow> string \<Rightarrow> ('s, unit) pulumi_op" where
  "Config_Delete client i s =
     (case configClient client of
        Inl e \<Rightarrow> (Inl e, s)
      | Inr cl \<Rightarrow>
          (case rpc_DeleteConfig cl i s of
             (Inl e, s') \<Rightarrow> if e = RpcStatus NotFound then (Inr (), s') else (Inl (Deleting i e), s')
           | (Inr _, s') \<Rightarrow> (Inr (), s')))"

datatype diff_kind = Update | UpdateReplace

text \<open>The detailed diff as the list of its entries; \<open>HasChanges\<close> is that it is not empty.\<close>

definition Config_Diff :: "config_args \<Rightarrow> config_state \<Rightarrow> (string \<times> diff_kind) list" where
  "Config_Diff inputs state =
     (if ca_Name inputs \<noteq> cs_Name state then [(''name'', UpdateReplace)] else []) @
     (if ca_Path inputs \<noteq> cs_Path state then [(''path'', UpdateReplace)] else []) @
     (if ca_Content inputs \<noteq> cs_Content state then [(''content'', Update)] else []) @
     (if \<not> aclsEqual (ca_Acls inputs) (cs_Acls state) then [(''acls'', Update)] else [])"

definition HasChanges :: "(string \<times> diff_kind) list \<Rightarrow> bool" where
  "HasChanges diff = (0 < length diff)"

section \<open>The directory resource\<close>

definition Directory_Create :: "'s client option \<Rightarrow> bool \<Rightarrow> directory_args \<Rightarrow> ('s, string \<times> directory_state) pulumi_op" where
  "Directory_Create client dryRun inputs s =
     (case validateACLs (da_Acls inputs) of
        Inl e \<Rightarrow> (Inl e, s)
      | Inr _ \<Rightarrow>
          (let state = directoryStateFromArgs inputs
           in if dryRun then (Inr ([], state), s)
              else (case configClient client of
                      Inl e \<Rightarrow> (Inl e, s)
                    | Inr cl \<Rightarrow>
                        io_bind (wrapped Creating (rpc_CreateDirectory cl (directoryFromArgs [] inputs)))
                          (\<lambda>resp. io_return (case resp of None \<Rightarrow> [] | Some d \<Rightarrow> d_id d, state)) s)))"

definition directory_args_of :: "directory option \<Rightarrow> directory_args" where
  "directory_args_of dir =
     (case dir of
        None \<Rightarrow> \<lparr>da_Name = [], da_Path = [], da_Acls = aclsFromProto []\<rparr>
      | Some d \<Rightarrow> \<lparr>da_Name = d_name d, da_Path = d_path d, da_Acls = aclsFromProto (d_acls d)\<rparr>)"

definition Directory_Read :: "'s client option \<Rightarrow> string \<Rightarrow> ('s, (string \<times> directory_args \<times> directory_state) option) pulumi_op" where
  "Directory_Read client i s =
     (case configClient client of
        Inl e \<Rightarrow> (Inl e, s)
      | Inr cl \<Rightarrow>
          (case rpc_GetDirectory cl i s of
             (Inl e, s') \<Rightarrow> if e = RpcStatus NotFound then (Inr None, s') else (Inl (Reading i e), s')
           | (Inr dir, s') \<Rightarrow>
               (let args = directory_args_of dir in (Inr (Some (i, args, directoryStateFromArgs args)), s'))))"

definition Directory_Update :: "'s client option \<Rightarrow> bool \<Rightarrow> string \<Rightarrow> directory_args \<Rightarrow> ('s, directory_state) pulumi_op" where
  "Directory_Update client dryRun i inputs s =
     (case validateACLs (da_Acls inputs) of
        Inl e \<Rightarrow> (Inl e, s)
      | Inr _ \<Rightarrow>
          (let state = directoryStateFromArgs inputs
           in if dryRun then (Inr state, s)
              else (case configClient client of
                      Inl e \<Rightarrow> (Inl e, s)
                    | Inr cl \<Rightarrow>
                        io_bind (wrapped (Updating i) (rpc_UpdateDirectory cl (directoryFromArgs i inputs)))
                          (\<lambda>_. io_return state) s)))"

definition Directory_Delete :: "'s client option \<Rightarrow> string \<Rightarrow> ('s, unit) pulumi_op" where
  "Directory_Delete client i s =
     (case configClient client of
        Inl e \<Rightarrow> (Inl e, s)
      | Inr cl \<Rightarrow>
          (case rpc_DeleteDirectory cl i s of
             (Inl e, s') \<Rightarrow> if e = RpcStatus NotFound then (Inr (), s') else (Inl (Deleting i e), s')
           | (Inr _, s') \<Rightarrow> (Inr (), s')))"

definition Directory_Diff :: "directory_args \<Rightarrow> directory_state \<Rightarrow> (string \<times> diff_kind) list" where
  "Directory_Diff inputs state =
     (if da_Name inputs \<noteq> ds_Name state then [(''name'', UpdateReplace)] else []) @
     (if da_Path inputs \<noteq> ds_Path state then [(''path'', UpdateReplace)] else []) @
     (if \<not> aclsEqual (da_Acls inputs) (ds_Acls state) then [(''acls'', Update)] else [])"

end
