(* ===== verification/PulumiProofs.thy ===== *)
theory PulumiProofs
  imports Pulumi
begin

text \<open>
  The provider of \<open>cmd/pulumi/main.go\<close> against the service: access entries survive the translation
  and back, the comparison of entries is equality of what the server stores, a config that was
  created or updated is read back without a difference, and deletion can be repeated.
\<close>

section \<open>Translations\<close>

lemma string_of_bytes_of_string [simp]: "string_of_bytes (bytes_of_string s) = s"
proof -
  have "char_of (unat (word_of_nat (of_char c) :: 8 word)) = c" for c
    by (simp add: unat_of_nat)
  then show ?thesis by (induction s) (simp_all add: string_of_bytes_def bytes_of_string_def)
qed

lemma aclLevel_cases: "aclLevel s = UNKNOWN_ACL \<or> aclLevel s = Acl_READ \<or> aclLevel s = Acl_WRITE"
  by (auto simp: aclLevel_def Acl_value_def Acl_levels)

lemma aclLevel_name: "aclLevel (case Acl_name (acl_num (aclLevel s)) of None \<Rightarrow> [] | Some n \<Rightarrow> n) = aclLevel s"
proof -
  have "aclLevel (case Acl_name (acl_num l) of None \<Rightarrow> [] | Some n \<Rightarrow> n) = l"
    if "l = UNKNOWN_ACL \<or> l = Acl_READ \<or> l = Acl_WRITE" for l
    using that by (elim disjE; hypsubst; code_simp)
  with aclLevel_cases show ?thesis by blast
qed

lemma acls_agree_iff: "length a = length b \<Longrightarrow> acls_agree a b \<longleftrightarrow> aclsToProto a = aclsToProto b"
  by (induction a b rule: list_induct2) (auto simp: aclsToProto_def)

lemma aclsToProto_length [simp]: "length (aclsToProto a) = length a"
  by (simp add: aclsToProto_def)

lemma aclsEqual_eq: "aclsEqual a b \<longleftrightarrow> aclsToProto a = aclsToProto b"
  using acls_agree_iff [of a b] aclsToProto_length by (metis aclsEqual_def)

lemma aclsToProto_FromProto_ToProto: "aclsToProto (aclsFromProto (aclsToProto a)) = aclsToProto a"
  using aclLevel_name by (simp add: aclsToProto_def aclsFromProto_def)

lemma validated_recognised: "validateACLs a = Inr () \<Longrightarrow> filter recognised (aclsToProto a) = aclsToProto a"
proof (induction a)
  case (Cons x a)
  then show ?case using aclLevel_cases [of "pa_Acl x"]
    by (auto simp: aclsToProto_def recognised_def split: if_splits)
qed (simp add: aclsToProto_def)

text \<open>
  \<open>aclsEqual\<close> holds exactly when the service is sent the same entries, and entries that went to
  the service and came back compare equal to what the program wrote, whatever case or spacing its
  levels have; when the levels are valid the store drops none of them.
\<close>

theorem acls_round_trip:
  "aclsEqual a b = (aclsToProto a = aclsToProto b) \<and> aclsEqual (aclsFromProto (aclsToProto a)) a \<and>
   (validateACLs a = Inr () \<longrightarrow> filter recognised (aclsToProto a) = aclsToProto a)"
  using aclsEqual_eq aclsToProto_FromProto_ToProto validated_recognised by blast

theorem acls_round_trip_witness:
  "filter recognised (aclsToProto [\<lparr>pa_Acl = '' read '', pa_Tag = ''tag:dev'', pa_Everyone = False\<rparr>]) =
     aclsToProto [\<lparr>pa_Acl = '' read '', pa_Tag = ''tag:dev'', pa_Everyone = False\<rparr>]"
proof -
  have "validateACLs [\<lparr>pa_Acl = '' read '', pa_Tag = ''tag:dev'', pa_Everyone = False\<rparr>] = Inr ()" by code_simp
  with acls_round_trip [of "[\<lparr>pa_Acl = '' read '', pa_Tag = ''tag:dev'', pa_Everyone = False\<rparr>]"] show ?thesis by blast
qed

section \<open>Configs\<close>

lemma wrapped_Inr [io_simps]: "wrapped f m s = (Inr a, s') \<longleftrightarrow> m s = (Inr a, s')"
  by (auto simp: wrapped_def split: prod.splits sum.splits)

text \<open>What the service holds after a config was sent to it, read back as arguments.\<close>

lemma sent_config_read:
  assumes inv: "store_inv s" and valid: "validateACLs (ca_Acls args) = Inr ()"
    and set: "SetConfig allowed tags (Some (configFromArgs j args)) now s = (Inr d, s')"
    and id: "parse_int64 k = parse_int64 (case d of None \<Rightarrow> [] | Some c \<Rightarrow> c_id c)"
    and get: "GetConfig s' tags' k None = Inr cfg"
  shows "config_args_of (Some cfg) = args\<lparr>ca_Acls := aclsFromProto (aclsToProto (ca_Acls args))\<rparr>"
    and "\<exists>c. d = Some c \<and> parse_int64 (c_id c) \<noteq> None \<and> (j \<noteq> [] \<longrightarrow> parse_int64 (c_id c) = parse_int64 j)"
proof -
  let ?c = "configFromArgs j args"
  have c: "c_name ?c = ca_Name args" "c_path ?c = ca_Path args" "c_acls ?c = aclsToProto (ca_Acls args)"
    "c_content ?c = Some (bytes_of_string (ca_Content args))" "c_id ?c = j" by (simp_all add: configFromArgs_def)
  have up: "Upsert ?c now s = (Inr d, s')" using SetConfig_Inr [OF set] .
  have inv': "store_inv s'" using Upsert_inv [OF inv up] .
  obtain r v b sz where r: "r \<in> set (config_table s')" "cr_name r = ca_Name args" "cr_path r = ca_Path args"
    "aclsForOwner Config_acl s' (cr_id r) = filter recognised (aclsToProto (ca_Acls args))"
    and v: "cr_current_content_id r = Some v" "version_content s' (cr_id r) v = Some (b, sz)"
    "c_content ?c \<noteq> None \<longrightarrow> c_content ?c = Some b \<and> sz = c_content_size ?c"
    and d: "GetConfigByID s' (show_int (cr_id r)) False [] = Inr d"
    and new: "if c_id ?c = [] then cr_id r \<notin> cr_id ` set (config_table s) else parse_int64 (c_id ?c) = Some (cr_id r)"
    using Upsert_row [OF inv up] unfolding c(1,2,3) by metis
  have d': "d = Some (stored_config s' r)" using readback_row(2) [OF inv' r(1) v(1,2)] d by simp
  note p = parse_cr_id [OF inv' r(1)]
  show "\<exists>c. d = Some c \<and> parse_int64 (c_id c) \<noteq> None \<and> (j \<noteq> [] \<longrightarrow> parse_int64 (c_id c) = parse_int64 j)"
    using d' p new [unfolded c(5)] by (simp add: stored_config_def)
  have k: "parse_int64 k = Some (cr_id r)" using id p by (simp add: d' stored_config_def)
  have "GetConfigByID s' k True [] = Inr (Some cfg)"
    using get unfolding GetConfig_Inr [OF inv'] version_string_def option.case by blast
  then have cfg: "cfg = (stored_config s' r)\<lparr>c_content := Some b, c_content_size := sz\<rparr>"
    using GetConfigByID_current [OF inv' r(1) k v(1)] v(2) by simp
  have b: "b = bytes_of_string (ca_Content args)" using v(3) c(4) by simp
  show "config_args_of (Some cfg) = args\<lparr>ca_Acls := aclsFromProto (aclsToProto (ca_Acls args))\<rparr>"
    using r(2-4) validated_recognised [OF valid] by (simp add: config_args_of_def cfg b stored_config_def)
qed

lemma no_config_diff:
  "args' = args\<lparr>ca_Acls := aclsFromProto (aclsToProto (ca_Acls args))\<rparr> \<Longrightarrow> Config_Diff args (stateFromArgs args') = []"
  by (simp add: Config_Diff_def stateFromArgs_def aclsEqual_eq aclsToProto_FromProto_ToProto)

lemma Config_Read_Inr:
  "Config_Read (Some (api_client q allowed tags now)) k s = (Inr (Some (i, args, st)), s') \<longleftrightarrow>
     (\<exists>cfg. GetConfig s tags k None = Inr cfg \<and> s' = s \<and> i = k \<and> args = config_args_of (Some cfg) \<and> st = stateFromArgs args)"
  by (auto simp: Config_Read_def configClient_def over_rpc_def Let_def split: prod.splits sum.splits if_splits)

text \<open>
  C19: A config resource converges: after a successful \<open>Create\<close>, reading the id it returned, by any
  identity that may, finds the config, and neither the recorded nor the read state differs from the
  program's inputs, so a second run changes nothing.
\<close>

theorem config_create_converges:
  assumes inv: "store_inv s"
    and create: "Config_Create (Some (api_client q allowed tags now)) False args s = (Inr (i, st), s')"
    and read: "Config_Read (Some (api_client q' allowed' tags' now')) i s' = (Inr resp, s'')"
  shows "\<exists>args' st'. resp = Some (i, args', st') \<and> s'' = s' \<and> \<not> HasChanges (Config_Diff args st') \<and>
    \<not> HasChanges (Config_Diff args st) \<and> cs_ContentSize st' = int (length (ca_Content args))"
proof -
  from create obtain d where valid: "validateACLs (ca_Acls args) = Inr ()"
    and set: "SetConfig allowed tags (Some (configFromArgs [] args)) now s = (Inr d, s')"
    and i: "i = (case d of None \<Rightarrow> [] | Some c \<Rightarrow> c_id c)" and st: "st = stateFromArgs args"
    by (auto simp: Config_Create_def Let_def configClient_def io_simps split: sum.splits)
  have inv': "store_inv s'" using SetConfig_inv [OF inv set] .
  have here: "GetConfig s' tags' i None \<noteq> Inl (Status NotFound None)"
  proof -
    have up: "Upsert (configFromArgs [] args) now s = (Inr d, s')" using SetConfig_Inr [OF set] .
    obtain r v b sz where r: "r \<in> set (config_table s')" "cr_current_content_id r = Some v"
      "version_content s' (cr_id r) v = Some (b, sz)" "GetConfigByID s' (show_int (cr_id r)) False [] = Inr d"
      using Upsert_row [OF inv up] by metis
    have "d = Some (stored_config s' r)" using readback_row(2) [OF inv' r(1-3)] r(4) by simp
    then have "i = show_int (cr_id r)" using i by (simp add: stored_config_def)
    with readback_row(1) [OF inv' r(1-3)] show ?thesis by (simp add: GetConfig_def)
  qed
  have "resp \<noteq> None"
  proof
    assume "resp = None"
    with read have "\<exists>e. GetConfig s' tags' i None = Inl e \<and> rpc_error_of e = RpcStatus NotFound"
      by (auto simp: Config_Read_def configClient_def over_rpc_def Let_def split: prod.splits sum.splits if_splits)
    then obtain x where "GetConfig s' tags' i None = Inl (Status NotFound x)"
      by (metis rpc_error.distinct(1) rpc_error.inject rpc_error_of.elims)
    with here show False
      by (auto simp: GetConfig_def store_failure_def split: if_splits sum.splits option.splits)
  qed
  then obtain i' args' st' where resp: "resp = Some (i', args', st')" by (cases resp) auto
  with read obtain cfg where cfg: "GetConfig s' tags' i None = Inr cfg" "s'' = s'" "i' = i"
    "args' = config_args_of (Some cfg)" "st' = stateFromArgs args'"
    by (auto simp: Config_Read_Inr)
  have "parse_int64 i = parse_int64 (case d of None \<Rightarrow> [] | Some c \<Rightarrow> c_id c)" using i by simp
  from sent_config_read(1) [OF inv valid set this cfg(1)] have args': "args' = args\<lparr>ca_Acls := aclsFromProto (aclsToProto (ca_Acls args))\<rparr>"
    using cfg(4) by simp
  have "Config_Diff args st' = []" unfolding cfg(5) by (rule no_config_diff [OF args'])
  moreover have "Config_Diff args st = []" by (simp add: st Config_Diff_def stateFromArgs_def aclsEqual_eq)
  moreover have "cs_ContentSize st' = int (length (ca_Content args))" by (simp add: cfg(5) args' stateFromArgs_def)
  ultimately show ?thesis using resp cfg(2,3) by (simp add: HasChanges_def)
qed

definition sample_args :: config_args where
  "sample_args = \<lparr>ca_Name = ''db'', ca_Path = ''/team'', ca_Content = ''on'',
     ca_Acls = [\<lparr>pa_Acl = '' read '', pa_Tag = [], pa_Everyone = True\<rparr>, \<lparr>pa_Acl = ''WRITE'', pa_Tag = ''tag:ops'', pa_Everyone = False\<rparr>]\<rparr>"

theorem config_create_converges_witness:
  "\<exists>i st s' args' st'. Config_Create (Some (api_client id [] [''tag:ops''] 7)) False sample_args sample_db = (Inr (i, st), s') \<and>
     Config_Read (Some (api_client id [] [''tag:dev''] 8)) i s' = (Inr (Some (i, args', st')), s') \<and>
     \<not> HasChanges (Config_Diff sample_args st') \<and> args' \<noteq> sample_args"
proof -
  let ?c = "Config_Create (Some (api_client id [] [''tag:ops''] 7)) False sample_args sample_db"
  let ?r = "Config_Read (Some (api_client id [] [''tag:dev''] 8)) (fst (projr (fst ?c))) (snd ?c)"
  have a: "\<not> isl (fst ?c)" "\<not> isl (fst ?r)" "fst (snd (the (projr (fst ?r)))) \<noteq> sample_args" by code_simp+
  obtain x s' where x: "?c = (Inr x, s')" using a(1) result_pair by blast
  obtain i st where x': "x = (i, st)" by (cases x)
  obtain resp s'' where r: "?r = (Inr resp, s'')" using a(2) result_pair by blast
  have r': "Config_Read (Some (api_client id [] [''tag:dev''] 8)) i s' = (Inr resp, s'')" using r by (simp add: x x')
  from config_create_converges [OF sample_inv x [unfolded x'] r'] obtain args' st' where
    o: "resp = Some (i, args', st')" "s'' = s'" "\<not> HasChanges (Config_Diff sample_args st')" by blast
  have "args' \<noteq> sample_args" using a(3) unfolding r by (simp add: o(1))
  with x x' r' o show ?thesis by blast
qed

text \<open>
  A config resource converges on update too: after a successful \<open>Update\<close>, whoever can read the
  config reads a state that differs in nothing from the program's inputs.
\<close>

theorem config_update_converges:
  assumes inv: "store_inv s" and i: "i \<noteq> []"
    and update: "Config_Update (Some (api_client q allowed tags now)) False i args s = (Inr st, s')"
    and read: "Config_Read (Some (api_client q' allowed' tags' now')) i s' = (Inr (Some (i', args', st')), s'')"
  shows "i' = i \<and> \<not> HasChanges (Config_Diff args st') \<and> \<not> HasChanges (Config_Diff args st) \<and>
    cs_Content st' = ca_Content args"
proof -
  from update obtain d where valid: "validateACLs (ca_Acls args) = Inr ()"
    and set: "SetConfig allowed tags (Some (configFromArgs i args)) now s = (Inr d, s')" and st: "st = stateFromArgs args"
    by (auto simp: Config_Update_def Let_def configClient_def io_simps split: sum.splits)
  from read obtain cfg where cfg: "GetConfig s' tags' i None = Inr cfg" "i' = i"
    "args' = config_args_of (Some cfg)" "st' = stateFromArgs args'"
    by (auto simp: Config_Read_Inr)
  have inv': "store_inv s'" using SetConfig_inv [OF inv set] .
  obtain r where "r \<in> set (config_table s')" "parse_int64 i = Some (cr_id r)"
    using cfg(1) unfolding GetConfig_Inr [OF inv'] by blast
  have up: "Upsert (configFromArgs i args) now s = (Inr d, s')" using SetConfig_Inr [OF set] .
  have "parse_int64 (c_id (configFromArgs i args)) = Some (cr_id r)"
    using \<open>parse_int64 i = Some (cr_id r)\<close> by (simp add: configFromArgs_def)
  from Upsert_reads_id [OF inv up this] \<open>parse_int64 i = Some (cr_id r)\<close>
  have "parse_int64 i = parse_int64 (case d of None \<Rightarrow> [] | Some c \<Rightarrow> c_id c)" by auto
  from sent_config_read(1) [OF inv valid set this cfg(1)] have args': "args' = args\<lparr>ca_Acls := aclsFromProto (aclsToProto (ca_Acls args))\<rparr>"
    using cfg(3) by simp
  have "Config_Diff args st' = []" unfolding cfg(4) by (rule no_config_diff [OF args'])
  moreover have "Config_Diff args st = []" by (simp add: st Config_Diff_def stateFromArgs_def aclsEqual_eq)
  ultimately show ?thesis using cfg(2) by (simp add: HasChanges_def cfg(4) args' stateFromArgs_def)
qed

theorem config_update_converges_witness:
  "\<exists>st s' args' st'. Config_Update (Some (api_client id [] [''tag:ops''] 7)) False ''3''
       (sample_args\<lparr>ca_Name := ''app'', ca_Path := ''/team/docs''\<rparr>) sample_db = (Inr st, s') \<and>
     Config_Read (Some (api_client id [] [''tag:dev''] 8)) ''3'' s' = (Inr (Some (''3'', args', st')), s') \<and> cs_Content st' = ''on''"
proof -
  let ?a = "sample_args\<lparr>ca_Name := ''app'', ca_Path := ''/team/docs''\<rparr>"
  let ?c = "Config_Update (Some (api_client id [] [''tag:ops''] 7)) False ''3'' ?a sample_db"
  let ?r = "Config_Read (Some (api_client id [] [''tag:dev''] 8)) ''3'' (snd ?c)"
  have a: "\<not> isl (fst ?c)" "\<not> isl (fst ?r)" "projr (fst ?r) \<noteq> None" by code_simp+
  obtain st s' where c: "?c = (Inr st, s')" using a(1) result_pair by blast
  obtain x s'' where r: "?r = (Inr x, s'')" using a(2) result_pair by blast
  obtain i args' st' where x: "x = Some (i, args', st')" using a(3) r by (cases x) auto
  have r': "Config_Read (Some (api_client id [] [''tag:dev''] 8)) ''3'' s' = (Inr (Some (i, args', st')), s'')"
    using r by (simp add: c x)
  have "''3'' \<noteq> ([] :: string)" by simp
  from config_update_converges [OF sample_inv this c r'] r' c show ?thesis
    by (auto simp: Config_Read_Inr sample_args_def)
qed

section \<open>Deleting\<close>

lemma DeleteConfig_gone:
  assumes "parse_int64 i = Some n" and "n \<notin> cr_id ` set (config_table s)"
  shows "DeleteConfig tags i s = (Inl (Status NotFound None), s)"
proof -
  have "i \<noteq> []" using assms(1) by auto
  then show ?thesis using GetConfigByID_none [OF assms] by (simp add: DeleteConfig_def)
qed

lemma DeleteConfig_leaves:
  assumes inv: "store_inv s" and del: "DeleteConfig tags i s = (r, s')" and r: "r = Inr () \<or> r = Inl (Status NotFound x)"
  shows "\<exists>n. parse_int64 i = Some n \<and> n \<notin> cr_id ` set (config_table s')"
proof (cases "GetConfigByID s i False []")
  case (Inl e)
  with del r show ?thesis by (auto simp: DeleteConfig_def store_failure_def split: if_splits)
next
  case (Inr found)
  then obtain n where n: "parse_int64 i = Some n" by (auto simp: GetConfigByID_def split: option.splits)
  show ?thesis
  proof (cases found)
    case None
    with Inr n del have "s' = s" by (auto simp: DeleteConfig_def split: if_splits)
    moreover have "find (\<lambda>r. cr_id r = n) (config_table s) = None"
      using None Inr n by (auto simp: GetConfigByID_def split: option.splits)
    ultimately show ?thesis using n by (simp add: find_None_key)
  next
    case (Some e)
    with Inr n del r have "s' = remove_config n s"
      by (auto simp: DeleteConfig_def Delete_eq split: if_splits)
    with n show ?thesis by (auto simp: row_simps)
  qed
qed

text \<open>
  Deleting a config resource can be repeated: once a \<open>Delete\<close> has succeeded, whether it removed
  the config or found it gone, the config is gone and deleting it again, by any identity, succeeds
  and changes nothing.
\<close>

theorem config_delete_repeatable:
  assumes inv: "store_inv s" and del: "Config_Delete (Some (api_client q allowed tags now)) i s = (Inr (), s')"
  shows "GetConfigByID s' i True [] = Inr None \<and> Config_Delete (Some (api_client q' allowed' tags' now')) i s' = (Inr (), s')"
proof -
  have "\<exists>r x. DeleteConfig tags i s = (r, s') \<and> (r = Inr () \<or> r = Inl (Status NotFound x))"
    using del by (cases "DeleteConfig tags i s"; cases "fst (DeleteConfig tags i s)"; cases "projl (fst (DeleteConfig tags i s))")
      (auto simp: Config_Delete_def configClient_def over_rpc_def split: if_splits)
  then obtain n where n: "parse_int64 i = Some n" "n \<notin> cr_id ` set (config_table s')"
    using DeleteConfig_leaves [OF inv] by blast
  have "Config_Delete (Some (api_client q' allowed' tags' now')) i s' = (Inr (), s')"
    using DeleteConfig_gone [OF n, of tags'] by (simp add: Config_Delete_def configClient_def over_rpc_def)
  with GetConfigByID_none [OF n] show ?thesis by simp
qed

theorem config_delete_repeatable_witness:
  "\<exists>s'. Config_Delete (Some (api_client id [] [''tag:ops''] 7)) ''3'' sample_db = (Inr (), s') \<and>
     Config_Delete (Some (api_client id [] [] 8)) ''3'' s' = (Inr (), s')"
proof -
  let ?c = "Config_Delete (Some (api_client id [] [''tag:ops''] 7)) ''3'' sample_db"
  have "\<not> isl (fst ?c)" by code_simp
  then obtain s' where c: "?c = (Inr (), s')" using result_pair by (metis old.unit.exhaust)
  with config_delete_repeatable [OF sample_inv c] show ?thesis by blast
qed

section \<open>Directories\<close>

lemma Directory_Read_Inr:
  "Directory_Read (Some (api_client q allowed tags now)) k s = (Inr (Some (i, args, st)), s') \<longleftrightarrow>
     (\<exists>d. GetDirectory s tags k = Inr d \<and> s' = s \<and> i = k \<and> args = directory_args_of (Some d) \<and> st = directoryStateFromArgs args)"
  by (auto simp: Directory_Read_def configClient_def over_rpc_def Let_def split: prod.splits sum.splits if_splits)

lemma create_full_path_parts:
  assumes name: "CHR ''/'' \<notin> set n" "trimmed n" "n \<noteq> []" and path: "path \<noteq> []"
    and canon: "create_full_path path n = abs_path (clean_parts (create_full_path path n))"
  shows "clean_parts (create_full_path path n) = clean_parts path @ [n] \<and> path = abs_path (clean_parts path)"
proof (cases "path = ''/''")
  case True
  then have "create_full_path path n = [] @ ''/'' @ n" by (simp add: create_full_path_def)
  then show ?thesis using clean_parts_snoc [of n "[]"] name True by (simp add: trimmed_def)
next
  case False
  then have t: "create_full_path path n = path @ ''/'' @ n" using path by (simp add: create_full_path_def)
  then have parts: "clean_parts (create_full_path path n) = clean_parts path @ [n]"
    using clean_parts_snoc [of n path] name by (simp add: trimmed_def)
  have "path @ ''/'' @ n = abs_path (clean_parts path @ [n])" using canon unfolding parts unfolding t .
  moreover have "clean_parts path \<noteq> []"
  proof
    assume "clean_parts path = []"
    with calculation have "path @ ''/'' @ n = [] @ ''/'' @ n" by (simp add: abs_path_single)
    with path show False by simp
  qed
  ultimately have "path @ ''/'' @ n = abs_path (clean_parts path) @ ''/'' @ n" by (simp add: abs_path_snoc)
  with parts show ?thesis by simp
qed

text \<open>
  A directory resource converges when its inputs are spelled the way the server stores them: for
  a trimmed name without a slash and a parent path that is not empty, a successful \<open>Create\<close> is read
  back without a difference.
\<close>

theorem directory_create_converges:
  assumes inv: "store_inv s" and name: "CHR ''/'' \<notin> set (da_Name args)" "trimmed (da_Name args)" and path: "da_Path args \<noteq> []"
    and create: "Directory_Create (Some (api_client q allowed tags now)) False args s = (Inr (i, st), s')"
    and read: "Directory_Read (Some (api_client q' allowed' tags' now')) i s' = (Inr (Some (i', args', st')), s'')"
  shows "i' = i \<and> \<not> HasChanges (Directory_Diff args st') \<and> \<not> HasChanges (Directory_Diff args st)"
proof -
  let ?t = "create_full_path (da_Path args) (da_Name args)"
  have tn: "trim_space (da_Name args) = da_Name args" using name(2) by (simp add: trimmed_def)
  from create obtain d where valid: "validateACLs (da_Acls args) = Inr ()"
    and h: "CreateDirectory_handler q allowed tags (Some (directoryFromArgs [] args)) s = (Inr d, s')"
    and i: "i = (case d of None \<Rightarrow> [] | Some x \<Rightarrow> d_id x)" and st: "st = directoryStateFromArgs args"
    by (auto simp: Directory_Create_def Let_def configClient_def io_simps split: sum.splits)
  from h have c: "CreateDirectory (directoryFromArgs [] args) s = (Inr d, s')"
    by (auto simp: CreateDirectory_handler_def split: if_splits sum.splits prod.splits)
  from CreateDirectory_Inr [OF inv c] have b: "create_directory_body ?t (aclsToProto (da_Acls args)) s = Inr (d, s')"
    and ne: "da_Name args \<noteq> []" by (auto simp: directoryFromArgs_def tn)
  have inv': "store_inv s'" using CreateDirectory_inv [OF inv c] .
  obtain row where row: "?t = abs_path (clean_parts ?t)" "row \<in> set (directory_table s')" "row_parts row = clean_parts ?t"
    "d = Some (stored_directory s' row)"
    using create_directory_body_Inr [OF inv b] by metis
  from create_full_path_parts [OF name ne path row(1)]
  have parts: "row_parts row = clean_parts (da_Path args) @ [da_Name args]" and p: "da_Path args = abs_path (clean_parts (da_Path args))"
    using row(3) by simp_all
  have dn: "dr_name row = da_Name args" using parts by (metis last_row_parts last_snoc)
  have "clean_parts (dr_path row) = clean_parts (da_Path args)" using parts by (metis butlast_row_parts butlast_snoc)
  then have dp: "dr_path row = da_Path args" using directories_okD(2) [OF store_inv_dirs [OF inv'] row(2)] p by metis
  have acls: "d_acls (stored_directory s' row) = aclsToProto (da_Acls args)"
    using create_directory_effect(4) [OF inv c refl] row(4) validated_recognised [OF valid] by (auto simp: directoryFromArgs_def)
  have ii: "i = show_int (dr_id row)" using i row(4) by (simp add: stored_directory_def)
  from read obtain x where x: "GetDirectory s' tags' i = Inr x" "i' = i" "args' = directory_args_of (Some x)"
    "st' = directoryStateFromArgs args'"
    by (auto simp: Directory_Read_Inr)
  then have "GetDirectoryByID s' i = Inr (Some x)"
    by (auto simp: GetDirectory_def split: if_splits sum.splits option.splits)
  then have x': "x = stored_directory s' row" using GetDirectoryByID_row [OF inv' row(2)] ii by simp
  have "Directory_Diff args st' = []"
    using dn dp acls by (simp add: x x' Directory_Diff_def directoryStateFromArgs_def directory_args_of_def aclsEqual_eq
        aclsToProto_FromProto_ToProto stored_directory_def)
  moreover have "Directory_Diff args st = []" by (simp add: st Directory_Diff_def directoryStateFromArgs_def aclsEqual_eq)
  ultimately show ?thesis using x(2) by (simp add: HasChanges_def)
qed

theorem directory_create_converges_witness:
  "\<exists>i st s' args' st'. Directory_Create (Some (api_client id [] [''tag:ops''] 7)) False
       \<lparr>da_Name = ''new'', da_Path = ''/team'', da_Acls = []\<rparr> sample_db = (Inr (i, st), s') \<and>
     Directory_Read (Some (api_client id [] [''tag:dev''] 8)) i s' = (Inr (Some (i, args', st')), s') \<and>
     \<not> HasChanges (Directory_Diff \<lparr>da_Name = ''new'', da_Path = ''/team'', da_Acls = []\<rparr> st')"
proof -
  let ?a = "\<lparr>da_Name = ''new'', da_Path = ''/team'', da_Acls = []\<rparr>"
  let ?c = "Directory_Create (Some (api_client id [] [''tag:ops''] 7)) False ?a sample_db"
  let ?r = "Directory_Read (Some (api_client id [] [''tag:dev''] 8)) (fst (projr (fst ?c))) (snd ?c)"
  have a: "\<not> isl (fst ?c)" "\<not> isl (fst ?r)" "projr (fst ?r) \<noteq> None" by code_simp+
  obtain x s' where x: "?c = (Inr x, s')" using a(1) result_pair by blast
  obtain i st where x': "x = (i, st)" by (cases x)
  obtain y s'' where r: "?r = (Inr y, s'')" using a(2) result_pair by blast
  obtain i' args' st' where y: "y = Some (i', args', st')" using a(3) r by (cases y) auto
  have r': "Directory_Read (Some (api_client id [] [''tag:dev''] 8)) i s' = (Inr (Some (i', args', st')), s'')"
    using r by (simp add: x x' y)
  have n: "CHR ''/'' \<notin> set (da_Name ?a)" "trimmed (da_Name ?a)" "da_Path ?a \<noteq> []" by code_simp+
  from directory_create_converges [OF sample_inv n x [unfolded x'] r'] r' x x' show ?thesis
    by (auto simp: Directory_Read_Inr)
qed

text \<open>
  The root spelled as the empty path is stored as a slash: after a refresh the provider sees a
  different path and plans to replace the directory.
\<close>

theorem root_directory_replaced:
  "\<exists>i st s. Directory_Create (Some (api_client id [] [] 1)) False \<lparr>da_Name = ''top'', da_Path = [], da_Acls = []\<rparr> empty_db = (Inr (i, st), s) \<and>
     (\<exists>args' st'. fst (Directory_Read (Some (api_client id [] [] 2)) i s) = Inr (Some (i, args', st')) \<and>
        Directory_Diff \<lparr>da_Name = ''top'', da_Path = [], da_Acls = []\<rparr> st' = [(''path'', UpdateReplace)])"
proof -
  let ?a = "\<lparr>da_Name = ''top'', da_Path = [], da_Acls = []\<rparr>"
  let ?c = "Directory_Create (Some (api_client id [] [] 1)) False ?a empty_db"
  let ?r = "fst (Directory_Read (Some (api_client id [] [] 2)) (fst (projr (fst ?c))) (snd ?c))"
  have a: "\<not> isl (fst ?c)" "fst (projr (fst ?c)) = ''1''"
    "?r = Inr (Some (''1'', \<lparr>da_Name = ''top'', da_Path = ''/'', da_Acls = []\<rparr>, \<lparr>ds_Name = ''top'', ds_Path = ''/'', ds_Acls = []\<rparr>))"
    "Directory_Diff ?a \<lparr>ds_Name = ''top'', ds_Path = ''/'', ds_Acls = []\<rparr> = [(''path'', UpdateReplace)]" by code_simp+
  obtain x s' where x: "?c = (Inr x, s')" using a(1) result_pair by blast
  obtain i st where x': "x = (i, st)" by (cases x)
  show ?thesis using a(2-4) by (simp add: x x')
qed

end
