(* ===== verification/PulumiSetup.thy ===== *)
theory PulumiSetup
  imports PulumiProofs
begin

text \<open>
  The frame of the provider of \<open>cmd/pulumi/main.go\<close>: how its configuration turns into a client of
  the service, how the program ends, and which inputs its outputs are declared to depend on.
\<close>

section \<open>The configuration\<close>

datatype transport_credentials = NewTLS | InsecureCredentials

record 's provider_config =
  pc_Endpoint :: string
  pc_InsecureEndpoint :: bool
  pc_client :: "'s client option"

text \<open>\<open>new_client\<close> is \<open>grpc.NewClient\<close>; the error carries the endpoint it was asked for.\<close>

definition Configure :: "(string \<Rightarrow> transport_credentials \<Rightarrow> 's client option) \<Rightarrow> 's provider_config \<Rightarrow>
    (string + unit) \<times> 's provider_config" where
  "Configure new_client c =
     (let endpoint = (if pc_Endpoint c = [] then ''localhost:9090'' else pc_Endpoint c);
          credentials = (if pc_InsecureEndpoint c then InsecureCredentials else NewTLS)
      in case new_client endpoint credentials of
           None \<Rightarrow> (Inl endpoint, c)
         | Some conn \<Rightarrow> (Inr (), c\<lparr>pc_client := Some conn\<rparr>))"

text \<open>The whole program: the exit code and what is written to the error stream.\<close>

definition provider_main :: "(string + 'p) \<Rightarrow> ('p \<Rightarrow> string \<Rightarrow> string \<Rightarrow> string option) \<Rightarrow> int \<times> string" where
  "provider_main built run =
     (case built of
        Inl err \<Rightarrow> (1, ''Error: '' @ err)
      | Inr provider \<Rightarrow>
          (case run provider ''configfs'' ''0.1.0'' of
             None \<Rightarrow> (0, [])
           | Some err \<Rightarrow> (1, ''Error: '' @ err)))"

text \<open>
  The operations of a configured provider reach the service it was configured for; without a
  configuration they reach none.
\<close>

theorem configured_operations:
  "Configure new_client c = (Inr (), c') \<Longrightarrow> \<exists>cl. configClient (pc_client c') = Inr cl \<and>
     new_client (if pc_Endpoint c = [] then ''localhost:9090'' else pc_Endpoint c)
       (if pc_InsecureEndpoint c then InsecureCredentials else NewTLS) = Some cl"
  "Config_Delete (pc_client (c\<lparr>pc_client := None\<rparr>)) i s = (Inl NotConfigured, s)"
  by (auto simp: Configure_def configClient_def Let_def Config_Delete_def split: option.splits)

section \<open>Declared dependencies\<close>

datatype config_field = ConfigName | ConfigPath | ConfigContent | ConfigAcls | ConfigContentSize

datatype directory_field = DirectoryName | DirectoryPath | DirectoryAcls

text \<open>Which input each output is wired to, in the order of the source.\<close>

definition Config_WireDependencies :: "(config_field \<times> config_field) list" where
  "Config_WireDependencies =
     [(ConfigName, ConfigName), (ConfigPath, ConfigPath), (ConfigContent, ConfigContent), (ConfigAcls, ConfigAcls),
      (ConfigContentSize, ConfigContent)]"

definition Directory_WireDependencies :: "(directory_field \<times> directory_field) list" where
  "Directory_WireDependencies =
     [(DirectoryName, DirectoryName), (DirectoryPath, DirectoryPath), (DirectoryAcls, DirectoryAcls)]"

text \<open>Two sets of inputs, and two states, that agree on a field.\<close>

fun same_config_input :: "config_field \<Rightarrow> config_args \<Rightarrow> config_args \<Rightarrow> bool" where
  "same_config_input ConfigName a b = (ca_Name a = ca_Name b)"
| "same_config_input ConfigPath a b = (ca_Path a = ca_Path b)"
| "same_config_input ConfigContent a b = (ca_Content a = ca_Content b)"
| "same_config_input ConfigAcls a b = (ca_Acls a = ca_Acls b)"
| "same_config_input ConfigContentSize a b = True"

fun same_config_output :: "config_field \<Rightarrow> config_state \<Rightarrow> config_state \<Rightarrow> bool" where
  "same_config_output ConfigName s t = (cs_Name s = cs_Name t)"
| "same_config_output ConfigPath s t = (cs_Path s = cs_Path t)"
| "same_config_output ConfigContent s t = (cs_Content s = cs_Content t)"
| "same_config_output ConfigAcls s t = (cs_Acls s = cs_Acls t)"
| "same_config_output ConfigContentSize s t = (cs_ContentSize s = cs_ContentSize t)"

fun same_directory_input :: "directory_field \<Rightarrow> directory_args \<Rightarrow> directory_args \<Rightarrow> bool" where
  "same_directory_input DirectoryName a b = (da_Name a = da_Name b)"
| "same_directory_input DirectoryPath a b = (da_Path a = da_Path b)"
| "same_directory_input DirectoryAcls a b = (da_Acls a = da_Acls b)"

fun same_directory_output :: "directory_field \<Rightarrow> directory_state \<Rightarrow> directory_state \<Rightarrow> bool" where
  "same_directory_output DirectoryName s t = (ds_Name s = ds_Name t)"
| "same_directory_output DirectoryPath s t = (ds_Path s = ds_Path t)"
| "same_directory_output DirectoryAcls s t = (ds_Acls s = ds_Acls t)"

text \<open>
  The declared dependencies of a config and of a directory are sound and complete for what the
  operations return: an output is the same whenever the input it is wired to is, so a preview that
  knows that input knows the output, and every output is wired.
\<close>

theorem wired_inputs_determine_outputs:
  "(out, inp) \<in> set Config_WireDependencies \<Longrightarrow> same_config_input inp a b \<Longrightarrow>
     same_config_output out (stateFromArgs a) (stateFromArgs b)"
  "fst ` set Config_WireDependencies = UNIV"
  "(out', inp') \<in> set Directory_WireDependencies \<Longrightarrow> same_directory_input inp' d e \<Longrightarrow>
     same_directory_output out' (directoryStateFromArgs d) (directoryStateFromArgs e)"
  "fst ` set Directory_WireDependencies = UNIV"
proof -
  have "x \<in> fst ` set Config_WireDependencies" for x by (cases x) (simp_all add: Config_WireDependencies_def)
  then show "fst ` set Config_WireDependencies = UNIV" by blast
  have "x \<in> fst ` set Directory_WireDependencies" for x by (cases x) (simp_all add: Directory_WireDependencies_def)
  then show "fst ` set Directory_WireDependencies = UNIV" by blast
qed (auto simp: Config_WireDependencies_def Directory_WireDependencies_def stateFromArgs_def directoryStateFromArgs_def)

end
