(* ===== verification/FsSnapshot.thy ===== *)
theory FsSnapshot
  imports Client
begin

unbundle bit_operations_syntax

text \<open>
  The mounted file system of \<open>internal/fs/fs.go\<close>: its options, the snapshot of the tree with its
  three indexes (\<open>FilesystemSnapshot\<close>, \<open>directoryMap\<close>), the operations on the snapshot, which call
  the service and reload the tree, and the growth of a file's content by a write.  The state is
  the server's, the snapshot and the access times; nothing is rolled back when a call fails.
\<close>

section \<open>Options, snapshot and world\<close>

record fs_options =
  o_Owner :: "32 word option"
  o_Group :: "32 word option"
  o_FileMode :: "32 word option"
  o_Writable :: bool
  o_FSName :: "string option"
  o_FSSubtype :: "string option"
  o_RefreshInterval :: int
  o_AdditionalACLOnCreate :: "config_acl list"

record snapshot =
  directory :: "directory option"
  pathDirectory :: "string \<rightharpoonup> directory"
  idConfig :: "string \<rightharpoonup> config"
  fullPathConfig :: "string \<rightharpoonup> config"

text \<open>A snapshot before its first load.\<close>

definition new_snapshot :: snapshot where
  "new_snapshot = \<lparr>directory = None, pathDirectory = Map.empty, idConfig = Map.empty, fullPathConfig = Map.empty\<rparr>"

text \<open>\<open>accessed\<close> is the access-time tracker, \<open>None\<close> for the nil tracker.\<close>

record 's world =
  server :: 's
  snap :: snapshot
  accessed :: "(string \<rightharpoonup> timestamp) option"

datatype fs_error =
    ENOENT
  | Remote rpc_error
  | FetchingContent rpc_error
  | WritingContent rpc_error
  | FsPanic

type_synonym ('s, 'a) fs_op = "('s world, fs_error, 'a) io"

text \<open>A call of the service; \<open>f\<close> wraps its error.\<close>

definition call :: "('s, rpc_error, 'a) io \<Rightarrow> (rpc_error \<Rightarrow> fs_error) \<Rightarrow> ('s, 'a) fs_op" where
  "call m f w = (case m (server w) of (Inl e, s) \<Rightarrow> (Inl (f e), w\<lparr>server := s\<rparr>) | (Inr a, s) \<Rightarrow> (Inr a, w\<lparr>server := s\<rparr>))"

section \<open>The indexes\<close>

text \<open>A Go map that may be nil: reading a nil map finds nothing, writing to it panics.\<close>

type_synonym 'v gomap = "(string \<rightharpoonup> 'v) option"

fun map_put :: "'v gomap \<Rightarrow> string \<Rightarrow> 'v \<Rightarrow> 'v gomap option" where
  "map_put None k v = None"
| "map_put (Some m) k v = Some (Some (m(k \<mapsto> v)))"

text \<open>The loop over the configs of one directory.\<close>

fun index_configs :: "config list \<Rightarrow> config gomap \<Rightarrow> config gomap \<Rightarrow> (config gomap \<times> config gomap) option" where
  "index_configs [] c cp = Some (c, cp)"
| "index_configs (x # xs) c cp =
     (case map_put c (c_id x) x of
        None \<Rightarrow> None
      | Some c' \<Rightarrow>
          (case map_put cp (Config_FullPath x) x of
             None \<Rightarrow> None
           | Some cp' \<Rightarrow> index_configs xs c' cp'))"

text \<open>
  \<open>directoryMap\<close>: the first directory of a path stays, the last config of a key wins.  The maps are
  shared with the callees; the result holds what they contain when the call returns, \<open>None\<close> is a
  panic.  The third nil check of the source looks at the second map again, so a nil third map is
  kept.
\<close>

fun directoryMap :: "directory \<Rightarrow> directory gomap \<Rightarrow> config gomap \<Rightarrow> config gomap \<Rightarrow>
    (directory gomap \<times> config gomap \<times> config gomap) option"
  and directoryMap_children :: "directory list \<Rightarrow> directory gomap \<Rightarrow> config gomap \<Rightarrow> config gomap \<Rightarrow>
    (directory gomap \<times> config gomap \<times> config gomap) option" where
  "directoryMap (Directory i n p ds cs acls) m c cp =
     (let t = Directory i n p ds cs acls;
          mapToPopulate = (case m of None \<Rightarrow> Map.empty | Some x \<Rightarrow> x);
          configMapToPopulate = (if Option.is_none c then Some Map.empty else c);
          configPathMapToPopulate = (if Option.is_none configMapToPopulate then Some Map.empty else cp);
          m' = (if mapToPopulate (Directory_FullPath t) = None
                then mapToPopulate(Directory_FullPath t \<mapsto> t) else mapToPopulate)
      in case index_configs cs configMapToPopulate configPathMapToPopulate of
           None \<Rightarrow> None
         | Some (c', cp') \<Rightarrow> directoryMap_children ds (Some m') c' cp')"
| "directoryMap_children [] m c cp = Some (m, c, cp)"
| "directoryMap_children (d # ds) m c cp =
     (case directoryMap d m c cp of
        None \<Rightarrow> None
      | Some (m', c', cp') \<Rightarrow> directoryMap_children ds m' c' cp')"

text \<open>A nil top has no configs and no directories; the nil it stores under the root reads as absent.\<close>

definition index_top :: "directory option \<Rightarrow> ((string \<rightharpoonup> directory) \<times> (string \<rightharpoonup> config) \<times> (string \<rightharpoonup> config)) option" where
  "index_top t =
     (case t of
        None \<Rightarrow> Some (Map.empty, Map.empty, Map.empty)
      | Some d \<Rightarrow>
          (case directoryMap d (Some Map.empty) (Some Map.empty) (Some Map.empty) of
             Some (Some m, Some c, Some cp) \<Rightarrow> Some (m, c, cp)
           | _ \<Rightarrow> None))"

section \<open>Operations on the snapshot\<close>

text \<open>What \<open>Refresh\<close> makes of the answer to its \<open>List\<close> call: its error and the snapshot it leaves.\<close>

definition load :: "rpc_error + directory option \<Rightarrow> snapshot \<Rightarrow> fs_error option \<times> snapshot" where
  "load res sn =
     (case res of
        Inl e \<Rightarrow> (Some (Remote e), sn)
      | Inr t \<Rightarrow>
          (case index_top t of
             None \<Rightarrow> (Some FsPanic, sn\<lparr>directory := t\<rparr>)
           | Some (dMap, cMap, cpMap) \<Rightarrow>
               (None, \<lparr>directory = t, pathDirectory = dMap, idConfig = cMap, fullPathConfig = cpMap\<rparr>)))"

definition Refresh :: "'s client \<Rightarrow> ('s, unit) fs_op" where
  "Refresh cl = (\<lambda>w.
     case rpc_List cl [] (server w) of (res, s) \<Rightarrow>
       (case load res (snap w) of (err, sn) \<Rightarrow>
          ((case err of None \<Rightarrow> Inr () | Some e \<Rightarrow> Inl e), w\<lparr>server := s, snap := sn\<rparr>)))"

definition Snapshot_Directory :: "snapshot \<Rightarrow> string \<Rightarrow> directory option" where
  "Snapshot_Directory sn path = pathDirectory sn path"

definition Snapshot_Config :: "snapshot \<Rightarrow> string \<Rightarrow> config option" where
  "Snapshot_Config sn i = idConfig sn i"

definition ConfigByPath :: "snapshot \<Rightarrow> string \<Rightarrow> config option" where
  "ConfigByPath sn path = fullPathConfig sn path"

definition GetId :: "config option \<Rightarrow> string" where
  "GetId c = (case c of None \<Rightarrow> [] | Some c \<Rightarrow> c_id c)"

definition FullConfig :: "'s client \<Rightarrow> config option \<Rightarrow> ('s, config option) fs_op" where
  "FullConfig cl c = call (rpc_GetConfig cl (GetId c) None) FetchingContent"

definition Snapshot_Remove :: "'s client \<Rightarrow> string \<Rightarrow> ('s, unit) fs_op" where
  "Snapshot_Remove cl path = (\<lambda>w.
     case ConfigByPath (snap w) path of
       None \<Rightarrow> (Inl ENOENT, w)
     | Some config \<Rightarrow> io_bind (call (rpc_DeleteConfig cl (c_id config)) Remote) (\<lambda>_. Refresh cl) w)"

definition Snapshot_Create :: "'s client \<Rightarrow> config \<Rightarrow> ('s, config option) fs_op" where
  "Snapshot_Create cl c =
     io_bind (call (rpc_SetConfig cl c) Remote)
       (\<lambda>created. io_bind (Refresh cl) (\<lambda>_ w. (Inr (Snapshot_Config (snap w) (GetId created)), w)))"

definition Snapshot_Mkdir :: "'s client \<Rightarrow> string \<Rightarrow> string \<Rightarrow> config_acl list \<Rightarrow> ('s, directory option) fs_op" where
  "Snapshot_Mkdir cl parentPath name acls =
     io_bind (call (rpc_CreateDirectory cl (Directory [] name parentPath [] [] acls)) Remote)
       (\<lambda>created. io_bind (Refresh cl) (\<lambda>_. io_return created))"

definition Rmdir :: "'s client \<Rightarrow> string \<Rightarrow> string \<Rightarrow> ('s, unit) fs_op" where
  "Rmdir cl parentPath name = (\<lambda>w.
     case Snapshot_Directory (snap w) parentPath of
       None \<Rightarrow> (Inl ENOENT, w)
     | Some parent \<Rightarrow>
         (case find (\<lambda>child. d_name child = name) (d_directories parent) of
            None \<Rightarrow> (Inl ENOENT, w)
          | Some target \<Rightarrow> io_bind (call (rpc_DeleteDirectory cl (d_id target)) Remote) (\<lambda>_. Refresh cl) w))"

text \<open>\<open>h\<close> edits the config in place; on a nil config it panics.\<close>

definition Snapshot_Write :: "'s client \<Rightarrow> config option \<Rightarrow> (config \<Rightarrow> fs_error + config) \<Rightarrow> ('s, unit) fs_op" where
  "Snapshot_Write cl c h =
     io_bind (FullConfig cl c)
       (\<lambda>full. case full of
          None \<Rightarrow> io_fail FsPanic
        | Some f \<Rightarrow>
            (case h f of
               Inl e \<Rightarrow> io_fail e
             | Inr edited \<Rightarrow> io_bind (call (rpc_SetConfig cl edited) WritingContent) (\<lambda>_. Refresh cl)))"

section \<open>The content of a written file\<close>

text \<open>
  \<open>int(req.Offset) + len(req.Data)\<close> in 64-bit two's complement, \<open>copy\<close>, and the slice expression
  \<open>content[lo:hi]\<close> with its bounds check.
\<close>

definition int64_add :: "int \<Rightarrow> int \<Rightarrow> int" where
  "int64_add a b = sint (word_of_int a + word_of_int b :: 64 word)"

definition go_copy :: "'a list \<Rightarrow> 'a list \<Rightarrow> 'a list" where
  "go_copy dst src = take (length dst) src @ drop (length src) dst"

definition copy_into :: "'a list \<Rightarrow> int \<Rightarrow> int \<Rightarrow> 'a list \<Rightarrow> 'a list option" where
  "copy_into content lo hi data =
     (if 0 \<le> lo \<and> lo \<le> hi \<and> hi \<le> int (length content)
      then Some (take (nat lo) content @ go_copy (drop (nat lo) (take (nat hi) content)) data @ drop (nat hi) content)
      else None)"

text \<open>The closure of \<open>Config.Write\<close>; a nil content that does not grow stays nil.\<close>

definition write_handler :: "int \<Rightarrow> bytes \<Rightarrow> config \<Rightarrow> fs_error + config" where
  "write_handler offset data conf =
     (let content = (case c_content conf of None \<Rightarrow> [] | Some b \<Rightarrow> b);
          end_pos = int64_add offset (int (length data));
          grows = int (length content) < end_pos;
          grown = (if grows then go_copy (replicate (nat end_pos) 0) content else content)
      in case copy_into grown offset end_pos data of
           None \<Rightarrow> Inl FsPanic
         | Some b \<Rightarrow>
             Inr (conf\<lparr>c_content := (if grows then Some b else map_option (\<lambda>_. b) (c_content conf)),
                       c_content_size := word_of_int (int (length b))\<rparr>))"

end
