(* ===== verification/FsNodes.thy ===== *)
theory FsNodes
  imports FsSnapshot
begin

text \<open>
  The nodes of the mount in \<open>internal/fs/fs.go\<close>: the access-time tracker, the attributes of
  directories and files, and the operations the kernel calls on them (\<open>Lookup\<close>, \<open>ReadDirAll\<close>,
  \<open>Remove\<close>, \<open>Mkdir\<close>, \<open>Create\<close>, \<open>ReadAll\<close>, \<open>Write\<close>).  A \<open>Dir\<close> is identified by its path and a
  file by its config id; both read whatever snapshot is current.
\<close>

section \<open>Access times\<close>

definition newAccessTimes :: "(string \<rightharpoonup> timestamp) option" where
  "newAccessTimes = Some Map.empty"

definition touch :: "(string \<rightharpoonup> timestamp) option \<Rightarrow> timestamp \<Rightarrow> string \<Rightarrow> (string \<rightharpoonup> timestamp) option" where
  "touch a now i = (case a of None \<Rightarrow> None | Some m \<Rightarrow> Some (m(i \<mapsto> now)))"

definition get_access :: "(string \<rightharpoonup> timestamp) option \<Rightarrow> string \<Rightarrow> timestamp option" where
  "get_access a i = (case a of None \<Rightarrow> None | Some m \<Rightarrow> m i)"

section \<open>Attributes\<close>

text \<open>\<open>fuse.Attr\<close>; \<open>None\<close> is the zero time.\<close>

record attr =
  a_Inode :: "64 word"
  a_Size :: "64 word"
  a_Mode :: "32 word"
  a_Uid :: "32 word"
  a_Gid :: "32 word"
  a_Mtime :: "timestamp option"
  a_Ctime :: "timestamp option"
  a_Atime :: "timestamp option"

text \<open>The attributes an answer starts from.\<close>

definition zero_attr :: attr where
  "zero_attr = \<lparr>a_Inode = 0, a_Size = 0, a_Mode = 0, a_Uid = 0, a_Gid = 0,
     a_Mtime = None, a_Ctime = None, a_Atime = None\<rparr>"

text \<open>\<open>os.ModeDir\<close>.\<close>

definition ModeDir :: "32 word" where
  "ModeDir = 0x80000000"

definition mergeOptsWithAttr :: "fs_options option \<Rightarrow> attr \<Rightarrow> attr" where
  "mergeOptsWithAttr opts a =
     (case opts of
        None \<Rightarrow> a
      | Some opts \<Rightarrow>
          (let a = (case o_FileMode opts of None \<Rightarrow> a | Some m \<Rightarrow> a\<lparr>a_Mode := a_Mode a OR m\<rparr>);
               a = (case o_Owner opts of None \<Rightarrow> a | Some u \<Rightarrow> a\<lparr>a_Uid := u\<rparr>)
           in (case o_Group opts of None \<Rightarrow> a | Some g \<Rightarrow> a\<lparr>a_Gid := g\<rparr>)))"

definition Dir_Attr :: "fs_options option \<Rightarrow> 's world \<Rightarrow> string \<Rightarrow> attr \<Rightarrow> attr" where
  "Dir_Attr opts w path a =
     (let a = a\<lparr>a_Inode := Directory_NumericalInode (Snapshot_Directory (snap w) path)\<rparr>;
          a = a\<lparr>a_Mode := a_Mode a OR ModeDir\<rparr>
      in mergeOptsWithAttr opts a)"

definition Config_Attr :: "fs_options option \<Rightarrow> 's world \<Rightarrow> string \<Rightarrow> attr \<Rightarrow> attr" where
  "Config_Attr opts w i a =
     (let c = Snapshot_Config (snap w) i;
          a = a\<lparr>a_Inode := Config_NumericalInode c, a_Size := (case c of None \<Rightarrow> 0 | Some c \<Rightarrow> c_content_size c)\<rparr>;
          a = (case (case c of None \<Rightarrow> None | Some c \<Rightarrow> c_updated_at c) of
                 None \<Rightarrow> a
               | Some updated \<Rightarrow> a\<lparr>a_Mtime := Some updated, a_Ctime := Some updated, a_Atime := Some updated\<rparr>);
          a = (case get_access (accessed w) i of None \<Rightarrow> a | Some t \<Rightarrow> a\<lparr>a_Atime := Some t\<rparr>)
      in mergeOptsWithAttr opts a)"

section \<open>Directories\<close>

datatype node = DirNode string | ConfigNode string

datatype dirent_type = DT_Dir | DT_File

record dirent =
  de_Inode :: "64 word"
  de_Name :: string
  de_Type :: dirent_type

definition GetDirectories :: "directory option \<Rightarrow> directory list" where
  "GetDirectories d = (case d of None \<Rightarrow> [] | Some d \<Rightarrow> d_directories d)"

definition GetConfigs :: "directory option \<Rightarrow> config list" where
  "GetConfigs d = (case d of None \<Rightarrow> [] | Some d \<Rightarrow> d_configs d)"

definition Lookup :: "'s world \<Rightarrow> string \<Rightarrow> string \<Rightarrow> fs_error + node" where
  "Lookup w path name =
     (let dir = Snapshot_Directory (snap w) path
      in case find (\<lambda>d. d_name d = name) (GetDirectories dir) of
           Some d \<Rightarrow> Inr (DirNode (Directory_FullPath d))
         | None \<Rightarrow>
             (case find (\<lambda>c. c_name c = name) (GetConfigs dir) of
                Some c \<Rightarrow> Inr (ConfigNode (c_id c))
              | None \<Rightarrow> Inl ENOENT))"

definition ReadDirAll :: "'s world \<Rightarrow> string \<Rightarrow> dirent list" where
  "ReadDirAll w path =
     (let dir = Snapshot_Directory (snap w) path
      in map (\<lambda>d. \<lparr>de_Inode = Directory_NumericalInode (Some d), de_Name = d_name d, de_Type = DT_Dir\<rparr>)
           (GetDirectories dir) @
         map (\<lambda>c. \<lparr>de_Inode = Config_NumericalInode (Some c), de_Name = c_name c, de_Type = DT_File\<rparr>)
           (GetConfigs dir))"

text \<open>A remove request carries the name and whether it is a directory that is removed.\<close>

definition Dir_Remove :: "'s client \<Rightarrow> string \<Rightarrow> string \<Rightarrow> bool \<Rightarrow> ('s, unit) fs_op" where
  "Dir_Remove cl path name is_dir =
     (if is_dir then Rmdir cl path name else Snapshot_Remove cl (path @ ''/'' @ name))"

definition Dir_Mkdir :: "'s client \<Rightarrow> string \<Rightarrow> string \<Rightarrow> ('s, node) fs_op" where
  "Dir_Mkdir cl path name = (\<lambda>w.
     (let acls = (case Snapshot_Directory (snap w) path of None \<Rightarrow> [] | Some parent \<Rightarrow> d_acls parent)
      in io_bind (Snapshot_Mkdir cl path name acls)
           (\<lambda>created. io_return (DirNode (case created of None \<Rightarrow> ''/'' | Some d \<Rightarrow> Directory_FullPath d))) w))"

text \<open>The config a create request asks for, and the node with the attributes of the answer.\<close>

definition created_config :: "string \<Rightarrow> string \<Rightarrow> config" where
  "created_config path name =
     \<lparr>c_id = [], c_name = name, c_content = Some [], c_content_size = 0, c_path = path,
      c_acls = [\<lparr>acl_level = Acl_WRITE, acl_tag = [], acl_everyone = True\<rparr>],
      c_created_at = None, c_updated_at = None, c_current_content_id = []\<rparr>"

definition Dir_Create :: "'s client \<Rightarrow> fs_options option \<Rightarrow> string \<Rightarrow> string \<Rightarrow> attr \<Rightarrow> ('s, node \<times> attr) fs_op" where
  "Dir_Create cl opts path name a =
     io_bind (Snapshot_Create cl (created_config path name))
       (\<lambda>created w. (Inr (ConfigNode (GetId created), Config_Attr opts w (GetId created) a), w))"

section \<open>Files\<close>

definition ReadAll :: "'s client \<Rightarrow> timestamp \<Rightarrow> string \<Rightarrow> ('s, bytes) fs_op" where
  "ReadAll cl now i = (\<lambda>w.
     io_bind (FullConfig cl (Snapshot_Config (snap w) i))
       (\<lambda>full w. (Inr (case full of None \<Rightarrow> [] | Some c \<Rightarrow> (case c_content c of None \<Rightarrow> [] | Some b \<Rightarrow> b)),
          w\<lparr>accessed := touch (accessed w) now i\<rparr>)) w)"

text \<open>The result is the \<open>Size\<close> of the response.\<close>

definition Config_Write :: "'s client \<Rightarrow> string \<Rightarrow> int \<Rightarrow> bytes \<Rightarrow> ('s, nat) fs_op" where
  "Config_Write cl i offset data = (\<lambda>w.
     io_bind (Snapshot_Write cl (Snapshot_Config (snap w) i) (write_handler offset data))
       (\<lambda>_. io_return (length data)) w)"

end
