(* ===== verification/FsMount.thy ===== *)
theory FsMount
  imports FsNodes
begin

text \<open>
  The life of a mount in \<open>internal/fs/fs.go\<close> (\<open>RemoteConfigFS\<close>): its defaults, the checks and
  commands before mounting, loading and reloading the snapshot, and the root node.  Snapshots and
  the root are objects shared by pointer, so the state keeps the list of allocated snapshots and
  pointers into it.  The outcomes of external commands and of the calls of the service are
  arguments.
\<close>

section \<open>Options\<close>

definition NewRemoteConfigFS :: "fs_options option \<Rightarrow> fs_options" where
  "NewRemoteConfigFS opts =
     (let o0 = \<lparr>o_Owner = Some 0, o_Group = Some 0, o_FileMode = Some 0x124, o_Writable = True,
                o_FSName = None, o_FSSubtype = None, o_RefreshInterval = 10 * 1000000000, o_AdditionalACLOnCreate = []\<rparr>
      in case opts of None \<Rightarrow> o0 | Some opts \<Rightarrow> opts)"

datatype mount_option = FSName string | Subtype string | ReadOnly

definition mount_options :: "fs_options \<Rightarrow> mount_option list" where
  "mount_options opts =
     (let fsName = (case o_FSName opts of None \<Rightarrow> ''configfs'' | Some n \<Rightarrow> n);
          subType = (case o_FSSubtype opts of None \<Rightarrow> ''configfs'' | Some n \<Rightarrow> n);
          os = [FSName fsName, Subtype subType]
      in if \<not> o_Writable opts then os @ [ReadOnly] else os)"

section \<open>Before mounting\<close>

text \<open>How a command ended: \<open>ExecExit\<close> with its exit code and output, \<open>ExecError\<close> without running.\<close>

datatype exec_result = ExecOk | ExecExit int string | ExecError

datatype findmnt_error = UnexpectedOutput string | UnexpectedExit int | UnexpectedError

definition mountExists :: "exec_result \<Rightarrow> findmnt_error + bool" where
  "mountExists findmnt =
     (case findmnt of
        ExecOk \<Rightarrow> Inr True
      | ExecExit code out \<Rightarrow>
          if code = 1 then (if out = trim_space out then Inr False else Inl (UnexpectedOutput out))
          else Inl (UnexpectedExit code)
      | ExecError \<Rightarrow> Inl UnexpectedError)"

datatype unmount_error = CheckFailed findmnt_error | NoneSucceeded "exec_result list"

text \<open>
  The library's unmount and then both commands are attempted, whatever the first one did; the
  failures are collected.
\<close>

definition AttemptUnmountIfNecessary ::
    "exec_result \<Rightarrow> exec_result \<Rightarrow> (string list \<Rightarrow> exec_result) \<Rightarrow> string \<Rightarrow> unmount_error + unit" where
  "AttemptUnmountIfNecessary findmnt fuse_unmount command mountPoint =
     (case mountExists findmnt of
        Inl e \<Rightarrow> Inl (CheckFailed e)
      | Inr exists \<Rightarrow>
          if \<not> exists then Inr ()
          else
            (let errors = (if fuse_unmount \<noteq> ExecOk then [fuse_unmount] else []);
                 commandsToAttempt = [[''fusermount'', ''-u'', mountPoint], [''fusermount'', ''-uz'', mountPoint]];
                 errors = errors @ filter (\<lambda>r. r \<noteq> ExecOk) (map command commandsToAttempt)
             in if length errors \<noteq> length commandsToAttempt then Inr ()
                else Inl (NoneSucceeded errors)))"

datatype stat_result = StatDir | StatOther | StatNotExist | StatError

datatype mount_point_error = NotADirectory | StatFailed | MkdirFailed

text \<open>The error, and whether \<open>MkdirAll\<close> was called.\<close>

definition EnsureMountPoint :: "stat_result \<Rightarrow> bool \<Rightarrow> (mount_point_error + unit) \<times> bool" where
  "EnsureMountPoint info mkdir_ok =
     (case info of
        StatDir \<Rightarrow> (Inr (), False)
      | StatOther \<Rightarrow> (Inl NotADirectory, False)
      | StatError \<Rightarrow> (Inl StatFailed, False)
      | StatNotExist \<Rightarrow> if mkdir_ok then (Inr (), True) else (Inl MkdirFailed, True))"

section \<open>The mounted file system\<close>

datatype refresh_log = LoadFailing | LoadRecovered

record remote_fs =
  fuseMount :: bool
  snapshots :: "snapshot list"
  current :: "nat option"
  root :: "nat option option"
  backgroundRefreshStarted :: bool
  refreshFailing :: bool
  logged :: "refresh_log list"

definition new_remote :: remote_fs where
  "new_remote = \<lparr>fuseMount = False, snapshots = [], current = None, root = None,
     backgroundRefreshStarted = False, refreshFailing = False, logged = []\<rparr>"

datatype mount_error = AlreadyMounted | MountFailed

definition Mount :: "fs_options \<Rightarrow> (mount_option list \<Rightarrow> bool) \<Rightarrow> remote_fs \<Rightarrow> (mount_error + unit) \<times> remote_fs" where
  "Mount opts fuse_mount st =
     (if fuseMount st then (Inl AlreadyMounted, st)
      else if \<not> fuse_mount (mount_options opts) then (Inl MountFailed, st)
      else (Inr (), st\<lparr>fuseMount := True\<rparr>))"

text \<open>\<open>refresh\<close> on the snapshot object \<open>p\<close>, with the answer to its \<open>List\<close> call.\<close>

definition refresh :: "nat \<Rightarrow> rpc_error + directory option \<Rightarrow> remote_fs \<Rightarrow> remote_fs" where
  "refresh p res st =
     (case load res (snapshots st ! p) of (err, sn) \<Rightarrow>
        (let logs = (if err \<noteq> None \<and> \<not> refreshFailing st then [LoadFailing]
                     else if err = None \<and> refreshFailing st then [LoadRecovered] else [])
         in st\<lparr>snapshots := (snapshots st)[p := sn], logged := logged st @ logs, refreshFailing := (err \<noteq> None)\<rparr>))"

definition LoadSnapshot :: "rpc_error + directory option \<Rightarrow> remote_fs \<Rightarrow> remote_fs" where
  "LoadSnapshot res st =
     (let p = length (snapshots st)
      in refresh p res (st\<lparr>snapshots := snapshots st @ [new_snapshot], current := Some p\<rparr>))"

text \<open>One firing of the timer, and the loop over the firings before the context is done.\<close>

definition tick :: "remote_fs \<Rightarrow> rpc_error + directory option \<Rightarrow> remote_fs" where
  "tick st res = (case current st of None \<Rightarrow> st | Some p \<Rightarrow> refresh p res st)"

definition backgroundLoop :: "(rpc_error + directory option) list \<Rightarrow> remote_fs \<Rightarrow> remote_fs" where
  "backgroundLoop firings st =
     (if backgroundRefreshStarted st then st
      else foldl tick (st\<lparr>backgroundRefreshStarted := True\<rparr>) firings)"

text \<open>The snapshot pointer of the root \<open>Dir\<close>, whose path is a slash; it is made once.\<close>

definition Root :: "remote_fs \<Rightarrow> nat option \<times> remote_fs" where
  "Root st =
     (case root st of
        Some d \<Rightarrow> (d, st)
      | None \<Rightarrow> (current st, st\<lparr>root := Some (current st)\<rparr>))"

text \<open>
  \<open>Serve\<close> starts the refresh loop and hands itself to the FUSE library, which asks for the root; the
  loop only reads the pointer that the root was made from, so their order does not matter.
\<close>

definition Serve :: "(rpc_error + directory option) list \<Rightarrow> remote_fs \<Rightarrow> remote_fs" where
  "Serve firings st = backgroundLoop firings (snd (Root st))"

text \<open>
  \<open>Close\<close> drops the outcome of the unmount and returns that of closing the connection, which is a
  method of the library, given whether it is called on a connection or on nil.
\<close>

definition Close :: "bool \<Rightarrow> (bool \<Rightarrow> bool) \<Rightarrow> remote_fs \<Rightarrow> bool \<times> remote_fs" where
  "Close unmounted conn_close st = (let ignored = unmounted in (conn_close (fuseMount st), st))"

lemma closed_is_still_mounted:
  assumes "fst (Mount opts fuse_mount st) = Inr ()"
  shows "Mount opts' fuse_mount' (snd (Close unmounted conn_close (snd (Mount opts fuse_mount st)))) =
    (Inl AlreadyMounted, snd (Mount opts fuse_mount st))"
  using assms by (auto simp: Mount_def Close_def split: if_splits)

end
