(* ===== verification/FsIndex.thy ===== *)
theory FsIndex
  imports FsMount
begin

text \<open>
  What the indexes of a snapshot hold (\<open>directoryMap\<close>, \<open>Refresh\<close> in \<open>internal/fs/fs.go\<close>): in
  general, the first directory of each path and the last config of each key of the loaded tree;
  loaded from the service, exactly what the caller may see, each name leading to its own node.
\<close>

section \<open>The indexes in general\<close>

definition put_first :: "(string \<rightharpoonup> directory) \<Rightarrow> directory \<Rightarrow> (string \<rightharpoonup> directory)" where
  "put_first m d = (if m (Directory_FullPath d) = None then m(Directory_FullPath d \<mapsto> d) else m)"

definition put_by :: "(config \<Rightarrow> string) \<Rightarrow> (string \<rightharpoonup> config) \<Rightarrow> config \<Rightarrow> (string \<rightharpoonup> config)" where
  "put_by k m c = m(k c \<mapsto> c)"

lemma index_configs_eq:
  "index_configs cs (Some c) (Some cp) = Some (Some (foldl (put_by c_id) c cs), Some (foldl (put_by Config_FullPath) cp cs))"
  by (induction cs arbitrary: c cp) (simp_all add: put_by_def)

definition indexed :: "directory \<Rightarrow> bool" where
  "indexed d \<longleftrightarrow> (\<forall>m c cp. directoryMap d (Some m) (Some c) (Some cp) =
     Some (Some (foldl put_first m (tree_nodes d)), Some (foldl (put_by c_id) c (tree_configs d)),
       Some (foldl (put_by Config_FullPath) cp (tree_configs d))))"

lemma indexed_children:
  assumes "\<And>d. d \<in> set ds \<Longrightarrow> indexed d"
  shows "directoryMap_children ds (Some m) (Some c) (Some cp) =
     Some (Some (foldl put_first m (concat (map tree_nodes ds))), Some (foldl (put_by c_id) c (concat (map tree_configs ds))),
       Some (foldl (put_by Config_FullPath) cp (concat (map tree_configs ds))))"
  using assms
proof (induction ds arbitrary: m c cp)
  case (Cons d ds)
  then have "indexed d" by simp
  with Cons show ?case by (simp add: indexed_def)
qed simp

lemma directoryMap_indexed: "indexed d"
proof (induction d)
  case (Directory i n p ds cs acls)
  show ?case
    unfolding indexed_def
    by (auto simp: index_configs_eq indexed_children [OF Directory] put_first_def Let_def)
qed

lemma find_Cons_none: "find P (xs @ ys) = (case find P xs of None \<Rightarrow> find P ys | Some x \<Rightarrow> Some x)"
  by (rule find_append)

lemma foldl_put_first:
  "foldl put_first m ds p = (case m p of None \<Rightarrow> find (\<lambda>d. Directory_FullPath d = p) ds | Some d \<Rightarrow> Some d)"
  by (induction ds arbitrary: m) (auto simp: put_first_def split: option.split)

lemma foldl_put_by:
  "foldl (put_by k) m cs i = (case find (\<lambda>c. k c = i) (rev cs) of None \<Rightarrow> m i | Some c \<Rightarrow> Some c)"
  by (induction cs arbitrary: m) (auto simp: put_by_def find_append split: option.split)

lemma index_top_tree:
  "index_top (Some t) = Some (\<lambda>p. find (\<lambda>d. Directory_FullPath d = p) (tree_nodes t),
     \<lambda>i. find (\<lambda>c. c_id c = i) (rev (tree_configs t)),
     \<lambda>p. find (\<lambda>c. Config_FullPath c = p) (rev (tree_configs t)))"
proof -
  have "foldl put_first Map.empty (tree_nodes t) = (\<lambda>p. find (\<lambda>d. Directory_FullPath d = p) (tree_nodes t))"
    by (rule ext) (simp add: foldl_put_first)
  moreover have "foldl (put_by k) Map.empty cs = (\<lambda>i. find (\<lambda>c. k c = i) (rev cs))" for k cs
    by (rule ext) (simp add: foldl_put_by split: option.split)
  ultimately show ?thesis
    using directoryMap_indexed [of t] by (simp add: index_top_def indexed_def)
qed

text \<open>
  \<open>directoryMap\<close> over fresh maps never fails, and the three indexes it builds are these: under a
  path, the first directory of the tree with that full path; under an id, the last config with
  that id; under a path, the last config with that full path.
\<close>

theorem index_of_tree:
  "index_top (Some t) = Some (\<lambda>p. find (\<lambda>d. Directory_FullPath d = p) (tree_nodes t),
     \<lambda>i. find (\<lambda>c. c_id c = i) (rev (tree_configs t)),
     \<lambda>p. find (\<lambda>c. Config_FullPath c = p) (rev (tree_configs t)))"
  by (rule index_top_tree)

end
