(* ===== verification/FsLookup.thy ===== *)
theory FsLookup
  imports FsIndex
begin

text \<open>
  A mount whose snapshot was loaded from the service of \<open>internal/api/server.go\<close>: the files and
  directories it shows are those of the database that the caller may see, \<open>Lookup\<close> finds each under
  its own name and nothing else, and it agrees with \<open>ReadDirAll\<close>.
\<close>

section \<open>The loaded tree\<close>

definition snapshot_of :: "directory \<Rightarrow> snapshot" where
  "snapshot_of t = \<lparr>directory = Some t,
     pathDirectory = (\<lambda>p. find (\<lambda>d. Directory_FullPath d = p) (tree_nodes t)),
     idConfig = (\<lambda>i. find (\<lambda>c. c_id c = i) (rev (tree_configs t))),
     fullPathConfig = (\<lambda>p. find (\<lambda>c. Config_FullPath c = p) (rev (tree_configs t)))\<rparr>"

lemma index_top_eq: "index_top (Some t) = Some (pathDirectory (snapshot_of t), idConfig (snapshot_of t), fullPathConfig (snapshot_of t))"
  by (simp add: index_top_tree snapshot_of_def)

lemma Refresh_api:
  assumes inv: "store_inv (server w)"
  obtains t where "Refresh (api_client q allowed tags now) w = (Inr (), w\<lparr>snap := snapshot_of t\<rparr>)"
    "TreeForACLTags (server w) tags [] = Inr t" "d_id t = ''0''"
    "populated (granted_directories (server w) tags) (visible_configs (server w) tags []) [] t"
    "\<forall>x \<in> set (tree_nodes t). x = t \<or> (\<exists>r \<in> set (granted_directories (server w) tags).
       node_of (server w) (granted_directories (server w) tags) (visible_configs (server w) tags []) r x)"
proof -
  obtain t where t: "TreeForACLTags (server w) tags [] = Inr t" "d_id t = ''0''"
    "populated (granted_directories (server w) tags) (visible_configs (server w) tags []) [] t"
    "\<forall>x \<in> set (tree_nodes t). x = t \<or> (\<exists>r \<in> set (granted_directories (server w) tags).
       node_of (server w) (granted_directories (server w) tags) (visible_configs (server w) tags []) r x)"
    using TreeForACLTags_spec [OF inv] .
  have "List_tree (server w) tags [] = Inr (Some t)" using t(1) by (simp add: List_tree_def)
  then have "Refresh (api_client q allowed tags now) w = (Inr (), w\<lparr>snap := snapshot_of t\<rparr>)"
    by (simp add: Refresh_def over_rpc_def load_def index_top_eq) (simp add: snapshot_of_def)
  with t show thesis by (intro that [of t])
qed

lemma snapshot_config:
  assumes inv: "store_inv s" and t: "populated (granted_directories s tags) (visible_configs s tags []) [] t"
  shows "idConfig (snapshot_of t) i = map_option (stored_config s)
    (find (\<lambda>r. show_int (cr_id r) = i \<and> config_visible s tags r) (config_table s))"
proof -
  let ?P = "\<lambda>r. show_int (cr_id r) = i \<and> config_visible s tags r"
  note cs = visible_tree_configs [OF inv t]
  have uniq: "x = y" if "x \<in> set (config_table s)" "y \<in> set (config_table s)" "show_int (cr_id x) = show_int (cr_id y)" for x y
    using that parse_cr_id [OF inv] cr_id_unique [OF inv] by (metis option.inject)
  have id: "c_id (stored_config s r) = show_int (cr_id r)" for r by (simp add: stored_config_def)
  show ?thesis
  proof (cases "find ?P (config_table s)")
    case None
    then have "\<not> c_id c = i" if "c \<in> set (tree_configs t)" for c
      using that cs id by (auto simp: find_None_iff)
    then have "find (\<lambda>c. c_id c = i) (rev (tree_configs t)) = None" by (simp add: find_None_iff)
    with None show ?thesis by (simp add: snapshot_of_def)
  next
    case (Some r)
    then have r: "r \<in> set (config_table s)" "?P r" by (auto simp: find_Some_iff)
    have "find (\<lambda>c. c_id c = i) (rev (tree_configs t)) = Some (stored_config s r)"
    proof (rule find_unique)
      show "stored_config s r \<in> set (rev (tree_configs t))" using r cs by (auto simp: in_prefix_def)
      show "c_id (stored_config s r) = i" using r id by simp
      fix d assume d: "d \<in> set (rev (tree_configs t))" "c_id d = i"
      then have "d \<in> stored_config s ` {r \<in> set (config_table s). in_prefix [] (cr_path r) \<and> config_visible s tags r}"
        unfolding set_rev cs by blast
      then obtain y where y: "y \<in> set (config_table s)" "d = stored_config s y" by blast
      then have "show_int (cr_id r) = show_int (cr_id y)" using d(2) id r(2) by simp
      then have "r = y" by (rule uniq [OF r(1) y(1)])
      with y(2) show "d = stored_config s r" by simp
    qed
    with Some show ?thesis by (simp add: snapshot_of_def)
  qed
qed

text \<open>The node the snapshot has for a path.\<close>

lemma snapshot_directory:
  assumes inv: "store_inv s" and t: "d_id t = ''0''" "populated (granted_directories s tags) (visible_configs s tags []) [] t"
    "\<forall>x \<in> set (tree_nodes t). x = t \<or> (\<exists>r \<in> set (granted_directories s tags).
       node_of s (granted_directories s tags) (visible_configs s tags []) r x)"
    and ps: "good_path ps"
  shows "case pathDirectory (snapshot_of t) (abs_path ps) of
      None \<Rightarrow> \<not> path_granted s tags ps
    | Some z \<Rightarrow> path_granted s tags ps \<and> populated (granted_directories s tags) (visible_configs s tags []) ps z"
proof -
  note ok = store_inv_dirs [OF inv]
  have good: "good_path (row_parts r)" if "r \<in> set (granted_directories s tags)" for r
    using that good_row_parts [OF ok] by (simp add: set_granted_directories)
  have node: "\<exists>qs. good_path qs \<and> Directory_FullPath x = abs_path qs \<and> path_granted s tags qs \<and>
      populated (granted_directories s tags) (visible_configs s tags []) qs x" if x: "x \<in> set (tree_nodes t)" for x
  proof (cases "x = t")
    case True
    with t(2) show ?thesis by (intro exI [of _ "[]"]) (simp add: populated_def)
  next
    case False
    with x t(3) obtain r where "r \<in> set (granted_directories s tags)"
      "populated (granted_directories s tags) (visible_configs s tags []) (row_parts r) x"
      unfolding node_of_def by blast
    with good show ?thesis by (intro exI [of _ "row_parts r"]) (simp add: populated_def set_granted_directories)
  qed
  show ?thesis
  proof (cases "pathDirectory (snapshot_of t) (abs_path ps)")
    case None
    then have none: "\<forall>x \<in> set (tree_nodes t). Directory_FullPath x \<noteq> abs_path ps"
      by (simp add: snapshot_of_def find_None_iff)
    have "\<not> path_granted s tags ps"
    proof
      assume g: "path_granted s tags ps"
      have "t \<in> set (tree_nodes t)" by (cases t) simp
      with none t(2) have "ps \<noteq> []" by (auto simp: populated_def)
      then have "ps \<in> row_parts ` set (directory_table s)" using path_granted_exists [OF g] by (simp add: dir_tree_None)
      then obtain r where r: "r \<in> set (directory_table s)" "row_parts r = ps" by blast
      then have "r \<in> set (granted_directories s tags)" using g by (simp add: set_granted_directories)
      moreover have "strict_prefix [] (row_parts r)" by (metis prefix_order.less_le prefix_bot.bot_least row_parts_not_Nil)
      ultimately have "show_int (dr_id r) \<in> d_id ` set (tree_nodes t)" using t(2) unfolding populated_def by blast
      then obtain x where x: "x \<in> set (tree_nodes t)" "d_id x = show_int (dr_id r)" by force
      have "x \<noteq> t" using x(2) t(1) dr_id_not_zero [OF inv r(1)] by auto
      with x(1) t(3) obtain y where y: "y \<in> set (granted_directories s tags)"
        "node_of s (granted_directories s tags) (visible_configs s tags []) y x" by blast
      then have "y \<in> set (directory_table s)" "show_int (dr_id y) = show_int (dr_id r)"
        using x(2) by (simp_all add: set_granted_directories node_of_def)
      then have "dr_id y = dr_id r" using parse_dr_id [OF inv r(1)] parse_dr_id [OF inv, of y] by simp
      then have "y = r" using dr_id_unique [OF ok _ r(1)] \<open>y \<in> set (directory_table s)\<close> by simp
      then have "Directory_FullPath x = abs_path ps" using y(2) r(2) by (simp add: node_of_def populated_def)
      with none x(1) show False by blast
    qed
    with None show ?thesis by simp
  next
    case (Some z)
    then have z: "z \<in> set (tree_nodes t)" "Directory_FullPath z = abs_path ps"
      by (auto simp: snapshot_of_def find_Some_iff)
    from node [OF z(1)] obtain qs where "good_path qs" "Directory_FullPath z = abs_path qs" "path_granted s tags qs"
      "populated (granted_directories s tags) (visible_configs s tags []) qs z" by blast
    moreover from this(1,2) z(2) ps have "qs = ps" by simp
    ultimately show ?thesis using Some by simp
  qed
qed

lemma Refresh_view:
  assumes inv: "store_inv (server w)" and res: "Refresh (api_client q allowed tags now) w = (r, w')"
  obtains t where "r = Inr ()" "w' = w\<lparr>snap := snapshot_of t\<rparr>" "d_id t = ''0''"
    "populated (granted_directories (server w) tags) (visible_configs (server w) tags []) [] t"
    "\<forall>x \<in> set (tree_nodes t). x = t \<or> (\<exists>r \<in> set (granted_directories (server w) tags).
       node_of (server w) (granted_directories (server w) tags) (visible_configs (server w) tags []) r x)"
proof -
  obtain t where t: "Refresh (api_client q allowed tags now) w = (Inr (), w\<lparr>snap := snapshot_of t\<rparr>)" "d_id t = ''0''"
    "populated (granted_directories (server w) tags) (visible_configs (server w) tags []) [] t"
    "\<forall>x \<in> set (tree_nodes t). x = t \<or> (\<exists>r \<in> set (granted_directories (server w) tags).
       node_of (server w) (granted_directories (server w) tags) (visible_configs (server w) tags []) r x)"
    using Refresh_api [OF inv] by metis
  with res show thesis by (intro that [of t]) simp_all
qed

lemma Refresh_ok:
  assumes "store_inv (server w)" and "Refresh (api_client q allowed tags now) w = (r, w')"
  shows "r = Inr () \<and> server w' = server w"
proof (rule Refresh_view [OF assms])
  fix t assume "r = Inr ()" "w' = w\<lparr>snap := snapshot_of t\<rparr>"
  then show ?thesis by simp
qed

lemma Refresh_config:
  assumes inv: "store_inv (server w)" and res: "Refresh (api_client q allowed tags now) w = (r, w')"
  shows "Snapshot_Config (snap w') i = map_option (stored_config (server w))
    (find (\<lambda>r. show_int (cr_id r) = i \<and> config_visible (server w) tags r) (config_table (server w)))"
proof -
  obtain t where "w' = w\<lparr>snap := snapshot_of t\<rparr>"
    "populated (granted_directories (server w) tags) (visible_configs (server w) tags []) [] t"
    using Refresh_view [OF inv res] by metis
  with snapshot_config [OF inv] show ?thesis by (simp add: Snapshot_Config_def)
qed

lemma Refresh_directory:
  assumes inv: "store_inv (server w)" and res: "Refresh (api_client q allowed tags now) w = (r, w')" and ps: "good_path ps"
  shows "case Snapshot_Directory (snap w') (abs_path ps) of
      None \<Rightarrow> \<not> path_granted (server w) tags ps
    | Some z \<Rightarrow> path_granted (server w) tags ps \<and>
        populated (granted_directories (server w) tags) (visible_configs (server w) tags []) ps z"
proof -
  obtain t where t: "w' = w\<lparr>snap := snapshot_of t\<rparr>" "d_id t = ''0''"
    "populated (granted_directories (server w) tags) (visible_configs (server w) tags []) [] t"
    "\<forall>x \<in> set (tree_nodes t). x = t \<or> (\<exists>r \<in> set (granted_directories (server w) tags).
       node_of (server w) (granted_directories (server w) tags) (visible_configs (server w) tags []) r x)"
    using Refresh_view [OF inv res] by metis
  from snapshot_directory [OF inv t(2-4) ps] show ?thesis by (simp add: t(1) Snapshot_Directory_def)
qed

text \<open>
  C5: \<open>Refresh\<close> against the service always succeeds, changes nothing on the server, and leaves a
  snapshot that shows the caller's view of the database: under an id the stored config, if there is
  one that the caller may see, and under a path a directory exactly when that whole path is granted.
\<close>

theorem mount_shows_the_visible:
  assumes inv: "store_inv (server w)" and res: "Refresh (api_client q allowed tags now) w = (r, w')"
  shows "r = Inr () \<and> server w' = server w \<and>
    Snapshot_Config (snap w') i = map_option (stored_config (server w))
      (find (\<lambda>r. show_int (cr_id r) = i \<and> config_visible (server w) tags r) (config_table (server w))) \<and>
    (good_path ps \<longrightarrow> (Snapshot_Directory (snap w') (abs_path ps) \<noteq> None \<longleftrightarrow> path_granted (server w) tags ps))"
proof -
  have "r = Inr () \<and> server w' = server w" by (rule Refresh_ok [OF inv res])
  moreover have "good_path ps \<Longrightarrow> (Snapshot_Directory (snap w') (abs_path ps) \<noteq> None \<longleftrightarrow> path_granted (server w) tags ps)"
    using Refresh_directory [OF inv res, of ps] by (auto split: option.splits)
  ultimately show ?thesis using Refresh_config [OF inv res] by blast
qed

definition sample_world :: "db world" where
  "sample_world = \<lparr>server = sample_db, snap = new_snapshot, accessed = newAccessTimes\<rparr>"

lemma sample_world_inv: "store_inv (server sample_world)"
  by (simp add: sample_world_def sample_inv)

theorem mount_shows_the_visible_witness:
  "\<exists>w'. Refresh (api_client id [] [''tag:dev''] 7) sample_world = (Inr (), w') \<and>
     Snapshot_Config (snap w') ''3'' \<noteq> None \<and> Snapshot_Directory (snap w') (abs_path [''team'', ''docs'']) \<noteq> None"
proof -
  obtain r w' where w': "Refresh (api_client id [] [''tag:dev''] 7) sample_world = (r, w')" by fastforce
  have a: "find (\<lambda>r. show_int (cr_id r) = ''3'' \<and> config_visible sample_db [''tag:dev''] r) (config_table sample_db) \<noteq> None"
    "good_path [''team'', ''docs'']" "path_granted sample_db [''tag:dev''] [''team'', ''docs'']" by code_simp+
  from mount_shows_the_visible [OF sample_world_inv w', of "''3''" "[''team'', ''docs'']"] w' a show ?thesis
    by (auto simp: sample_world_def)
qed

section \<open>Lookup\<close>

lemma children_names:
  assumes ok: "directories_ok (directory_table s)"
    and z: "populated (granted_directories s tags) cs ps z" and good: "good_path ps"
  shows "find (\<lambda>d. d_name d = name) (d_directories z) = None \<longleftrightarrow> \<not> path_granted s tags (ps @ [name])"
    and "find (\<lambda>d. d_name d = name) (d_directories z) = Some d \<Longrightarrow> Directory_FullPath d = abs_path (ps @ [name])"
proof -
  let ?kids = "child_rows ps (granted_directories s tags)"
  have m: "map (\<lambda>d. (d_id d, d_name d, d_path d)) (d_directories z) = map (\<lambda>r. (show_int (dr_id r), dr_name r, dr_path r)) ?kids"
    using z unfolding populated_def by blast
  have m': "map d_name (d_directories z) = map dr_name ?kids"
    using arg_cong [OF m, of "map (\<lambda>(i, n, p). n)"] by (simp add: comp_def)
  have rows: "r \<in> set (directory_table s)" "row_parts r = ps @ [dr_name r]" "path_granted s tags (ps @ [dr_name r])"
    if "r \<in> set ?kids" for r
    using that by (auto simp: child_rows_iff set_granted_directories)
  have "name \<in> dr_name ` set ?kids \<longleftrightarrow> path_granted s tags (ps @ [name])"
  proof
    assume "name \<in> dr_name ` set ?kids"
    then show "path_granted s tags (ps @ [name])" using rows(3) by blast
  next
    assume g: "path_granted s tags (ps @ [name])"
    then have "ps @ [name] \<in> row_parts ` set (directory_table s)" using path_granted_exists [OF g] by (simp add: dir_tree_None)
    then obtain r where r: "r \<in> set (directory_table s)" "row_parts r = ps @ [name]" by auto
    then have "dr_name r = name" by (metis last_row_parts last_snoc)
    with r g show "name \<in> dr_name ` set ?kids" by (force simp: child_rows_iff set_granted_directories)
  qed
  then show "find (\<lambda>d. d_name d = name) (d_directories z) = None \<longleftrightarrow> \<not> path_granted s tags (ps @ [name])"
    using arg_cong [OF m', of set] by (simp add: find_None_key)
  assume "find (\<lambda>d. d_name d = name) (d_directories z) = Some d"
  then have d: "d \<in> set (d_directories z)" "d_name d = name" by (auto simp: find_Some_iff)
  then have "(d_id d, d_name d, d_path d) \<in> set (map (\<lambda>r. (show_int (dr_id r), dr_name r, dr_path r)) ?kids)"
    unfolding m [symmetric] by (simp add: rev_image_eqI)
  then obtain r where r: "r \<in> set ?kids" "d_name d = dr_name r" "d_path d = dr_path r" by auto
  have "Directory_FullPath d = Directory_FullPath (stored_directory s r)"
    using r by (simp add: Directory_FullPath_def stored_directory_def)
  also have "\<dots> = abs_path (row_parts r)" by (rule stored_directory_full_path [OF ok rows(1) [OF r(1)]])
  finally show "Directory_FullPath d = abs_path (ps @ [name])" using rows(2) [OF r(1)] r(2) d(2) by simp
qed

lemma find_map_filters:
  "(\<And>c. g (f c) = h c) \<Longrightarrow> find (\<lambda>d. g d = k) (map f (filter P (filter V rows))) =
     map_option f (find (\<lambda>c. V c \<and> P c \<and> h c = k) rows)"
  by (induction rows) auto

lemma Lookup_eq:
  assumes inv: "store_inv (server w)" and res: "Refresh (api_client q allowed tags now) w = (r, w')"
    and ps: "good_path ps" "path_granted (server w) tags ps"
  shows "Lookup w' (abs_path ps) name =
    (if path_granted (server w) tags (ps @ [name]) then Inr (DirNode (abs_path (ps @ [name])))
     else case find (\<lambda>c. config_visible (server w) tags c \<and> rootNormalised (cr_path c) = abs_path ps \<and> cr_name c = name)
            (config_table (server w)) of
            Some c \<Rightarrow> Inr (ConfigNode (show_int (cr_id c)))
          | None \<Rightarrow> Inl ENOENT)"
proof -
  note ok = store_inv_dirs [OF inv]
  let ?s = "server w"
  obtain z where z: "Snapshot_Directory (snap w') (abs_path ps) = Some z"
    "populated (granted_directories ?s tags) (visible_configs ?s tags []) ps z"
    using Refresh_directory [OF inv res ps(1)] ps(2) by (auto split: option.splits)
  have cfgs: "d_configs z = map (stored_config ?s) (filter (\<lambda>c. rootNormalised (cr_path c) = abs_path ps)
      (filter (config_visible ?s tags) (config_table ?s)))"
    using z(2) by (simp add: populated_def visible_configs_def in_prefix_def filter_map comp_def stored_config_def)
  have found: "find (\<lambda>c. c_name c = name) (d_configs z) = map_option (stored_config ?s)
      (find (\<lambda>c. config_visible ?s tags c \<and> rootNormalised (cr_path c) = abs_path ps \<and> cr_name c = name) (config_table ?s))"
    unfolding cfgs by (rule find_map_filters) (simp add: stored_config_def)
  show ?thesis
    using children_names [OF ok z(2) ps(1), of name] found z(1)
    by (auto simp: Lookup_def Let_def GetDirectories_def GetConfigs_def stored_config_def split: option.splits)
qed

text \<open>
  C25: In a directory the caller may see, \<open>Lookup\<close> resolves a name exactly as the database does: to
  the subdirectory of that name if its path is granted, else to the visible config of that name in
  the directory, else to ENOENT.
\<close>

theorem lookup_resolves:
  assumes inv: "store_inv (server w)" and res: "Refresh (api_client q allowed tags now) w = (r, w')"
    and ps: "good_path ps" "path_granted (server w) tags ps"
  shows "Lookup w' (abs_path ps) name =
    (if path_granted (server w) tags (ps @ [name]) then Inr (DirNode (abs_path (ps @ [name])))
     else case find (\<lambda>c. config_visible (server w) tags c \<and> rootNormalised (cr_path c) = abs_path ps \<and> cr_name c = name)
            (config_table (server w)) of
            Some c \<Rightarrow> Inr (ConfigNode (show_int (cr_id c)))
          | None \<Rightarrow> Inl ENOENT)"
  by (rule Lookup_eq [OF assms])

theorem lookup_resolves_witness:
  "\<exists>w'. Refresh (api_client id [] [''tag:dev''] 7) sample_world = (Inr (), w') \<and>
     Lookup w' (abs_path [''team'', ''docs'']) ''app'' = Inr (ConfigNode ''3'') \<and>
     Lookup w' (abs_path [''team'', ''docs'']) ''zip'' = Inl ENOENT"
proof -
  obtain t where t: "Refresh (api_client id [] [''tag:dev''] 7) sample_world = (Inr (), sample_world\<lparr>snap := snapshot_of t\<rparr>)"
    using Refresh_api [OF sample_world_inv] by metis
  let ?find = "\<lambda>n. find (\<lambda>c. config_visible sample_db [''tag:dev''] c \<and> rootNormalised (cr_path c) = abs_path [''team'', ''docs''] \<and> cr_name c = n)
            (config_table sample_db)"
  have a: "good_path [''team'', ''docs'']" "path_granted (server sample_world) [''tag:dev''] [''team'', ''docs'']"
    "\<not> path_granted (server sample_world) [''tag:dev''] ([''team'', ''docs''] @ [''app''])"
    "\<not> path_granted (server sample_world) [''tag:dev''] ([''team'', ''docs''] @ [''zip''])"
    "map_option (\<lambda>c. show_int (cr_id c)) (?find ''app'') = Some ''3''" "?find ''zip'' = None" by code_simp+
  from lookup_resolves [OF sample_world_inv t a(1,2), of "''app''"] lookup_resolves [OF sample_world_inv t a(1,2), of "''zip''"] t a(3-6)
  show ?thesis by (intro exI conjI) (auto simp: sample_world_def split: option.splits)
qed

text \<open>
  \<open>Lookup\<close> and \<open>ReadDirAll\<close> agree on every snapshot: a name resolves exactly when it is listed,
  and it resolves to a directory exactly when it is listed as one.
\<close>

theorem lookup_iff_listed:
  "(\<exists>n. Lookup w path name = Inr n) = (name \<in> set (map de_Name (ReadDirAll w path))) \<and>
   (\<exists>p. Lookup w path name = Inr (DirNode p)) = ((name, DT_Dir) \<in> set (map (\<lambda>e. (de_Name e, de_Type e)) (ReadDirAll w path)))"
proof -
  let ?dir = "Snapshot_Directory (snap w) path"
  have names: "map de_Name (ReadDirAll w path) = map d_name (GetDirectories ?dir) @ map c_name (GetConfigs ?dir)"
    "map (\<lambda>e. (de_Name e, de_Type e)) (ReadDirAll w path) =
       map (\<lambda>d. (d_name d, DT_Dir)) (GetDirectories ?dir) @ map (\<lambda>c. (c_name c, DT_File)) (GetConfigs ?dir)"
    by (simp_all add: ReadDirAll_def Let_def)
  have d: "find (\<lambda>d. d_name d = name) (GetDirectories ?dir) = None \<longleftrightarrow> name \<notin> d_name ` set (GetDirectories ?dir)"
    and c: "find (\<lambda>c. c_name c = name) (GetConfigs ?dir) = None \<longleftrightarrow> name \<notin> c_name ` set (GetConfigs ?dir)"
    by (rule find_None_key)+
  show ?thesis
    unfolding names set_append set_map Lookup_def Let_def using d c by (auto split: option.splits)
qed

end
