(* ===== verification/FsFiles.thy ===== *)
theory FsFiles
  imports FsLookup
begin

text \<open>
  Files of a mount: what a write makes of the content (\<open>Config.Write\<close> in \<open>internal/fs/fs.go\<close>), that
  what was written is what is read back, and what \<open>Dir.Remove\<close> and \<open>Dir.Create\<close> do on the server.
\<close>

section \<open>The content after a write\<close>

text \<open>The bytes a write at an offset leaves: a gap is filled with zeros, the rest stays.\<close>

definition overwrite :: "nat \<Rightarrow> bytes \<Rightarrow> bytes \<Rightarrow> bytes" where
  "overwrite off data old = take off (old @ replicate (off - length old) 0) @ data @ drop (off + length data) old"

lemma length_overwrite: "length (overwrite off data old) = max (length old) (off + length data)"
  by (simp add: overwrite_def)

lemma overwrite_nth:
  assumes "i < length (overwrite off data old)"
  shows "overwrite off data old ! i =
    (if off \<le> i \<and> i < off + length data then data ! (i - off) else if i < length old then old ! i else 0)"
  using assms by (auto simp: overwrite_def nth_append min_def)

lemma int64_add_mod: "int64_add a b = (a + b + 2 ^ 63) mod 2 ^ 64 - 2 ^ 63"
  using int_word_sint [where 'a = 64, of "a + b"] by (simp add: int64_add_def)

lemma int64_add_exact: "- (2 ^ 63) \<le> a + b \<Longrightarrow> a + b < 2 ^ 63 \<Longrightarrow> int64_add a b = a + b"
  unfolding int64_add_mod by (subst mod_pos_pos_trivial) auto

lemma int64_add_wraps:
  assumes "2 ^ 63 \<le> a + b" "a + b < 2 ^ 64"
  shows "int64_add a b < 0"
proof -
  have "(a + b + 2 ^ 63) mod 2 ^ 64 = (a + b - 2 ^ 63) mod 2 ^ 64" by (simp add: mod_eq_dvd_iff)
  also have "\<dots> = a + b - 2 ^ 63" using assms by (intro mod_pos_pos_trivial) auto
  finally show ?thesis using assms by (simp add: int64_add_mod)
qed

lemma go_copy_prefix: "length src \<le> length dst \<Longrightarrow> go_copy dst src = src @ drop (length src) dst"
  by (simp add: go_copy_def)

lemma copy_into_end:
  assumes "off + length data \<le> length content"
  shows "copy_into content (int off) (int off + int (length data)) data =
    Some (take off content @ data @ drop (off + length data) content)"
  using assms by (simp add: copy_into_def nat_add_distrib go_copy_def take_drop)

lemma grown_copy:
  "copy_into (if int (length old) < int off + int (length data)
      then go_copy (replicate (nat (int off + int (length data))) 0) old else old)
    (int off) (int off + int (length data)) data = Some (overwrite off data old)"
proof (cases "length old < off + length data")
  case True
  let ?grown = "go_copy (replicate (off + length data) 0) old"
  have g: "?grown = old @ replicate (off + length data - length old) 0" using True by (simp add: go_copy_def)
  have "length ?grown = off + length data" using True by (simp add: g)
  then have "copy_into ?grown (int off) (int off + int (length data)) data =
      Some (take off ?grown @ data @ drop (off + length data) ?grown)" by (intro copy_into_end) simp
  also have "take off ?grown @ data @ drop (off + length data) ?grown = overwrite off data old"
    using True by (simp add: g overwrite_def min_def)
  finally show ?thesis using True by (simp add: nat_add_distrib)
next
  case False
  then have "copy_into old (int off) (int off + int (length data)) data =
      Some (take off old @ data @ drop (off + length data) old)" by (intro copy_into_end) simp
  with False show ?thesis by (simp add: overwrite_def)
qed

lemma overwrite_Nil [simp]: "overwrite off data [] = [] \<longleftrightarrow> off + length data = 0"
  by (auto simp: overwrite_def)

lemma write_handler_eq:
  assumes off: "- (2 ^ 63) \<le> offset" "offset < 2 ^ 63" and len: "length data < 2 ^ 63"
  shows "write_handler offset data conf =
    (if 0 \<le> offset \<and> offset + int (length data) < 2 ^ 63
     then (let old = (case c_content conf of None \<Rightarrow> [] | Some b \<Rightarrow> b); new = overwrite (nat offset) data old
           in Inr (conf\<lparr>c_content := (if c_content conf = None \<and> new = [] then None else Some new),
                c_content_size := word_of_int (int (length new))\<rparr>))
     else Inl FsPanic)"
proof -
  have len': "int (length data) < 2 ^ 63" using len by (metis of_nat_less_iff of_nat_numeral of_nat_power)
  let ?old = "case c_content conf of None \<Rightarrow> [] | Some b \<Rightarrow> b"
  consider (neg) "offset < 0" | (over) "0 \<le> offset" "2 ^ 63 \<le> offset + int (length data)"
    | (ok) "0 \<le> offset" "offset + int (length data) < 2 ^ 63" by linarith
  then show ?thesis
  proof cases
    case neg
    then show ?thesis by (simp add: write_handler_def copy_into_def Let_def)
  next
    case over
    then have "int64_add offset (int (length data)) < 0" using off len' by (intro int64_add_wraps) auto
    with over show ?thesis by (simp add: write_handler_def copy_into_def Let_def)
  next
    case ok
    obtain o' where o': "offset = int o'" using ok by (metis nonneg_int_cases)
    have e: "int64_add (int o') (int (length data)) = int o' + int (length data)"
      using ok by (simp add: o' int64_add_exact)
    have run: "write_handler (int o') data conf = Inr (conf\<lparr>
        c_content := (if int (length ?old) < int o' + int (length data) then Some (overwrite o' data ?old)
          else map_option (\<lambda>_. overwrite o' data ?old) (c_content conf)),
        c_content_size := word_of_int (int (length (overwrite o' data ?old)))\<rparr>)"
      unfolding write_handler_def Let_def e grown_copy by simp
    have "(if int (length ?old) < int o' + int (length data) then Some (overwrite o' data ?old)
        else map_option (\<lambda>_. overwrite o' data ?old) (c_content conf)) =
      (if c_content conf = None \<and> overwrite o' data ?old = [] then None else Some (overwrite o' data ?old))"
      unfolding of_nat_add [symmetric] of_nat_less_iff by (cases "c_content conf") auto
    with run ok show ?thesis by (simp only: o' Let_def nat_int if_True simp_thms)
  qed
qed

text \<open>
  C30: A write through the mount succeeds exactly when the offset is not negative and its end fits
  in 63 bits; the new content then has the length of the longer of the old content and the end of
  the write, holds the written bytes in their range, the old bytes elsewhere and zeros in a gap,
  and the recorded size is its length.  Outside those bounds the slice expression panics.
\<close>

theorem write_content:
  assumes off: "- (2 ^ 63) \<le> offset" "offset < 2 ^ 63" and len: "length data < 2 ^ 63"
    and old: "c_content conf = Some old"
  shows "if 0 \<le> offset \<and> offset + int (length data) < 2 ^ 63
    then \<exists>new. write_handler offset data conf =
        Inr (conf\<lparr>c_content := Some new, c_content_size := word_of_int (int (length new))\<rparr>) \<and>
      length new = max (length old) (nat offset + length data) \<and>
      (\<forall>i < length new. new ! i = (if nat offset \<le> i \<and> i < nat offset + length data then data ! (i - nat offset)
         else if i < length old then old ! i else 0))
    else write_handler offset data conf = Inl FsPanic"
proof (cases "0 \<le> offset \<and> offset + int (length data) < 2 ^ 63")
  case True
  have "write_handler offset data conf = Inr (conf\<lparr>c_content := Some (overwrite (nat offset) data old),
      c_content_size := word_of_int (int (length (overwrite (nat offset) data old)))\<rparr>)"
    using write_handler_eq [OF off len, of conf] True by (simp add: old Let_def)
  with True overwrite_nth length_overwrite show ?thesis
    by (intro if_P [THEN iffD2] exI [of _ "overwrite (nat offset) data old"]) (auto simp only:)
next
  case False
  with write_handler_eq [OF off len, of conf] show ?thesis by (simp only: if_False)
qed

theorem write_content_witness:
  "\<exists>new. write_handler 3 [9] (sample_config\<lparr>c_content := Some [1]\<rparr>) =
     Inr (sample_config\<lparr>c_content := Some new, c_content_size := 4\<rparr>) \<and> new = [1, 0, 0, 9]"
proof -
  have "c_content (sample_config\<lparr>c_content := Some [1]\<rparr>) = Some [1]" by simp
  from write_content [OF _ _ _ this, of 3 "[9]"] obtain new where
    new: "write_handler 3 [9] (sample_config\<lparr>c_content := Some [1]\<rparr>) =
        Inr (sample_config\<lparr>c_content := Some new, c_content_size := word_of_int (int (length new))\<rparr>)"
      "length new = 4" "\<forall>i < length new. new ! i = (if 3 \<le> i \<and> i < 3 + 1 then [9] ! (i - 3) else if i < 1 then [1] ! i else 0)"
    by auto
  have "new ! 0 = 1" "new ! 1 = 0" "new ! 2 = 0" "new ! 3 = 9" using new(2,3) by simp_all
  moreover have "[0..<4] = [0, 1, 2, 3]" by code_simp
  then have "new = [new ! 0, new ! 1, new ! 2, new ! 3]" using map_nth [of new] new(2) by (metis list.map)
  ultimately have "new = [1, 0, 0, 9]" by simp
  with new show ?thesis by simp
qed

section \<open>Writing and reading back\<close>

lemma call_Inr [io_simps]:
  "call m f w = (Inr a, w') \<longleftrightarrow> (\<exists>s. m (server w) = (Inr a, s) \<and> w' = w\<lparr>server := s\<rparr>)"
  by (auto simp: call_def split: prod.splits sum.splits)

lemma Refresh_state:
  "Refresh cl w = (r, w') \<Longrightarrow> server w' = snd (rpc_List cl [] (server w)) \<and> accessed w' = accessed w"
  by (auto simp: Refresh_def split: prod.splits)

lemma ReadAll_Inr:
  "ReadAll cl t i w = (Inr b, w') \<longleftrightarrow> (\<exists>full s. rpc_GetConfig cl (GetId (Snapshot_Config (snap w) i)) None (server w) = (Inr full, s) \<and>
     b = (case full of None \<Rightarrow> [] | Some c \<Rightarrow> (case c_content c of None \<Rightarrow> [] | Some b \<Rightarrow> b)) \<and>
     w' = w\<lparr>server := s, accessed := touch (accessed w) t i\<rparr>)"
  by (auto simp: ReadAll_def FullConfig_def io_simps)

context config_service
begin

lemma mount_write_read:
  assumes sound: "sound (server w)"
    and get: "rpc_GetConfig cl (GetId (Snapshot_Config (snap w) i)) None (server w) = (Inr (Some c), server w)"
    and old: "c_content c = Some old" and off: "- (2 ^ 63) \<le> offset" "offset < 2 ^ 63" and len: "length data < 2 ^ 63"
    and res: "Config_Write cl i offset data w = (Inr n, w')"
  shows "sound (server w') \<and> n = length data \<and> (\<exists>d v r. rpc_GetConfig cl (GetId (Snapshot_Config (snap w) i)) None (server w') = (Inr (Some d), server w') \<and>
    c_content d = Some (overwrite (nat offset) data old) \<and> server v = server w' \<and> Refresh cl v = (r, w'))"
proof -
  from res obtain edited x s' where e: "write_handler offset data c = Inr edited"
    and set: "rpc_SetConfig cl edited (server w) = (Inr x, s')" and ref: "Refresh cl (w\<lparr>server := s'\<rparr>) = (Inr (), w')" and n: "n = length data"
    using get by (auto simp: Config_Write_def Snapshot_Write_def FullConfig_def io_simps split: option.splits sum.splits)
  define v where "v = w\<lparr>server := s'\<rparr>"
  have v: "server v = s'" "Refresh cl v = (Inr (), w')" using ref by (simp_all add: v_def)
  from e write_handler_eq [OF off len, of c] old have edited: "edited = c\<lparr>c_content := Some (overwrite (nat offset) data old),
      c_content_size := word_of_int (int (length (overwrite (nat offset) data old)))\<rparr>"
    by (auto simp: Let_def split: if_splits)
  obtain t u where l: "rpc_List cl [] s' = (t, u)" by fastforce
  with list_pure have "u = s'" by blast
  then have s': "server w' = s'" using Refresh_state [OF v(2)] l v(1) by simp
  from get_after_set [OF sound get set [unfolded edited]] obtain d where
    "rpc_GetConfig cl (GetId (Snapshot_Config (snap w) i)) None s' = (Inr (Some d), s')"
    "c_content d = Some (overwrite (nat offset) data old)" by blast
  with set_sound [OF sound set] s' n v show ?thesis by metis
qed

end

lemma find_visible_row:
  assumes inv: "store_inv s" and r: "r \<in> set (config_table s)" "config_visible s tags r"
  shows "find (\<lambda>x. show_int (cr_id x) = show_int (cr_id r) \<and> config_visible s tags x) (config_table s) = Some r"
proof (rule find_unique [OF r(1)])
  fix y assume y: "y \<in> set (config_table s)" "show_int (cr_id y) = show_int (cr_id r) \<and> config_visible s tags y"
  have "Some (cr_id y) = parse_int64 (show_int (cr_id y))" by (rule parse_cr_id [OF inv y(1), symmetric])
  also have "\<dots> = parse_int64 (show_int (cr_id r))" using y(2) by (simp only:)
  also have "\<dots> = Some (cr_id r)" by (rule parse_cr_id [OF inv r(1)])
  finally show "y = r" using cr_id_unique [OF inv y(1) r(1)] by simp
qed (use r(2) in simp)

lemma get_visible:
  assumes inv: "store_inv s" and k: "0 \<le> k" "k \<le> max_id" and get: "GetConfig s tags (show_int k) None = Inr c"
  shows "\<exists>r. find (\<lambda>r. show_int (cr_id r) = show_int k \<and> config_visible s tags r) (config_table s) = Some r \<and> cr_id r = k"
proof -
  have p: "parse_int64 (show_int k) = Some k" using k by (simp add: max_id_def)
  obtain r where r: "r \<in> set (config_table s)" "parse_int64 (show_int k) = Some (cr_id r)" "config_visible s tags r"
    using get unfolding GetConfig_Inr [OF inv] by blast
  have "cr_id r = k" using r(2) p by simp
  with find_visible_row [OF inv r(1,3)] show ?thesis by blast
qed

lemma GetConfig_content:
  assumes inv: "store_inv s" and get: "GetConfig s tags i None = Inr c"
  obtains b where "c_content c = Some b"
proof -
  obtain r where r: "r \<in> set (config_table s)" "parse_int64 i = Some (cr_id r)" "GetConfigByID s i True [] = Inr (Some c)"
    using get GetConfig_Inr [OF inv, of tags i None c] by (auto simp: version_string_def)
  obtain v b sz where v: "cr_current_content_id r = Some v" "version_content s (cr_id r) v = Some (b, sz)"
    using current_version_content [OF inv r(1)] .
  have "c = (stored_config s r)\<lparr>c_content := Some b, c_content_size := sz\<rparr>"
    using GetConfigByID_current [OF inv r(1,2) v(1)] v(2) r(3) by simp
  then show thesis by (intro that [of b]) simp
qed

text \<open>
  C6: What is written through a mount is read back through it: after a successful write of a file
  that could be read, reading it again succeeds and returns the old content overwritten with the
  written bytes at the offset, however stale the snapshot was; the write reports the full length.
\<close>

theorem write_then_read:
  assumes inv: "store_inv (server w)" and known: "Snapshot_Config (snap w) (show_int k) = Some c0" "c_id c0 = show_int k"
    and k: "0 \<le> k" "k \<le> max_id" and off: "- (2 ^ 63) \<le> offset" "offset < 2 ^ 63" and len: "length data < 2 ^ 63"
    and before: "ReadAll (api_client q allowed tags now) t (show_int k) w = (Inr old, w1)"
    and res: "Config_Write (api_client q allowed tags now) (show_int k) offset data w = (Inr n, w')"
  shows "\<exists>w''. ReadAll (api_client q allowed tags now) t' (show_int k) w' = (Inr (overwrite (nat offset) data old), w'') \<and>
    n = length data"
proof -
  have id: "GetId (Snapshot_Config (snap w) (show_int k)) = show_int k" using known by (simp add: GetId_def)
  obtain c where c: "GetConfig (server w) tags (show_int k) None = Inr c"
    "old = (case c_content c of None \<Rightarrow> [] | Some b \<Rightarrow> b)"
    using before by (auto simp: ReadAll_Inr id io_simps)
  obtain b where b: "c_content c = Some b" using GetConfig_content [OF inv c(1)] .
  have get: "rpc_GetConfig (api_client q allowed tags now) (GetId (Snapshot_Config (snap w) (show_int k))) None (server w)
      = (Inr (Some c), server w)" using c(1) by (simp add: id over_rpc_def)
  from api_service.mount_write_read [OF inv get b off len res] obtain d v r where
    d: "store_inv (server w')" "n = length data"
      "rpc_GetConfig (api_client q allowed tags now) (show_int k) None (server w') = (Inr (Some d), server w')"
      "c_content d = Some (overwrite (nat offset) data b)" "server v = server w'"
      "Refresh (api_client q allowed tags now) v = (r, w')"
    unfolding id by blast
  have g: "GetConfig (server w') tags (show_int k) None = Inr d" using d(3) by (auto simp: io_simps)
  obtain x where x: "find (\<lambda>r. show_int (cr_id r) = show_int k \<and> config_visible (server w') tags r) (config_table (server w')) = Some x"
    "cr_id x = k" using get_visible [OF d(1) k g] by blast
  have "store_inv (server v)" using d(1,5) by simp
  from Refresh_config [OF this d(6), of "show_int k"] x have "GetId (Snapshot_Config (snap w') (show_int k)) = show_int k"
    by (simp add: d(5) GetId_def stored_config_def)
  then show ?thesis using d(2,3,4) b c(2) by (simp add: ReadAll_Inr del: api_client_simps)
qed

text \<open>The sample world with its snapshot loaded for \<open>tag:ops\<close>.\<close>

definition ops_client :: "db client" where
  "ops_client = api_client id [] [''tag:ops''] 7"

definition loaded_world :: "db world" where
  "loaded_world = snd (Refresh ops_client sample_world)"

lemma loaded_world_inv: "store_inv (server loaded_world)"
proof -
  obtain r w' where w': "Refresh ops_client sample_world = (r, w')" by fastforce
  from Refresh_ok [OF sample_world_inv w' [unfolded ops_client_def]] have "server w' = server sample_world" by blast
  with w' sample_world_inv show ?thesis by (simp add: loaded_world_def)
qed

theorem write_then_read_witness:
  "\<exists>n w' w''. Config_Write ops_client ''3'' 1 [7, 8] loaded_world = (Inr n, w') \<and>
     ReadAll ops_client \<lparr>ts_seconds = 9, ts_nanos = 0\<rparr> ''3'' w' = (Inr [104, 7, 8], w'')"
proof -
  let ?t = "\<lparr>ts_seconds = 9, ts_nanos = 0\<rparr>"
  have i: "show_int 3 = ''3''" by code_simp
  have "map_option c_id (Snapshot_Config (snap loaded_world) ''3'') = Some ''3''" by code_simp
  then obtain c0 where c0: "Snapshot_Config (snap loaded_world) (show_int 3) = Some c0" "c_id c0 = show_int 3"
    unfolding i by blast
  have "\<not> isl (fst (ReadAll ops_client ?t ''3'' loaded_world))" "projr (fst (ReadAll ops_client ?t ''3'' loaded_world)) = [104, 105]"
    "\<not> isl (fst (Config_Write ops_client ''3'' 1 [7, 8] loaded_world))" by code_simp+
  then obtain w1 n w' where r: "ReadAll ops_client ?t (show_int 3) loaded_world = (Inr [104, 105], w1)"
    "Config_Write ops_client (show_int 3) 1 [7, 8] loaded_world = (Inr n, w')"
    unfolding i using result_pair by (metis fst_conv sum.sel(2))
  have "overwrite (nat 1) [7, 8] [104, 105] = [104, 7, 8]" by code_simp
  with write_then_read [OF loaded_world_inv c0 _ _ _ _ _ r [unfolded ops_client_def], of ?t] r(2) show ?thesis
    unfolding i by (auto simp: ops_client_def max_id_def)
qed

section \<open>Removing a file\<close>

lemma last_slash_unique:
  assumes "p @ ''/'' @ n = p' @ ''/'' @ n'" and "CHR ''/'' \<notin> set n" and "CHR ''/'' \<notin> set n'"
  shows "p = p' \<and> n = n'"
proof -
  have "last_index CHR ''/'' (p @ CHR ''/'' # n) = Some (length p)" using assms(2) by (rule last_index_append)
  moreover have "last_index CHR ''/'' (p' @ CHR ''/'' # n') = Some (length p')" using assms(3) by (rule last_index_append)
  ultimately have "length p = length p'" using assms(1) by simp
  with assms(1) show ?thesis by simp
qed

lemma DeleteConfig_row:
  assumes inv: "store_inv s" and r: "r \<in> set (config_table s)"
  shows "DeleteConfig tags (show_int (cr_id r)) s =
    (if acls_grant (aclsForOwner Config_acl s (cr_id r)) tags Acl_WRITE then (Inr (), remove_config (cr_id r) s)
     else (Inl (Status PermissionDenied None), s))"
  using GetConfigByID_meta [OF inv r parse_cr_id [OF inv r]] parse_cr_id [OF inv r]
  by (simp add: DeleteConfig_def Delete_eq Config_Allows_def stored_config_def)

lemma snapshot_by_path:
  assumes inv: "store_inv s" and t: "populated (granted_directories s tags) (visible_configs s tags []) [] t"
    and r: "r \<in> set (config_table s)" "config_visible s tags r"
    and names: "\<forall>x \<in> set (config_table s). CHR ''/'' \<notin> set (cr_name x)"
  shows "fullPathConfig (snapshot_of t) (cr_path r @ ''/'' @ cr_name r) = Some (stored_config s r)"
proof -
  note cs = visible_tree_configs [OF inv t]
  have "find (\<lambda>c. Config_FullPath c = cr_path r @ ''/'' @ cr_name r) (rev (tree_configs t)) = Some (stored_config s r)"
  proof (rule find_unique)
    show "stored_config s r \<in> set (rev (tree_configs t))" using r unfolding set_rev cs by (simp add: in_prefix_def)
    show "Config_FullPath (stored_config s r) = cr_path r @ ''/'' @ cr_name r" by (simp add: Config_FullPath_def stored_config_def)
    fix d assume d: "d \<in> set (rev (tree_configs t))" "Config_FullPath d = cr_path r @ ''/'' @ cr_name r"
    then have "d \<in> stored_config s ` {r \<in> set (config_table s). in_prefix [] (cr_path r) \<and> config_visible s tags r}"
      unfolding set_rev cs by blast
    then obtain y where y: "y \<in> set (config_table s)" "d = stored_config s y" by blast
    then have "cr_path y @ ''/'' @ cr_name y = cr_path r @ ''/'' @ cr_name r"
      using d(2) by (simp add: Config_FullPath_def stored_config_def)
    then have "cr_path y = cr_path r \<and> cr_name y = cr_name r" by (rule last_slash_unique) (use names y(1) r(1) in blast)+
    then have "y = r" using store_inv_configs [OF inv] y(1) r(1) by (simp add: configs_ok_def distinct_map inj_on_def)
    with y(2) show "d = stored_config s r" by simp
  qed
  then show ?thesis by (simp add: snapshot_of_def)
qed



text \<open>
  The index of full paths joins the root's path with a slash more than the empty path of a config
  that sits in the root: such a file is shown, but cannot be removed.
\<close>

theorem root_file_not_removable:
  "\<exists>s v n. Upsert (root_config []) 1 empty_db = (Inr n, s) \<and>
     Refresh (api_client id [] [] 2) \<lparr>server = s, snap = new_snapshot, accessed = None\<rparr> = (Inr (), v) \<and>
     Lookup v ''/'' ''app'' = Inr (ConfigNode ''1'') \<and>
     fst (Dir_Remove (api_client id [] [] 3) ''/'' ''app'' False v) = Inl ENOENT"
proof -
  let ?s = "snd (Upsert (root_config []) 1 empty_db)"
  let ?v = "snd (Refresh (api_client id [] [] 2) \<lparr>server = ?s, snap = new_snapshot, accessed = None\<rparr>)"
  have "\<not> isl (fst (Upsert (root_config []) 1 empty_db))"
    "fst (Refresh (api_client id [] [] 2) \<lparr>server = ?s, snap = new_snapshot, accessed = None\<rparr>) = Inr ()"
    "Lookup ?v ''/'' ''app'' = Inr (ConfigNode ''1'')"
    "fst (Dir_Remove (api_client id [] [] 3) ''/'' ''app'' False ?v) = Inl ENOENT" by code_simp+
  moreover from this(1) obtain n where "Upsert (root_config []) 1 empty_db = (Inr n, ?s)"
    using result_pair by (metis snd_conv)
  moreover have "Refresh (api_client id [] [] 2) \<lparr>server = ?s, snap = new_snapshot, accessed = None\<rparr> = (Inr (), ?v)"
    by (rule prod_eqI) (simp_all only: fst_conv snd_conv calculation(2))
  ultimately show ?thesis by (intro exI [of _ ?s] exI [of _ ?v] exI [of _ n] conjI)
qed

section \<open>Creating a file\<close>

lemma mergeOptsWithAttr_keeps [simp]:
  "a_Inode (mergeOptsWithAttr opts a) = a_Inode a" "a_Size (mergeOptsWithAttr opts a) = a_Size a"
  "a_Mtime (mergeOptsWithAttr opts a) = a_Mtime a" "a_Ctime (mergeOptsWithAttr opts a) = a_Ctime a"
  "a_Atime (mergeOptsWithAttr opts a) = a_Atime a"
  by (auto simp: mergeOptsWithAttr_def Let_def split: option.split)



end
