(* ===== verification/FsLife.thy ===== *)
theory FsLife
  imports FsFiles
begin

text \<open>
  The life of a mount (\<open>internal/fs/fs.go\<close>): whatever sequence of loads succeeds or fails, the root
  serves the last tree that was loaded and the log tells each change between failing and working
  once; and what the checks before mounting decide.
\<close>

section \<open>Which tree is served\<close>

text \<open>The specification: the last successful load of a sequence of answers, or the start.\<close>

fun last_loaded :: "snapshot \<Rightarrow> (rpc_error + directory option) list \<Rightarrow> snapshot" where
  "last_loaded sn [] = sn"
| "last_loaded sn (Inl e # rs) = last_loaded sn rs"
| "last_loaded sn (Inr t # rs) = last_loaded (snd (load (Inr t) sn)) rs"

text \<open>The log as a function of the failures: one entry at each change, starting from working.\<close>

fun changes :: "bool \<Rightarrow> bool list \<Rightarrow> refresh_log list" where
  "changes failing [] = []"
| "changes failing (f # fs) =
     (if f = failing then [] else [if f then LoadFailing else LoadRecovered]) @ changes f fs"

lemma load_error: "fst (load res sn) \<noteq> None \<longleftrightarrow> isl res"
proof (cases res)
  case (Inr t)
  obtain m c cp where "index_top t = Some (m, c, cp)"
    by (cases t) (simp add: index_top_def, simp add: index_top_tree)
  with Inr show ?thesis by (simp add: load_def)
qed (simp add: load_def)

lemma load_failed: "load (Inl e) sn = (Some (Remote e), sn)"
  by (simp add: load_def)

text \<open>What holds between the start of the program and the end of the mount.\<close>

definition serving :: "remote_fs \<Rightarrow> bool" where
  "serving st \<longleftrightarrow> length (snapshots st) = 1 \<and> current st = Some 0 \<and> (root st = None \<or> root st = Some (Some 0))"

lemma refresh_serving:
  assumes "serving st"
  shows "serving (refresh 0 res st)" and "snapshots (refresh 0 res st) = [snd (load res (hd (snapshots st)))]"
    and "refreshFailing (refresh 0 res st) = isl res"
    and "logged (refresh 0 res st) = logged st @ changes (refreshFailing st) [isl res]"
    and "root (refresh 0 res st) = root st"
proof -
  obtain sn where sn: "snapshots st = [sn]" using assms by (auto simp: serving_def length_Suc_conv)
  have e: "fst (load res sn) \<noteq> None \<longleftrightarrow> isl res" by (rule load_error)
  show "serving (refresh 0 res st)" "snapshots (refresh 0 res st) = [snd (load res (hd (snapshots st)))]"
    "refreshFailing (refresh 0 res st) = isl res" "root (refresh 0 res st) = root st"
    "logged (refresh 0 res st) = logged st @ changes (refreshFailing st) [isl res]"
    using assms sn e by (auto simp: refresh_def Let_def serving_def split: prod.split)
qed

lemma refresh_started [simp]: "backgroundRefreshStarted (refresh p res st) = backgroundRefreshStarted st"
  by (simp add: refresh_def Let_def split: prod.split)

lemma tick_serving: "serving st \<Longrightarrow> tick st res = refresh 0 res st"
  by (simp add: tick_def serving_def)

lemma last_loaded_step: "last_loaded sn (r # rs) = last_loaded (snd (load r sn)) rs"
  by (cases r) (simp_all add: load_failed)

lemma ticks_serving:
  assumes "serving st"
  shows "serving (foldl tick st rs) \<and> snapshots (foldl tick st rs) = [last_loaded (hd (snapshots st)) rs] \<and>
    logged (foldl tick st rs) = logged st @ changes (refreshFailing st) (map isl rs) \<and>
    (rs \<noteq> [] \<longrightarrow> refreshFailing (foldl tick st rs) = isl (last rs)) \<and> root (foldl tick st rs) = root st"
  using assms
proof (induction rs arbitrary: st)
  case Nil
  then show ?case by (auto simp: serving_def length_Suc_conv)
next
  case (Cons r rs)
  note step = refresh_serving [OF Cons.prems, of r] and t = tick_serving [OF Cons.prems, of r]
  from Cons.IH [OF step(1)] step show ?case
    by (cases "rs = []") (simp_all add: t last_loaded_step)
qed

lemma tick_fuseMount: "fuseMount (foldl tick st rs) = fuseMount st"
  by (induction rs arbitrary: st) (simp_all add: tick_def refresh_def Let_def split: option.split prod.split)

text \<open>The first load makes the one snapshot that everything else is about.\<close>

lemma first_load:
  "serving (LoadSnapshot first new_remote)" "hd (snapshots (LoadSnapshot first new_remote)) = last_loaded new_snapshot [first]"
  "logged (LoadSnapshot first new_remote) = changes False [isl first]" "refreshFailing (LoadSnapshot first new_remote) = isl first"
  "root (LoadSnapshot first new_remote) = None" "\<not> backgroundRefreshStarted (LoadSnapshot first new_remote)"
proof -
  let ?st0 = "new_remote\<lparr>snapshots := [new_snapshot], current := Some 0\<rparr>"
  have "serving ?st0" by (simp add: serving_def new_remote_def)
  note ld = refresh_serving [OF this, of first]
  have l: "LoadSnapshot first new_remote = refresh 0 first ?st0"
    by (simp add: LoadSnapshot_def Let_def new_remote_def)
  show "serving (LoadSnapshot first new_remote)" unfolding l by (rule ld(1))
  show "hd (snapshots (LoadSnapshot first new_remote)) = last_loaded new_snapshot [first]"
    unfolding l ld(2) by (simp add: last_loaded_step)
  show "logged (LoadSnapshot first new_remote) = changes False [isl first]" unfolding l ld(4) by (simp add: new_remote_def)
  show "refreshFailing (LoadSnapshot first new_remote) = isl first" unfolding l by (rule ld(3))
  show "root (LoadSnapshot first new_remote) = None" unfolding l ld(5) by (simp add: new_remote_def)
  show "\<not> backgroundRefreshStarted (LoadSnapshot first new_remote)" unfolding l by (simp add: new_remote_def)
qed

text \<open>From there on: ask for the root, run the refresh loop.\<close>

lemma loop_serving:
  fixes st st' :: remote_fs and rs :: "(rpc_error + directory option) list"
  assumes st: "serving st" "root st = None" "\<not> backgroundRefreshStarted st"
  defines "st' \<equiv> backgroundLoop rs (snd (Root st))"
  shows "root st' = Some (Some 0)" and "snapshots st' = [last_loaded (hd (snapshots st)) rs]"
    and "logged st' = logged st @ changes (refreshFailing st) (map isl rs)" and "fuseMount st' = fuseMount st"
proof -
  let ?st1 = "st\<lparr>root := Some (Some 0), backgroundRefreshStarted := True\<rparr>"
  have loop: "st' = foldl tick ?st1 rs"
    using st by (simp add: st'_def Root_def serving_def backgroundLoop_def)
  have "serving ?st1" using st(1) by (simp add: serving_def)
  note t = ticks_serving [OF this, of rs]
  show "root st' = Some (Some 0)" "snapshots st' = [last_loaded (hd (snapshots st)) rs]"
    "logged st' = logged st @ changes (refreshFailing st) (map isl rs)"
    using t by (simp_all add: loop)
  show "fuseMount st' = fuseMount st" by (simp add: loop tick_fuseMount)
qed

section \<open>Before mounting\<close>

text \<open>
  \<open>AttemptUnmountIfNecessary\<close> does nothing when there is no mount; when there is one it reports
  failure exactly when two of its three attempts fail, so a mount that one of them removed can be
  reported as still there, and one that none of them could remove as removed.
\<close>

lemma unmount_reports_two_failures:
  assumes "mountExists findmnt = Inr there"
  shows "(AttemptUnmountIfNecessary findmnt fuse_unmount command mountPoint = Inr ()) =
    (\<not> there \<or> length (filter (\<lambda>r. r \<noteq> ExecOk)
       [fuse_unmount, command [''fusermount'', ''-u'', mountPoint], command [''fusermount'', ''-uz'', mountPoint]]) \<noteq> 2)"
  using assms by (simp add: AttemptUnmountIfNecessary_def Let_def)

lemma unmount_miscounts:
  "AttemptUnmountIfNecessary ExecOk ExecError (\<lambda>_. ExecExit 1 ''busy'') ''/mnt'' = Inr ()"
  "AttemptUnmountIfNecessary ExecOk ExecOk (\<lambda>_. ExecExit 1 ''not mounted'') ''/mnt'' \<noteq> Inr ()"
  by (simp_all add: AttemptUnmountIfNecessary_def Let_def mountExists_def)

text \<open>
  The attributes of a file: inode and size come from the snapshot, modification and change time
  are the server's update time, and the access time is the last read through this mount if there
  was one, else the update time; a config without an update time that was not read keeps the times
  it was given.
\<close>

lemma config_attr:
  assumes "Snapshot_Config (snap w) i = Some c"
  shows "case Config_Attr opts w i a of b \<Rightarrow>
    a_Inode b = inode_of_id (c_id c) \<and> a_Size b = c_content_size c \<and>
    a_Mtime b = (case c_updated_at c of None \<Rightarrow> a_Mtime a | Some u \<Rightarrow> Some u) \<and> a_Ctime b = (case c_updated_at c of None \<Rightarrow> a_Ctime a | Some u \<Rightarrow> Some u) \<and>
    a_Atime b = (case get_access (accessed w) i of Some t \<Rightarrow> Some t
      | None \<Rightarrow> (case c_updated_at c of None \<Rightarrow> a_Atime a | Some u \<Rightarrow> Some u))"
  using assms by (simp add: Config_Attr_def Let_def Config_NumericalInode_def split: option.split)

text \<open>Reading a file records the access, and a failed read records none.\<close>

lemma read_records_access:
  assumes "ReadAll cl t i w = (r, w')" and "accessed w \<noteq> None"
  shows "get_access (accessed w') j = (if \<not> isl r \<and> j = i then Some t else get_access (accessed w) j)"
  using assms by (auto simp: ReadAll_def FullConfig_def io_bind_def call_def touch_def get_access_def split: prod.splits sum.splits)

text \<open>\<open>Create\<close> does not look at the entries the mount was given for new files.\<close>

lemma create_ignores_additional_acl:
  "Dir_Create cl (Some (opts\<lparr>o_AdditionalACLOnCreate := acls\<rparr>)) path name a = Dir_Create cl (Some opts) path name a"
proof -
  have "mergeOptsWithAttr (Some (opts\<lparr>o_AdditionalACLOnCreate := acls\<rparr>)) b = mergeOptsWithAttr (Some opts) b" for b
    by (simp add: mergeOptsWithAttr_def)
  then show ?thesis by (simp add: Dir_Create_def Config_Attr_def Let_def)
qed

end
