(* ===== verification/Migrate.thy ===== *)
theory Migrate
  imports Tables
begin

text \<open>
  Opening a database in \<open>internal/store/sqlite/store.go\<close> (\<open>NewStore\<close>): the schema, the list of
  idempotent migrations and the two rebuilds that bring a database of an earlier version to the
  current shape.  A table is its columns and rows, a row a partial function from columns to values;
  a statement is a value, as the source keeps it in lists, and executing it may fail.  Indexes,
  column types and constraints are not modelled.
\<close>

section \<open>Tables and statements\<close>

datatype sql_value = NULL | INTEGER int | TEXT string | BLOB bytes

type_synonym sql_row = "string \<rightharpoonup> sql_value"

record sql_table =
  columns :: "string list"
  rows :: "sql_row list"

type_synonym sql_db = "string \<rightharpoonup> sql_table"

datatype sql_error = DuplicateColumn string | NoSuchTable string | NoSuchColumn string | TableExists string

text \<open>
  \<open>UPDATE t SET c = f WHERE p\<close> carries the condition and the expression as functions of the row.
\<close>

datatype sql_stmt =
    CreateTableIfNotExists string "string list"
  | CreateTable string "string list"
  | AddColumn string string sql_value
  | DropColumn string string
  | UpdateSet string string "sql_row \<Rightarrow> sql_value" "sql_row \<Rightarrow> bool"
  | RenameTable string string
  | DropTable string
  | InsertSelect string "string list" string "string list"

text \<open>The value of a column in a row.\<close>

definition column :: "string \<Rightarrow> sql_row \<Rightarrow> sql_value" where
  "column c r = (case r c of None \<Rightarrow> NULL | Some v \<Rightarrow> v)"

lemma column_upd [simp]: "column k (r(k' \<mapsto> v)) = (if k = k' then v else column k r)"
  "column k (r(k' := None)) = (if k = k' then NULL else column k r)"
  by (simp_all add: column_def)

definition on_table :: "sql_db \<Rightarrow> string \<Rightarrow> (sql_table \<Rightarrow> sql_error + sql_table) \<Rightarrow> sql_error + sql_db" where
  "on_table db t f =
     (case db t of
        None \<Rightarrow> Inl (NoSuchTable t)
      | Some tbl \<Rightarrow> (case f tbl of Inl e \<Rightarrow> Inl e | Inr tbl' \<Rightarrow> Inr (db(t \<mapsto> tbl'))))"

fun exec :: "sql_stmt \<Rightarrow> sql_db \<Rightarrow> sql_error + sql_db" where
  "exec (CreateTableIfNotExists t cols) db =
     (case db t of None \<Rightarrow> Inr (db(t \<mapsto> \<lparr>columns = cols, rows = []\<rparr>)) | Some _ \<Rightarrow> Inr db)"
| "exec (CreateTable t cols) db =
     (case db t of None \<Rightarrow> Inr (db(t \<mapsto> \<lparr>columns = cols, rows = []\<rparr>)) | Some _ \<Rightarrow> Inl (TableExists t))"
| "exec (AddColumn t c d) db = on_table db t (\<lambda>tbl.
     if c \<in> set (columns tbl) then Inl (DuplicateColumn c)
     else Inr \<lparr>columns = columns tbl @ [c], rows = map (\<lambda>r. r(c \<mapsto> d)) (rows tbl)\<rparr>)"
| "exec (DropColumn t c) db = on_table db t (\<lambda>tbl.
     if c \<notin> set (columns tbl) then Inl (NoSuchColumn c)
     else Inr \<lparr>columns = filter (\<lambda>x. x \<noteq> c) (columns tbl), rows = map (\<lambda>r. r(c := None)) (rows tbl)\<rparr>)"
| "exec (UpdateSet t c f p) db = on_table db t (\<lambda>tbl.
     if c \<notin> set (columns tbl) then Inl (NoSuchColumn c)
     else Inr (tbl\<lparr>rows := map (\<lambda>r. if p r then r(c \<mapsto> f r) else r) (rows tbl)\<rparr>))"
| "exec (RenameTable t t') db =
     (case db t of
        None \<Rightarrow> Inl (NoSuchTable t)
      | Some tbl \<Rightarrow> if db t' \<noteq> None then Inl (TableExists t') else Inr (db(t := None, t' \<mapsto> tbl)))"
| "exec (DropTable t) db = (case db t of None \<Rightarrow> Inl (NoSuchTable t) | Some _ \<Rightarrow> Inr (db(t := None)))"
| "exec (InsertSelect t cols t' cols') db =
     (case db t' of
        None \<Rightarrow> Inl (NoSuchTable t')
      | Some src \<Rightarrow> on_table db t (\<lambda>tbl.
          if \<not> list_all (\<lambda>c. c \<in> set (columns src)) cols' then Inl (NoSuchColumn t')
          else Inr (tbl\<lparr>rows := rows tbl @ map (\<lambda>r. map_of (zip cols (map (\<lambda>c. column c r) cols'))) (rows src)\<rparr>)))"

fun exec_all :: "sql_stmt list \<Rightarrow> sql_db \<Rightarrow> sql_error + sql_db" where
  "exec_all [] db = Inr db"
| "exec_all (s # ss) db = (case exec s db of Inl e \<Rightarrow> Inl e | Inr db' \<Rightarrow> exec_all ss db')"

section \<open>The statements of the source\<close>

definition schema :: "sql_stmt list" where
  "schema = [
     CreateTableIfNotExists ''inode'' [''id''],
     CreateTableIfNotExists ''config'' [''id'', ''name'', ''path'', ''current_content_id'', ''created_at'', ''updated_at''],
     CreateTableIfNotExists ''directory'' [''id'', ''name'', ''path'', ''parent_id''],
     CreateTableIfNotExists ''config_content''
       [''id'', ''config_id'', ''content'', ''content_size'', ''created_at'', ''updated_at''],
     CreateTableIfNotExists ''config_acl'' [''id'', ''config_id'', ''acl'', ''tag'', ''everyone''],
     CreateTableIfNotExists ''directory_acl'' [''id'', ''directory_id'', ''acl'', ''tag'', ''everyone'']]"

text \<open>\<open>length(x)\<close>: bytes of a blob, characters of a text up to a NUL, digits of a number.\<close>

fun sql_length :: "sql_value \<Rightarrow> sql_value" where
  "sql_length NULL = NULL"
| "sql_length (BLOB b) = INTEGER (int (length b))"
| "sql_length (TEXT s) = INTEGER (int (length (filter (\<lambda>c. \<not> (128 \<le> (of_char c :: int) \<and> (of_char c :: int) < 192))
     (takeWhile (\<lambda>c. c \<noteq> CHR 0x00) s))))"
| "sql_length (INTEGER i) = INTEGER (int (length (show_int i)))"

definition migrations :: "sql_stmt list" where
  "migrations = [
     AddColumn ''config'' ''created_at'' (INTEGER 0),
     AddColumn ''config'' ''updated_at'' (INTEGER 0),
     AddColumn ''config_content'' ''created_at'' (INTEGER 0),
     AddColumn ''config_content'' ''updated_at'' (INTEGER 0),
     AddColumn ''config'' ''current_content_id'' NULL,
     UpdateSet ''config'' ''current_content_id'' (column ''id'') (\<lambda>r. column ''current_content_id'' r = NULL)]"

text \<open>The loop over the migrations: a duplicate column is skipped, any other error ends it.\<close>

fun apply_migrations :: "sql_stmt list \<Rightarrow> sql_db \<Rightarrow> sql_error + sql_db" where
  "apply_migrations [] db = Inr db"
| "apply_migrations (m # ms) db =
     (case exec m db of
        Inl (DuplicateColumn c) \<Rightarrow> apply_migrations ms db
      | Inl e \<Rightarrow> Inl e
      | Inr db' \<Rightarrow> apply_migrations ms db')"

text \<open>The columns of an unknown table are none.\<close>

definition tableHasColumn :: "sql_db \<Rightarrow> string \<Rightarrow> string \<Rightarrow> bool" where
  "tableHasColumn db t c = (case db t of None \<Rightarrow> False | Some tbl \<Rightarrow> c \<in> set (columns tbl))"

definition version_stmts :: "sql_stmt list" where
  "version_stmts = [
     RenameTable ''config_content'' ''config_content_legacy'',
     CreateTable ''config_content'' [''id'', ''config_id'', ''content'', ''created_at'', ''updated_at''],
     InsertSelect ''config_content'' [''id'', ''config_id'', ''content'', ''created_at'', ''updated_at'']
       ''config_content_legacy'' [''id'', ''id'', ''content'', ''created_at'', ''updated_at''],
     DropTable ''config_content_legacy'']"

definition migrateContentVersions :: "sql_db \<Rightarrow> sql_error + sql_db" where
  "migrateContentVersions db =
     (if tableHasColumn db ''config_content'' ''config_id'' then Inr db else exec_all version_stmts db)"

definition size_stmts :: "sql_stmt list" where
  "size_stmts = [
     AddColumn ''config_content'' ''content_size'' (INTEGER 0),
     UpdateSet ''config_content'' ''content_size'' (\<lambda>r. sql_length (column ''content'' r)) (\<lambda>_. True),
     DropColumn ''config'' ''content_size'']"

definition migrateContentSize :: "sql_db \<Rightarrow> sql_error + sql_db" where
  "migrateContentSize db =
     (if tableHasColumn db ''config_content'' ''content_size'' then Inr db else exec_all size_stmts db)"

definition NewStore :: "sql_db \<Rightarrow> sql_error + sql_db" where
  "NewStore db =
     (case exec_all schema db of
        Inl e \<Rightarrow> Inl e
      | Inr db \<Rightarrow>
          (case apply_migrations migrations db of
             Inl e \<Rightarrow> Inl e
           | Inr db \<Rightarrow>
               (case migrateContentVersions db of
                  Inl e \<Rightarrow> Inl e
                | Inr db \<Rightarrow> migrateContentSize db)))"

section \<open>What opening does\<close>

text \<open>A column that is there, or is added with a default.\<close>

definition with_column :: "string \<Rightarrow> sql_value \<Rightarrow> sql_table \<Rightarrow> sql_table" where
  "with_column c d tbl =
     (if c \<in> set (columns tbl) then tbl
      else \<lparr>columns = columns tbl @ [c], rows = map (\<lambda>r. r(c \<mapsto> d)) (rows tbl)\<rparr>)"

lemma apply_AddColumn:
  "db t = Some tbl \<Longrightarrow> apply_migrations (AddColumn t c d # ms) db = apply_migrations ms (db(t \<mapsto> with_column c d tbl))"
  by (auto simp: on_table_def with_column_def fun_upd_idem)

lemma with_column_cols [simp]: "set (columns (with_column c d tbl)) = insert c (set (columns tbl))"
  by (auto simp: with_column_def)

lemma with_column_rows: "rows (with_column c d tbl) = map (\<lambda>r. if c \<in> set (columns tbl) then r else r(c \<mapsto> d)) (rows tbl)"
  by (auto simp: with_column_def)

text \<open>Where the current version comes from in a row that has none.\<close>

definition backfill :: "sql_table \<Rightarrow> sql_table" where
  "backfill tbl = tbl\<lparr>rows := map (\<lambda>r. if column ''current_content_id'' r = NULL
     then r(''current_content_id'' \<mapsto> column ''id'' r) else r) (rows tbl)\<rparr>"

definition timestamped :: "sql_table \<Rightarrow> sql_table" where
  "timestamped tbl = with_column ''updated_at'' (INTEGER 0) (with_column ''created_at'' (INTEGER 0) tbl)"

definition versioned_config :: "sql_table \<Rightarrow> sql_table" where
  "versioned_config tbl = backfill (with_column ''current_content_id'' NULL (timestamped tbl))"

definition versioned_content :: "sql_table \<Rightarrow> sql_table" where
  "versioned_content tbl =
     (if ''config_id'' \<in> set (columns tbl) then timestamped tbl
      else \<lparr>columns = [''id'', ''config_id'', ''content'', ''created_at'', ''updated_at''],
        rows = map (\<lambda>r. map_of (zip [''id'', ''config_id'', ''content'', ''created_at'', ''updated_at'']
          (map (\<lambda>c. column c r) [''id'', ''id'', ''content'', ''created_at'', ''updated_at'']))) (rows (timestamped tbl))\<rparr>)"

text \<open>The tables an opened database has from the tables it had.\<close>

definition opened_config :: "sql_table \<Rightarrow> sql_table \<Rightarrow> sql_table" where
  "opened_config c cc =
     (let t = versioned_config c
      in if ''content_size'' \<in> set (columns cc) then t
         else \<lparr>columns = filter (\<lambda>x. x \<noteq> ''content_size'') (columns t), rows = map (\<lambda>r. r(''content_size'' := None)) (rows t)\<rparr>)"

definition opened_content :: "sql_table \<Rightarrow> sql_table" where
  "opened_content cc =
     (let t = versioned_content cc
      in if ''content_size'' \<in> set (columns cc) then t
         else \<lparr>columns = columns t @ [''content_size''],
           rows = map (\<lambda>r. r(''content_size'' \<mapsto> sql_length (column ''content'' r))) (rows t)\<rparr>)"

text \<open>
  A database some version of the program wrote: both tables are there, no id is NULL, a size is in exactly
  one of them, and it is with the content only once the content is versioned.
\<close>

definition openable :: "sql_db \<Rightarrow> bool" where
  "openable db =
     (case (db ''config'', db ''config_content'') of
        (Some c, Some cc) \<Rightarrow>
          list_all (\<lambda>k. k \<in> set (columns c)) [''id'', ''name'', ''path''] \<and>
          list_all (\<lambda>k. k \<in> set (columns cc)) [''id'', ''content''] \<and>
          (''content_size'' \<in> set (columns c)) = (''content_size'' \<notin> set (columns cc)) \<and>
          (''content_size'' \<notin> set (columns cc) \<or> ''config_id'' \<in> set (columns cc)) \<and>
          list_all (\<lambda>r. column ''id'' r \<noteq> NULL) (rows c) \<and> db ''config_content_legacy'' = None
      | _ \<Rightarrow> False)"

definition schema_tables :: "string list" where
  "schema_tables = [''inode'', ''config'', ''directory'', ''config_content'', ''config_acl'', ''directory_acl'']"

lemma schema_run:
  "\<exists>db1. exec_all schema db = Inr db1 \<and> (\<forall>t x. db t = Some x \<longrightarrow> db1 t = Some x) \<and>
     (\<forall>t. t \<notin> set schema_tables \<longrightarrow> db1 t = db t) \<and> (\<forall>t \<in> set schema_tables. db1 t \<noteq> None)"
proof -
  have ex: "\<exists>db1. exec_all (map (\<lambda>(t, cols). CreateTableIfNotExists t cols) ts) db = Inr db1 \<and>
      (\<forall>t x. db t = Some x \<longrightarrow> db1 t = Some x) \<and> (\<forall>t. t \<notin> fst ` set ts \<longrightarrow> db1 t = db t) \<and>
      (\<forall>t \<in> fst ` set ts. db1 t \<noteq> None)" for ts db
  proof (induction ts arbitrary: db)
    case (Cons a ts)
    obtain t cols where a: "a = (t, cols)" by (cases a)
    let ?db = "case db t of None \<Rightarrow> db(t \<mapsto> \<lparr>columns = cols, rows = []\<rparr>) | Some _ \<Rightarrow> db"
    from Cons.IH [of ?db] obtain db1 where db1: "exec_all (map (\<lambda>(t, cols). CreateTableIfNotExists t cols) ts) ?db = Inr db1"
      "\<forall>t x. ?db t = Some x \<longrightarrow> db1 t = Some x" "\<forall>t. t \<notin> fst ` set ts \<longrightarrow> db1 t = ?db t" "\<forall>t \<in> fst ` set ts. db1 t \<noteq> None"
      by blast
    have there: "?db u = Some x" if "db u = Some x" for u x using that by (auto split: option.split)
    have other: "?db u = db u" if "u \<noteq> t" for u using that by (auto split: option.split)
    have made: "\<exists>x. ?db t = Some x" by (auto split: option.split)
    have "\<forall>t x. db t = Some x \<longrightarrow> db1 t = Some x" using db1(2) there by blast
    moreover have "\<forall>u. u \<notin> fst ` set (a # ts) \<longrightarrow> db1 u = db u"
    proof (intro allI impI)
      fix u assume "u \<notin> fst ` set (a # ts)"
      then have "u \<notin> fst ` set ts" "u \<noteq> t" by (auto simp: a)
      with db1(3) other show "db1 u = db u" by metis
    qed
    moreover have "\<forall>u \<in> fst ` set (a # ts). db1 u \<noteq> None"
    proof
      fix u assume "u \<in> fst ` set (a # ts)"
      then consider "u = t" | "u \<in> fst ` set ts" by (auto simp: a)
      then show "db1 u \<noteq> None"
      proof cases
        case 1
        with made db1(2) show ?thesis by blast
      qed (use db1(4) in blast)
    qed
    moreover have "exec_all (map (\<lambda>(t, cols). CreateTableIfNotExists t cols) (a # ts)) db = Inr db1"
      using db1(1) by (simp add: a split: option.splits)
    ultimately show ?case by blast
  qed simp
  let ?ts = "[(''inode'', [''id'']),
     (''config'', [''id'', ''name'', ''path'', ''current_content_id'', ''created_at'', ''updated_at'']),
     (''directory'', [''id'', ''name'', ''path'', ''parent_id'']),
     (''config_content'', [''id'', ''config_id'', ''content'', ''content_size'', ''created_at'', ''updated_at'']),
     (''config_acl'', [''id'', ''config_id'', ''acl'', ''tag'', ''everyone'']),
     (''directory_acl'', [''id'', ''directory_id'', ''acl'', ''tag'', ''everyone''])]"
  have s: "schema = map (\<lambda>(t, cols). CreateTableIfNotExists t cols) ?ts" by (simp add: schema_def)
  have t: "fst ` set ?ts = set schema_tables" by (simp add: schema_tables_def)
  from ex [of ?ts db] show ?thesis unfolding s t .
qed

lemma migrations_run:
  assumes c: "db ''config'' = Some c" "db ''config_content'' = Some cc"
  shows "apply_migrations migrations db =
    Inr (db(''config'' \<mapsto> versioned_config c, ''config_content'' \<mapsto> timestamped cc))"
  unfolding migrations_def
  by (simp add: apply_AddColumn c on_table_def versioned_config_def timestamped_def backfill_def with_column_cols
      fun_upd_twist del: apply_migrations.simps(2)) (simp add: on_table_def c)

lemma timestamped_cols [simp]: "set (columns (timestamped tbl)) = {''created_at'', ''updated_at''} \<union> set (columns tbl)"
  by (auto simp: timestamped_def)

lemma versions_run:
  assumes cc: "db ''config_content'' = Some (timestamped cc)" "db ''config_content_legacy'' = None"
    and cols: "''id'' \<in> set (columns cc)" "''content'' \<in> set (columns cc)"
  shows "migrateContentVersions db = Inr (db(''config_content'' \<mapsto> versioned_content cc))"
proof (cases "''config_id'' \<in> set (columns cc)")
  case True
  then show ?thesis using cc by (simp add: migrateContentVersions_def tableHasColumn_def versioned_content_def fun_upd_idem)
next
  case False
  let ?legacy = "(db(''config_content'' := None))(''config_content_legacy'' \<mapsto> timestamped cc)"
  let ?new = "?legacy(''config_content'' \<mapsto> versioned_content cc)"
  have "exec_all version_stmts db = Inr (?new(''config_content_legacy'' := None))"
    using cc cols False by (simp add: version_stmts_def on_table_def versioned_content_def)
  moreover have "?new(''config_content_legacy'' := None) = db(''config_content'' \<mapsto> versioned_content cc)"
    using cc(2) by (auto simp: fun_eq_iff)
  ultimately show ?thesis using False cc by (simp add: migrateContentVersions_def tableHasColumn_def)
qed

lemma versioned_cols [simp]:
  "set (columns (versioned_config c)) = {''current_content_id'', ''created_at'', ''updated_at''} \<union> set (columns c)"
  by (auto simp: versioned_config_def backfill_def)

lemma size_run:
  assumes c: "db ''config'' = Some (versioned_config c)" and cc: "db ''config_content'' = Some (versioned_content cc)"
    and shape: "(''content_size'' \<in> set (columns c)) = (''content_size'' \<notin> set (columns cc))"
      "''content_size'' \<notin> set (columns cc) \<or> ''config_id'' \<in> set (columns cc)"
  shows "migrateContentSize db = Inr (db(''config'' \<mapsto> opened_config c cc, ''config_content'' \<mapsto> opened_content cc))"
proof (cases "''content_size'' \<in> set (columns cc)")
  case True
  then show ?thesis using c cc shape
    by (auto simp: migrateContentSize_def tableHasColumn_def opened_config_def opened_content_def versioned_content_def fun_upd_idem Let_def)
next
  case False
  then have "''content_size'' \<notin> set (columns (versioned_content cc))" by (auto simp: versioned_content_def)
  moreover have "''content_size'' \<in> set (columns c)" using shape(1) False by simp
  ultimately show ?thesis using c cc False
    by (simp add: migrateContentSize_def tableHasColumn_def size_stmts_def on_table_def opened_config_def opened_content_def Let_def
        fun_upd_twist comp_def)
qed

lemma NewStore_run:
  assumes ok: "openable db" and c: "db ''config'' = Some c" and cc: "db ''config_content'' = Some cc"
  obtains db' where "NewStore db = Inr db'" "db' ''config'' = Some (opened_config c cc)" "db' ''config_content'' = Some (opened_content cc)"
    "\<And>t x. t \<noteq> ''config'' \<Longrightarrow> t \<noteq> ''config_content'' \<Longrightarrow> db t = Some x \<Longrightarrow> db' t = Some x"
    "\<And>t. t \<notin> set schema_tables \<Longrightarrow> db' t = db t" "\<And>t. t \<in> set schema_tables \<Longrightarrow> db' t \<noteq> None"
proof -
  obtain db1 where db1: "exec_all schema db = Inr db1" "\<And>t x. db t = Some x \<Longrightarrow> db1 t = Some x"
    "\<And>t. t \<notin> set schema_tables \<Longrightarrow> db1 t = db t" "\<And>t. t \<in> set schema_tables \<Longrightarrow> db1 t \<noteq> None"
    using schema_run [of db] by blast
  have shape: "''id'' \<in> set (columns cc)" "''content'' \<in> set (columns cc)"
    "(''content_size'' \<in> set (columns c)) = (''content_size'' \<notin> set (columns cc))"
    "''content_size'' \<notin> set (columns cc) \<or> ''config_id'' \<in> set (columns cc)" "db ''config_content_legacy'' = None"
    using ok by (auto simp: openable_def c cc)
  let ?db2 = "db1(''config'' \<mapsto> versioned_config c, ''config_content'' \<mapsto> timestamped cc)"
  have m: "apply_migrations migrations db1 = Inr ?db2" by (rule migrations_run [OF db1(2) [OF c] db1(2) [OF cc]])
  have "''config_content_legacy'' \<notin> set schema_tables" by (simp add: schema_tables_def)
  then have legacy: "db1 ''config_content_legacy'' = None" using db1(3) shape(5) by simp
  have v: "migrateContentVersions ?db2 = Inr (?db2(''config_content'' \<mapsto> versioned_content cc))"
    by (rule versions_run) (simp_all add: shape legacy)
  let ?db3 = "?db2(''config_content'' \<mapsto> versioned_content cc)"
  let ?db4 = "?db3(''config'' \<mapsto> opened_config c cc, ''config_content'' \<mapsto> opened_content cc)"
  have s: "migrateContentSize ?db3 = Inr ?db4"
    by (rule size_run [OF _ _ shape(3,4)]) simp_all
  have other: "?db4 t = db1 t" if "t \<noteq> ''config''" "t \<noteq> ''config_content''" for t using that by simp
  show thesis
  proof (rule that)
    show "NewStore db = Inr ?db4" by (simp only: NewStore_def db1(1) m v s sum.case)
    show "?db4 ''config'' = Some (opened_config c cc)" "?db4 ''config_content'' = Some (opened_content cc)" by simp_all
    show "?db4 t = Some x" if "t \<noteq> ''config''" "t \<noteq> ''config_content''" "db t = Some x" for t x
      unfolding other [OF that(1,2)] by (rule db1(2) [OF that(3)])
    show "?db4 t = db t" if t: "t \<notin> set schema_tables" for t
    proof -
      have "t \<noteq> ''config''" "t \<noteq> ''config_content''" using t by (auto simp: schema_tables_def)
      from other [OF this] db1(3) [OF t] show ?thesis by simp
    qed
    show "?db4 t \<noteq> None" if t: "t \<in> set schema_tables" for t
      using db1(4) [OF t] by (cases "t = ''config'' \<or> t = ''config_content''") auto
  qed
qed

section \<open>What an opened database holds\<close>

text \<open>An opened config row: identity kept, a missing version is the row's own id, no size.\<close>

definition config_row_kept :: "sql_table \<Rightarrow> sql_row \<Rightarrow> sql_row \<Rightarrow> bool" where
  "config_row_kept c r r' \<longleftrightarrow> list_all (\<lambda>k. column k r' = column k r) [''id'', ''name'', ''path''] \<and>
     column ''current_content_id'' r' =
       (if ''current_content_id'' \<notin> set (columns c) \<or> column ''current_content_id'' r = NULL then column ''id'' r
        else column ''current_content_id'' r) \<and>
     list_all (\<lambda>k. column k r' = (if k \<in> set (columns c) then column k r else INTEGER 0)) [''created_at'', ''updated_at'']"

text \<open>
  An opened content row: the id and the bytes kept, the owner of a row that had none is the config
  of the same id, the size of a row that had none is the length of its bytes.
\<close>

definition content_row_kept :: "sql_table \<Rightarrow> sql_row \<Rightarrow> sql_row \<Rightarrow> bool" where
  "content_row_kept cc r r' \<longleftrightarrow> list_all (\<lambda>k. column k r' = column k r) [''id'', ''content''] \<and>
     column ''config_id'' r' = column (if ''config_id'' \<in> set (columns cc) then ''config_id'' else ''id'') r \<and>
     column ''content_size'' r' =
       (if ''content_size'' \<in> set (columns cc) then column ''content_size'' r else sql_length (column ''content'' r)) \<and>
     list_all (\<lambda>k. column k r' = (if k \<in> set (columns cc) then column k r else INTEGER 0)) [''created_at'', ''updated_at'']"

lemma opened_config_rows: "list_all2 (config_row_kept c) (rows c) (rows (opened_config c cc))"
  by (auto simp: opened_config_def versioned_config_def backfill_def timestamped_def with_column_rows Let_def
      list_all2_map2 config_row_kept_def intro!: list_all2_refl)

lemma opened_content_rows:
  assumes "''content_size'' \<notin> set (columns cc) \<or> ''config_id'' \<in> set (columns cc)"
  shows "list_all2 (content_row_kept cc) (rows cc) (rows (opened_content cc))"
proof (cases "''config_id'' \<in> set (columns cc)")
  case True
  then show ?thesis
    by (auto simp: opened_content_def versioned_content_def timestamped_def with_column_rows Let_def
        list_all2_map2 content_row_kept_def intro!: list_all2_refl)
next
  case False
  have m: "column k (map_of (zip [''id'', ''config_id'', ''content'', ''created_at'', ''updated_at''] [a, b, c, d, e])) =
      (if k = ''id'' then a else if k = ''config_id'' then b else if k = ''content'' then c
       else if k = ''created_at'' then d else if k = ''updated_at'' then e else NULL)" for k a b c d e
    by (simp add: column_def)
  show ?thesis
    using False assms
    by (auto simp: opened_content_def versioned_content_def timestamped_def with_column_rows Let_def m
        list_all2_map2 content_row_kept_def intro!: list_all2_refl)
qed

definition config_columns :: "string list" where
  "config_columns = [''id'', ''name'', ''path'', ''current_content_id'', ''created_at'', ''updated_at'']"

definition content_columns :: "string list" where
  "content_columns = [''id'', ''config_id'', ''content'', ''content_size'', ''created_at'', ''updated_at'']"

lemma opened_columns:
  assumes ok: "openable db" and c: "db ''config'' = Some c" and cc: "db ''config_content'' = Some cc"
  shows "set config_columns \<subseteq> set (columns (opened_config c cc)) \<and> ''content_size'' \<notin> set (columns (opened_config c cc)) \<and>
    set content_columns \<subseteq> set (columns (opened_content cc))"
  using ok by (auto simp: openable_def c cc config_columns_def content_columns_def opened_config_def opened_content_def Let_def
      versioned_content_def)


text \<open>A database from before timestamps and versions, with one config.\<close>

definition legacy_db :: sql_db where
  "legacy_db = [
     ''inode'' \<mapsto> \<lparr>columns = [''id''], rows = [[''id'' \<mapsto> INTEGER 2]]\<rparr>,
     ''config'' \<mapsto> \<lparr>columns = [''id'', ''name'', ''content_size'', ''path''], rows = [[''id'' \<mapsto> INTEGER 2, ''name'' \<mapsto> TEXT ''legacy'',
        ''content_size'' \<mapsto> INTEGER 3, ''path'' \<mapsto> TEXT ''/a'']]\<rparr>,
     ''config_content'' \<mapsto> \<lparr>columns = [''id'', ''content''], rows = [[''id'' \<mapsto> INTEGER 2, ''content'' \<mapsto> BLOB [120, 121, 122]]]\<rparr>]"


lemma with_column_id: "c \<in> set (columns tbl) \<Longrightarrow> with_column c d tbl = tbl"
  by (simp add: with_column_def)

lemma backfill_id: "list_all (\<lambda>r. column ''current_content_id'' r \<noteq> NULL) (rows tbl) \<Longrightarrow> backfill tbl = tbl"
proof -
  assume "list_all (\<lambda>r. column ''current_content_id'' r \<noteq> NULL) (rows tbl)"
  then have "map (\<lambda>r. if column ''current_content_id'' r = NULL then r(''current_content_id'' \<mapsto> column ''id'' r) else r) (rows tbl) = rows tbl"
    by (intro map_idI) (auto simp: list_all_iff)
  then show ?thesis by (simp add: backfill_def)
qed

text \<open>
  Opening is idempotent: opening a database that was opened before succeeds and changes nothing.
\<close>

theorem open_idempotent:
  assumes ok: "openable db" and opened: "NewStore db = Inr db'"
  shows "NewStore db' = Inr db'"
proof -
  obtain c cc where t: "db ''config'' = Some c" "db ''config_content'' = Some cc"
    using ok by (auto simp: openable_def split: option.splits)
  obtain db1 where r: "NewStore db = Inr db1" "db1 ''config'' = Some (opened_config c cc)" "db1 ''config_content'' = Some (opened_content cc)"
    "\<And>t x. t \<noteq> ''config'' \<Longrightarrow> t \<noteq> ''config_content'' \<Longrightarrow> db t = Some x \<Longrightarrow> db1 t = Some x"
    "\<And>t. t \<notin> set schema_tables \<Longrightarrow> db1 t = db t" "\<And>t. t \<in> set schema_tables \<Longrightarrow> db1 t \<noteq> None"
    by (rule NewStore_run [OF ok t]) (rule that)
  have db': "db1 = db'" using r(1) opened by simp
  let ?c = "opened_config c cc" and ?cc = "opened_content cc"
  have cols: "set config_columns \<subseteq> set (columns ?c)" "''content_size'' \<notin> set (columns ?c)" "set content_columns \<subseteq> set (columns ?cc)"
    using opened_columns [OF ok t] by blast+
  have ids: "list_all (\<lambda>r. column ''id'' r \<noteq> NULL) (rows c)" using ok by (auto simp: openable_def t)
  have kept: "list_all2 (config_row_kept c) (rows c) (rows ?c)" by (rule opened_config_rows)
  have here: "list_all (\<lambda>r. column ''id'' r \<noteq> NULL \<and> column ''current_content_id'' r \<noteq> NULL) (rows ?c)"
  proof -
    have "column ''id'' (rows ?c ! i) \<noteq> NULL \<and> column ''current_content_id'' (rows ?c ! i) \<noteq> NULL" if "i < length (rows ?c)" for i
    proof -
      have "i < length (rows c)" using kept that by (simp add: list_all2_lengthD)
      then have "column ''id'' (rows c ! i) \<noteq> NULL" using ids by (simp add: list_all_length)
      moreover have "config_row_kept c (rows c ! i) (rows ?c ! i)" using kept \<open>i < length (rows c)\<close> by (rule list_all2_nthD)
      ultimately show ?thesis by (auto simp: config_row_kept_def)
    qed
    then show ?thesis by (simp add: list_all_length)
  qed
  have legacy: "db' ''config_content_legacy'' = None"
    using r(5) [of "''config_content_legacy''"] ok by (simp add: db' schema_tables_def openable_def t)
  have ok': "openable db'"
    using cols here legacy r(2,3) by (auto simp: db' openable_def config_columns_def content_columns_def list_all_iff)
  have "opened_config ?c ?cc = versioned_config ?c" using cols(3) by (simp add: opened_config_def content_columns_def)
  also have "\<dots> = ?c"
    using cols(1) here by (simp add: versioned_config_def timestamped_def with_column_id config_columns_def backfill_id list_all_iff)
  finally have sc: "opened_config ?c ?cc = ?c" .
  have scc: "opened_content ?cc = ?cc"
    using cols(3) by (simp add: opened_content_def versioned_content_def timestamped_def with_column_id content_columns_def)
  obtain db2 where s: "NewStore db' = Inr db2" "db2 ''config'' = Some (opened_config ?c ?cc)" "db2 ''config_content'' = Some (opened_content ?cc)"
    "\<And>t x. t \<noteq> ''config'' \<Longrightarrow> t \<noteq> ''config_content'' \<Longrightarrow> db' t = Some x \<Longrightarrow> db2 t = Some x"
    "\<And>t. t \<notin> set schema_tables \<Longrightarrow> db2 t = db' t" "\<And>t. t \<in> set schema_tables \<Longrightarrow> db2 t \<noteq> None"
    by (rule NewStore_run [OF ok' r(2,3) [unfolded db']]) (rule that)
  have "db2 t = db' t" for t
  proof (cases "t = ''config'' \<or> t = ''config_content''")
    case True
    then show ?thesis using s(2,3) r(2,3) sc scc by (auto simp: db')
  next
    case False
    show ?thesis
    proof (cases "t \<in> set schema_tables")
      case True
      then obtain x where "db' t = Some x" using r(6) by (auto simp: db')
      with s(4) False show ?thesis by simp
    qed (rule s(5))
  qed
  then have "db2 = db'" by (rule ext)
  with s(1) show ?thesis by simp
qed

theorem open_idempotent_witness:
  "\<exists>db'. NewStore legacy_db = Inr db' \<and> NewStore db' = Inr db' \<and> db' ''directory'' \<noteq> None"
proof -
  have "openable legacy_db" "\<not> isl (NewStore legacy_db)" "projr (NewStore legacy_db) ''directory'' \<noteq> None" by code_simp+
  moreover from this(2) obtain db' where "NewStore legacy_db = Inr db'" by (cases "NewStore legacy_db") auto
  ultimately show ?thesis using open_idempotent [of legacy_db db'] by auto
qed

end
