(* ===== verification/Cmd.thy ===== *)
theory Cmd
  imports FsLife ApiOutcomes Migrate
begin

text \<open>
  The two programs around the components: \<open>cmd/fs/main.go\<close> (the flags of the mount client, the order
  of its start and what makes it give up) and \<open>cmd/server/main.go\<close> (which interceptor a listener
  gets, and how the first and the additional tailnet are served).  What the network, Tailscale and
  the kernel answer is an argument; log lines are not modelled.
\<close>

section \<open>Flags\<close>

text \<open>The tags of \<open>--tailscale_tags\<close>, in both programs.\<close>

definition advertise_tags :: "string \<Rightarrow> string list" where
  "advertise_tags flag = filter (\<lambda>t. 0 < length t) (map trim_space (go_split CHR '','' flag))"

text \<open>One part of \<open>--additional_acl_on_create\<close>; a part that is not an entry is skipped.\<close>

definition acl_of_part :: "string \<Rightarrow> config_acl option" where
  "acl_of_part aclPart =
     (if length aclPart = 0 then None
      else let components = go_split CHR ''@'' aclPart
      in if length components \<noteq> 2 then None
      else if components ! 1 \<noteq> ''READ'' \<and> components ! 1 \<noteq> ''WRITE'' then None
      else
        let acl = \<lparr>acl_level = UNKNOWN_ACL, acl_tag = [], acl_everyone = False\<rparr>;
            acl = (if components ! 0 = ''everyone'' then acl\<lparr>acl_everyone := True\<rparr> else acl\<lparr>acl_tag := components ! 0\<rparr>);
            acl = (if components ! 1 = ''READ'' then acl\<lparr>acl_level := Acl_READ\<rparr> else acl);
            acl = (if components ! 1 = ''WRITE'' then acl\<lparr>acl_level := Acl_WRITE\<rparr> else acl)
        in Some acl)"

definition additional_acls :: "string \<Rightarrow> config_acl list" where
  "additional_acls flag = List.map_filter acl_of_part (go_split CHR '','' flag)"

section \<open>The mount client\<close>

record fs_flags =
  f_kernelNetworking :: bool
  f_readOnly :: bool
  f_createMountPoint :: bool
  f_mountPoint :: string
  f_tailscaleSocketPath :: string
  f_tailscaleTags :: string
  f_additionalACLOnCreate :: string

definition client_options :: "fs_flags \<Rightarrow> fs_options" where
  "client_options flags =
     \<lparr>o_Owner = Some 0, o_Group = Some 0, o_FileMode = Some 0x124, o_Writable = (\<not> f_readOnly flags),
      o_FSName = None, o_FSSubtype = None, o_RefreshInterval = 10 * 1000000000,
      o_AdditionalACLOnCreate = additional_acls (f_additionalACLOnCreate flags)\<rparr>"

text \<open>
  Waiting for a local Tailscale: how many sleeps until the first status that is Running, in the
  sequence of answers of its socket (no answer is an error), or no return in that sequence.
\<close>

fun wait_running :: "string option list \<Rightarrow> nat option" where
  "wait_running [] = None"
| "wait_running (s # ss) = (if s = Some ''Running'' then Some 0 else map_option Suc (wait_running ss))"

text \<open>What the client meets: Tailscale, the dial, the service's first answer, the host.\<close>

record client_host =
  h_up :: "string list \<Rightarrow> bool"
  h_start :: bool
  h_statuses :: "string option list"
  h_dial :: bool
  h_first :: "rpc_error + directory option"
  h_stat :: stat_result
  h_mkdir :: bool
  h_findmnt :: exec_result
  h_fuse_unmount :: exec_result
  h_command :: "string list \<Rightarrow> exec_result"
  h_fuse_mount :: "mount_option list \<Rightarrow> bool"

datatype client_fatal = TailscaleUp | TailscaleStart | StillWaiting | DialFailed | MountPointFailed mount_point_error | NotMounted mount_error

text \<open>
  The start of the client up to serving (\<open>StillWaiting\<close>: the answers of the socket end before one is
  Running), and the refreshes until it is told to stop.
  \<open>LoadSnapshot\<close> never returns an error, and a failed unmount is only logged.
\<close>

definition run_client :: "fs_flags \<Rightarrow> client_host \<Rightarrow> (rpc_error + directory option) list \<Rightarrow> client_fatal + remote_fs" where
  "run_client flags host firings =
     (if \<not> f_kernelNetworking flags \<and> \<not> h_up host (advertise_tags (f_tailscaleTags flags)) then Inl TailscaleUp
      else if \<not> f_kernelNetworking flags \<and> \<not> h_start host then Inl TailscaleStart
      else if f_kernelNetworking flags \<and> f_tailscaleSocketPath flags \<noteq> [] \<and> wait_running (h_statuses host) = None then Inl StillWaiting
      else if \<not> h_dial host then Inl DialFailed
      else
        let opts = NewRemoteConfigFS (Some (client_options flags));
            st = LoadSnapshot (h_first host) new_remote;
            ensured = (if f_createMountPoint flags then fst (EnsureMountPoint (h_stat host) (h_mkdir host)) else Inr ())
        in case ensured of
             Inl e \<Rightarrow> Inl (MountPointFailed e)
           | Inr _ \<Rightarrow>
               (let logged_only = AttemptUnmountIfNecessary (h_findmnt host) (h_fuse_unmount host) (h_command host) (f_mountPoint flags)
                in case Mount opts (h_fuse_mount host) st of
                     (Inl e, st) \<Rightarrow> Inl (NotMounted e)
                   | (Inr _, st) \<Rightarrow> Inr (Serve firings st)))"

section \<open>The server\<close>

record tailnet =
  t_directory :: string
  t_authKey :: string
  t_clientID :: string
  t_clientSecret :: string
  t_hostname :: string
  t_tags :: string
  t_service :: string

record tsnet_server =
  ts_Hostname :: string
  ts_AuthKey :: string
  ts_Dir :: string
  ts_Ephemeral :: bool
  ts_ClientID :: string
  ts_ClientSecret :: string
  ts_AdvertiseTags :: "string list"

datatype join_error = JoinUp | JoinStart | JoinLocalClient

text \<open>Joining a tailnet, with the outcomes of the three calls on the node.\<close>

definition joinTailnet ::
    "bool \<Rightarrow> (tsnet_server \<Rightarrow> bool) \<Rightarrow> (tsnet_server \<Rightarrow> bool) \<Rightarrow> (tsnet_server \<Rightarrow> bool) \<Rightarrow> tailnet \<Rightarrow> join_error + tsnet_server" where
  "joinTailnet ephemeral up start local_client t =
     (let s = \<lparr>ts_Hostname = t_hostname t, ts_AuthKey = t_authKey t, ts_Dir = t_directory t, ts_Ephemeral = ephemeral,
               ts_ClientID = t_clientID t, ts_ClientSecret = t_clientSecret t, ts_AdvertiseTags = advertise_tags (t_tags t)\<rparr>
      in if \<not> up s then Inl JoinUp
         else if \<not> start s then Inl JoinStart
         else if \<not> local_client s then Inl JoinLocalClient
         else Inr s)"

datatype socket = HostTCP int | ServiceTCP tsnet_server string "16 word" | NodeTCP tsnet_server int

datatype listen_error = NoNode | ListenFailed

definition listener :: "bool \<Rightarrow> int \<Rightarrow> (socket \<Rightarrow> bool) \<Rightarrow> tsnet_server option \<Rightarrow> string \<Rightarrow> listen_error + socket" where
  "listener kernelNetworking grpcPort listen s service =
     (let open_socket = (\<lambda>k. if listen k then Inr k else Inl ListenFailed)
      in if kernelNetworking then open_socket (HostTCP grpcPort)
         else case s of
                None \<Rightarrow> Inl NoNode
              | Some n \<Rightarrow>
                  if service \<noteq> [] then open_socket (ServiceTCP n service (word_of_int grpcPort))
                  else open_socket (NodeTCP n grpcPort))"

text \<open>
  The interceptors of a server from the outside in: \<open>outer\<close> is the library's logging and recovery,
  then the one that decides the identities.
\<close>

definition newGRPCServer ::
    "bool \<Rightarrow> (('ctx \<Rightarrow> api_error + 'r) \<Rightarrow> 'ctx \<Rightarrow> api_error + 'r) \<Rightarrow> (string \<Rightarrow> whois_response option option) \<Rightarrow> ('ctx \<Rightarrow> string option) \<Rightarrow>
     ('ctx \<Rightarrow> md option) \<Rightarrow> ('ctx \<Rightarrow> md \<Rightarrow> 'ctx) \<Rightarrow> ('ctx \<Rightarrow> api_error + 'r) \<Rightarrow> 'ctx \<Rightarrow> api_error + 'r" where
  "newGRPCServer kernelNetworking outer whois peer from_incoming new_incoming handler =
     outer (if \<not> kernelNetworking then TailscaleAuthenticationInterceptor whois peer from_incoming new_incoming handler
            else StripACLTagsInterceptor from_incoming new_incoming handler)"

record server_flags =
  s_kernelNetworking :: bool
  s_grpcPort :: int
  s_ephemeral :: bool
  s_createAllowedTags :: string
  s_tailnet :: tailnet
  s_additional :: tailnet

text \<open>What the server meets: its database file, and the outcomes on each node and socket.\<close>

record server_host =
  sh_connect :: "sql_db option"
  sh_up :: "tsnet_server \<Rightarrow> bool"
  sh_start :: "tsnet_server \<Rightarrow> bool"
  sh_local_client :: "tsnet_server \<Rightarrow> bool"
  sh_listen :: "socket \<Rightarrow> bool"

datatype server_fatal = ConnectFailed | StoreFailed sql_error | JoinFailed join_error | AdditionalNeedsTailnet | NotListening listen_error

record serving_state =
  sv_allowed :: "string list"
  sv_store :: sql_db
  sv_socket :: socket
  sv_additional :: "socket option"

text \<open>The additional tailnet is served in the background; whatever fails there is logged.\<close>

definition serve_additional :: "server_flags \<Rightarrow> server_host \<Rightarrow> socket option" where
  "serve_additional flags host =
     (if t_directory (s_additional flags) \<noteq> [] then
        (case joinTailnet (s_ephemeral flags) (sh_up host) (sh_start host) (sh_local_client host) (s_additional flags) of
           Inl e \<Rightarrow> None
         | Inr n \<Rightarrow>
             (case listener (s_kernelNetworking flags) (s_grpcPort flags) (sh_listen host) (Some n) (t_service (s_additional flags)) of
                Inl e \<Rightarrow> None
              | Inr l \<Rightarrow> Some l))
      else None)"

definition run_server :: "server_flags \<Rightarrow> server_host \<Rightarrow> server_fatal + serving_state" where
  "run_server flags host =
     (case sh_connect host of
        None \<Rightarrow> Inl ConnectFailed
      | Some file \<Rightarrow>
        (case NewStore file of
           Inl e \<Rightarrow> Inl (StoreFailed e)
         | Inr store \<Rightarrow>
           (case (if \<not> s_kernelNetworking flags then
                    (case joinTailnet (s_ephemeral flags) (sh_up host) (sh_start host) (sh_local_client host) (s_tailnet flags) of
                       Inl e \<Rightarrow> Inl (JoinFailed e)
                     | Inr n \<Rightarrow> Inr (Some n))
                  else if t_directory (s_additional flags) \<noteq> [] then Inl AdditionalNeedsTailnet
                  else Inr None) of
              Inl e \<Rightarrow> Inl e
            | Inr s \<Rightarrow>
              (case listener (s_kernelNetworking flags) (s_grpcPort flags) (sh_listen host) s (t_service (s_tailnet flags)) of
                 Inl e \<Rightarrow> Inl (NotListening e)
               | Inr l \<Rightarrow> Inr \<lparr>sv_allowed = NewServer (go_split CHR '','' (s_createAllowedTags flags)), sv_store = store,
                               sv_socket = l, sv_additional = serve_additional flags host\<rparr>))))"

section \<open>The flag of entries for new files\<close>

text \<open>An entry the flag can express, and its text.\<close>

definition flag_entry :: "config_acl \<Rightarrow> bool" where
  "flag_entry a \<longleftrightarrow> acl_level a \<in> {Acl_READ, Acl_WRITE} \<and>
     (if acl_everyone a then acl_tag a = [] else acl_tag a \<noteq> ''everyone'' \<and> CHR '','' \<notin> set (acl_tag a) \<and> CHR ''@'' \<notin> set (acl_tag a))"

definition flag_part :: "config_acl \<Rightarrow> string" where
  "flag_part a = (if acl_everyone a then ''everyone'' else acl_tag a) @ ''@'' @ (if acl_level a = Acl_READ then ''READ'' else ''WRITE'')"

lemma read_not_write: "Acl_READ \<noteq> Acl_WRITE"
  by (simp add: Acl_READ_def Acl_WRITE_def)

lemma acl_of_flag_part:
  assumes "flag_entry a"
  shows "acl_of_part (flag_part a) = Some a" and "CHR '','' \<notin> set (flag_part a)"
proof -
  let ?who = "if acl_everyone a then ''everyone'' else acl_tag a" and ?level = "if acl_level a = Acl_READ then ''READ'' else ''WRITE''"
  have who: "CHR ''@'' \<notin> set ?who" "CHR '','' \<notin> set ?who" using assms by (auto simp: flag_entry_def split: if_splits)
  have "go_split CHR ''@'' (flag_part a) = ?who # go_split CHR ''@'' ?level"
    unfolding flag_part_def using go_split_append_sep [OF who(1)] by simp
  also have "go_split CHR ''@'' ?level = [?level]" by (intro go_split_no_sep) simp
  finally have parts: "go_split CHR ''@'' (flag_part a) = [?who, ?level]" .
  have len: "flag_part a \<noteq> []" by (simp add: flag_part_def)
  from assms show "acl_of_part (flag_part a) = Some a"
    unfolding acl_of_part_def parts Let_def using len read_not_write
    by (cases a) (auto simp: flag_entry_def)
  show "CHR '','' \<notin> set (flag_part a)" using who(2) by (simp add: flag_part_def)
qed

text \<open>
  The flag of entries for new files round-trips: every list of entries for READ or WRITE, for
  everyone or for a tag without a comma or an at sign, is parsed back from its text in full and in
  order.
\<close>

theorem acl_flag_round_trip:
  assumes all: "list_all flag_entry acls"
  shows "additional_acls (go_join '','' (map flag_part acls)) = acls"
proof (cases "acls = []")
  case True
  then show ?thesis by (simp add: additional_acls_def acl_of_part_def map_filter_simps)
next
  case False
  have "go_split CHR '','' (go_join '','' (map flag_part acls)) = map flag_part acls"
    by (rule go_split_join) (use all acl_of_flag_part(2) False in \<open>auto simp: list_all_iff\<close>)
  moreover have "List.map_filter acl_of_part (map flag_part acls) = acls"
    using all by (induction acls) (simp_all add: acl_of_flag_part(1) map_filter_simps)
  ultimately show ?thesis unfolding additional_acls_def by (simp only:)
qed

theorem acl_flag_round_trip_witness:
  "additional_acls (go_join '','' [''everyone@READ'', ''tag:ops@WRITE'']) =
     [\<lparr>acl_level = Acl_READ, acl_tag = [], acl_everyone = True\<rparr>, \<lparr>acl_level = Acl_WRITE, acl_tag = ''tag:ops'', acl_everyone = False\<rparr>]"
proof -
  let ?a = "\<lparr>acl_level = Acl_READ, acl_tag = [], acl_everyone = True\<rparr>" and
    ?b = "\<lparr>acl_level = Acl_WRITE, acl_tag = ''tag:ops'', acl_everyone = False\<rparr>"
  have ok: "list_all flag_entry [?a, ?b]" by (simp add: flag_entry_def)
  have parts: "map flag_part [?a, ?b] = [''everyone@READ'', ''tag:ops@WRITE'']"
    using read_not_write by (simp add: flag_part_def)
  show ?thesis using acl_flag_round_trip [OF ok] unfolding parts .
qed

lemma additional_acls_entries:
  assumes "a \<in> set (additional_acls flag)"
  shows "flag_entry a"
proof -
  obtain p where p: "p \<in> set (go_split CHR '','' flag)" "acl_of_part p = Some a"
    using assms by (auto simp: additional_acls_def map_filter_def)
  have comma: "CHR '','' \<notin> set p" using p(1) by (rule go_split_parts)
  obtain w l where s: "go_split CHR ''@'' p = [w, l]"
    using p(2) by (auto simp: acl_of_part_def Let_def length_Suc_conv numeral_2_eq_2 split: if_splits)
  have at: "CHR ''@'' \<notin> set w" by (rule go_split_parts [of w _ p]) (simp add: s)
  have "p = w @ ''@'' @ l" using go_join_split [of "CHR ''@''" p] by (simp add: s)
  with comma have "CHR '','' \<notin> set w" by simp
  with at p(2) show ?thesis
    by (auto simp: acl_of_part_def Let_def s flag_entry_def split: if_splits)
qed

text \<open>
  An identity of the shape the server gives to users has an at sign of its own, so the flag has no
  text for it: its part is skipped without a word.
\<close>

lemma user_entries_skipped: "additional_acls ''user:alice@example.com@READ'' = []"
  by code_simp

section \<open>Who the caller is\<close>

text \<open>Logging and recovery let a result through only from the handler they wrap, for the same peer.\<close>

definition outer_laws :: "(('ctx \<Rightarrow> api_error + 'r) \<Rightarrow> 'ctx \<Rightarrow> api_error + 'r) \<Rightarrow> ('ctx \<Rightarrow> string option) \<Rightarrow> bool" where
  "outer_laws outer peer \<longleftrightarrow>
     (\<forall>h ctx r. outer h ctx = Inr r \<longrightarrow> (\<exists>ctx'. h ctx' = Inr r \<and> peer ctx' = peer ctx))"

text \<open>The identities of the peer, as the node reports them.\<close>

definition peer_identities :: "(string \<Rightarrow> whois_response option option) \<Rightarrow> string option \<Rightarrow> string list" where
  "peer_identities whois p = (case p of None \<Rightarrow> [] | Some addr \<Rightarrow> (case whois addr of None \<Rightarrow> [] | Some r \<Rightarrow> identitiesFromWhoIs r))"

lemma answered_identities:
  assumes laws: "metadata_laws from_incoming new_incoming value_from_incoming" and outer: "outer_laws outer peer"
    and res: "newGRPCServer kernelNetworking outer whois peer from_incoming new_incoming handler ctx = Inr r"
  shows "\<exists>ctx'. handler ctx' = Inr r \<and>
    aclTags value_from_incoming ctx' = (if kernelNetworking then [] else peer_identities whois (peer ctx))"
proof (cases kernelNetworking)
  case True
  with res have "outer (StripACLTagsInterceptor from_incoming new_incoming handler) ctx = Inr r" by (simp add: newGRPCServer_def)
  with outer obtain ctx1 where c: "StripACLTagsInterceptor from_incoming new_incoming handler ctx1 = Inr r"
    unfolding outer_laws_def by blast
  show ?thesis
  proof (cases "from_incoming ctx1")
    case None
    with laws have "aclTags value_from_incoming ctx1 = []" by (simp add: metadata_laws_def aclTags_def)
    with None c True show ?thesis by (auto simp: StripACLTagsInterceptor_def)
  next
    case (Some md)
    with metadata_override [OF laws Some, of None] c True show ?thesis by (auto simp: StripACLTagsInterceptor_def)
  qed
next
  case False
  with res have "outer (TailscaleAuthenticationInterceptor whois peer from_incoming new_incoming handler) ctx = Inr r"
    by (simp add: newGRPCServer_def)
  with outer obtain ctx1 where c: "TailscaleAuthenticationInterceptor whois peer from_incoming new_incoming handler ctx1 = Inr r"
      "peer ctx1 = peer ctx"
    unfolding outer_laws_def by blast
  from tailscale_identities [OF laws c(1)] obtain addr resp ctx' where
    t: "peer ctx1 = Some addr" "whois addr = Some resp" "handler ctx' = Inr r" "aclTags value_from_incoming ctx' = identitiesFromWhoIs resp"
    by blast
  have "peer ctx = Some addr" using c(2) t(1) by simp
  with t(2-4) False show ?thesis by (intro exI [of _ ctx']) (simp add: peer_identities_def)
qed

text \<open>
  A client never chooses its own identity.  Whatever metadata it sends, a call that is answered
  reached its handler with the identities Tailscale reports for the peer, or with none where the
  server listens on the host's network.
\<close>

theorem identities_authenticated:
  assumes laws: "metadata_laws from_incoming new_incoming value_from_incoming" and outer: "outer_laws outer peer"
    and res: "newGRPCServer kernelNetworking outer whois peer from_incoming new_incoming handler ctx = Inr r"
  shows "\<exists>ctx'. handler ctx' = Inr r \<and>
    aclTags value_from_incoming ctx' = (if kernelNetworking then [] else peer_identities whois (peer ctx))"
  using assms by (rule answered_identities)

theorem identities_authenticated_witness:
  "\<exists>ctx' :: md option. aclTags demo_value ctx' = [''user:ann'']"
proof -
  let ?who = "\<lambda>_. Some (Some \<lparr>node_tags = Some [], login_name = Some ''ann''\<rparr>)" and ?peer = "\<lambda>_. Some ''100.1.2.3:5''"
  let ?ctx = "Some [''acl_tags'' \<mapsto> [''tag:admin'']] :: md option"
  have outer: "outer_laws (\<lambda>h. h) ?peer" by (auto simp: outer_laws_def)
  have "newGRPCServer False (\<lambda>h. h) ?who ?peer demo_from (\<lambda>_. Some) (\<lambda>_. Inr ()) ?ctx = Inr ()"
    by (simp add: newGRPCServer_def TailscaleAuthenticationInterceptor_def demo_from_def)
  from identities_authenticated [OF demo_laws outer this] show ?thesis
    by (auto simp: peer_identities_def identitiesFromWhoIs_def)
qed

section \<open>What a started program serves\<close>

text \<open>
  C33: A started mount client is mounted, read-only exactly when the flag says so, and whatever loads
  of the tree succeed or fail, the first included, and in whatever order, its root serves the tree
  of the last load that succeeded (an empty one before the first); the log holds one entry for each
  change from working to failing and back.
\<close>

theorem client_serves_last_loaded:
  assumes "run_client flags host firings = Inr st"
  shows "fuseMount st \<and> root st = Some (Some 0) \<and> snapshots st = [last_loaded new_snapshot (h_first host # firings)] \<and>
    logged st = changes False (map isl (h_first host # firings)) \<and>
    h_fuse_mount host (mount_options (client_options flags)) \<and>
    (ReadOnly \<in> set (mount_options (client_options flags))) = f_readOnly flags"
proof -
  note l = first_load [of "h_first host"]
  let ?st1 = "(LoadSnapshot (h_first host) new_remote)\<lparr>fuseMount := True\<rparr>"
  have r: "st = backgroundLoop firings (snd (Root ?st1))" "h_fuse_mount host (mount_options (client_options flags))"
    using assms by (auto simp: run_client_def Let_def Mount_def NewRemoteConfigFS_def Serve_def split: if_splits sum.splits)
  have s1: "serving ?st1" "root ?st1 = None" "\<not> backgroundRefreshStarted ?st1" using l(1,5,6) by (simp_all add: serving_def)
  note loop = loop_serving [OF s1, of firings, folded r(1)]
  have ro: "(ReadOnly \<in> set (mount_options (client_options flags))) = f_readOnly flags"
    by (simp add: mount_options_def client_options_def Let_def)
  have snaps: "snapshots st = [last_loaded new_snapshot (h_first host # firings)]"
    using loop(2) l(2) by (simp add: last_loaded_step)
  have "logged st = changes False (map isl (h_first host # firings))" using loop(3) l(3,4) by simp
  with loop(1,4) snaps ro r(2) show ?thesis by simp
qed

text \<open>A client whose first load fails: it mounts an empty tree and shows the server's from the next load on.\<close>

theorem client_serves_last_loaded_witness:
  "\<exists>st. run_client \<lparr>f_kernelNetworking = True, f_readOnly = False, f_createMountPoint = True, f_mountPoint = ''/mnt'', f_tailscaleSocketPath = [],
       f_tailscaleTags = [], f_additionalACLOnCreate = []\<rparr>
     \<lparr>h_up = \<lambda>_. False, h_start = False, h_statuses = [], h_dial = True, h_first = Inl RpcOther, h_stat = StatNotExist, h_mkdir = True,
       h_findmnt = ExecError, h_fuse_unmount = ExecOk, h_command = \<lambda>_. ExecOk, h_fuse_mount = \<lambda>_. True\<rparr>
     [Inr None] = Inr st \<and> logged st = [LoadFailing, LoadRecovered]"
proof -
  let ?flags = "\<lparr>f_kernelNetworking = True, f_readOnly = False, f_createMountPoint = True, f_mountPoint = ''/mnt'', f_tailscaleSocketPath = [],
       f_tailscaleTags = [], f_additionalACLOnCreate = []\<rparr>"
  let ?host = "\<lparr>h_up = \<lambda>_. False, h_start = False, h_statuses = [], h_dial = True, h_first = Inl RpcOther, h_stat = StatNotExist, h_mkdir = True,
       h_findmnt = ExecError, h_fuse_unmount = ExecOk, h_command = \<lambda>_. ExecOk, h_fuse_mount = \<lambda>_. True\<rparr>"
  have "\<not> isl (run_client ?flags ?host [Inr None])"
    by (simp add: run_client_def Let_def EnsureMountPoint_def Mount_def LoadSnapshot_def refresh_def new_remote_def split: prod.split)
  then obtain st where st: "run_client ?flags ?host [Inr None] = Inr st" by (cases "run_client ?flags ?host [Inr None]") auto
  from client_serves_last_loaded [OF st] st show ?thesis by simp
qed

text \<open>
  What happens to the additional tailnet does not reach the first one: with or without it, and
  whether joining it or listening on it fails or not, a server on a tailnet starts or fails to
  start in the same way, with the same store, allow-list and first socket.
\<close>

theorem additional_tailnet_isolated:
  assumes "\<not> s_kernelNetworking flags"
  shows "map_sum id (\<lambda>sv. sv\<lparr>sv_additional := None\<rparr>) (run_server flags host) =
    run_server (flags\<lparr>s_additional := (s_additional flags)\<lparr>t_directory := []\<rparr>\<rparr>) host"
  using assms by (simp add: run_server_def serve_additional_def split: option.split sum.split)

text \<open>A server whose second node does not come up.\<close>

definition demo_tailnet :: "string \<Rightarrow> tailnet" where
  "demo_tailnet dir = \<lparr>t_directory = dir, t_authKey = [], t_clientID = [], t_clientSecret = [], t_hostname = ''configfs'', t_tags = [], t_service = []\<rparr>"

definition demo_server :: "server_flags" where
  "demo_server = \<lparr>s_kernelNetworking = False, s_grpcPort = 443, s_ephemeral = True, s_createAllowedTags = ''tag:ops'',
     s_tailnet = demo_tailnet ''one'', s_additional = demo_tailnet ''two''\<rparr>"

definition demo_host :: server_host where
  "demo_host = \<lparr>sh_connect = Some Map.empty, sh_up = (\<lambda>n. ts_Dir n = ''one''), sh_start = (\<lambda>_. True), sh_local_client = (\<lambda>_. True), sh_listen = (\<lambda>_. True)\<rparr>"

lemma fresh_database_opens: "\<not> isl (NewStore Map.empty)"
  by code_simp

theorem additional_tailnet_isolated_witness:
  "\<exists>sv. run_server (demo_server\<lparr>s_additional := (s_additional demo_server)\<lparr>t_directory := []\<rparr>\<rparr>) demo_host = Inr sv \<and>
     sv_allowed sv = [''tag:ops''] \<and> sv_additional sv = None"
proof -
  obtain store where store: "NewStore Map.empty = Inr store" using fresh_database_opens by (cases "NewStore Map.empty") auto
  have tag: "NewServer [''tag:ops''] = [''tag:ops'']" by code_simp
  have "\<exists>sv. run_server demo_server demo_host = Inr sv \<and> sv_allowed sv = [''tag:ops'']"
    by (simp add: run_server_def demo_server_def demo_host_def demo_tailnet_def store joinTailnet_def Let_def listener_def tag)
  then obtain sv where sv: "run_server demo_server demo_host = Inr sv" "sv_allowed sv = [''tag:ops'']" by blast
  have "\<not> s_kernelNetworking demo_server" by (simp add: demo_server_def)
  from additional_tailnet_isolated [OF this, of demo_host, symmetric] sv show ?thesis by simp
qed

end
