(* ===== verification/CmdAuthority.thy ===== *)
theory CmdAuthority
  imports Cmd ApiAuthority ApiReads
begin

text \<open>
  The server program from the socket to the database: a call passes the interceptors of
  \<open>newGRPCServer\<close>, its handler reads the identities they left in the metadata, and what it hands out
  or changes was granted to the peer.
\<close>

text \<open>
  The handler of one request as the interceptors see it; an answer is told together with the
  database it left.
\<close>

definition serve_request :: "('ctx \<Rightarrow> string \<Rightarrow> string list) \<Rightarrow> (string \<Rightarrow> string) \<Rightarrow> string list \<Rightarrow> int \<Rightarrow> request \<Rightarrow> db \<Rightarrow>
    'ctx \<Rightarrow> api_error + response \<times> db" where
  "serve_request value_from_incoming q allowed now req s ctx =
     (case handle q allowed (aclTags value_from_incoming ctx) now req s of
        (Inl e, s') \<Rightarrow> Inl e
      | (Inr r, s') \<Rightarrow> Inr (r, s'))"

definition caller_identities :: "bool \<Rightarrow> (string \<Rightarrow> whois_response option option) \<Rightarrow> string option \<Rightarrow> string list" where
  "caller_identities kernelNetworking whois p = (if kernelNetworking then [] else peer_identities whois p)"



end
