(* ===== verification/Log.thy ===== *)
theory Log
  imports Prelude
begin

text \<open>
  \<open>internal/log/log.go\<close>: the logger a context carries, the four ways to log through it, and the
  adapter that turns the middleware's calls into zap calls.  zap, \<open>Sprintf\<close> and the standard logger
  are parameters; a logger is what identifies it together with the fields attached to it.
\<close>

section \<open>The logger of a context\<close>

text \<open>A context maps keys to values; the logger has a key of a type of its own.\<close>

datatype context_key = LoggingKey | OtherKey string

datatype 'l context_value = LoggerValue 'l | OtherValue string

type_synonym 'l go_context = "context_key \<Rightarrow> 'l context_value option"

definition contextKey_String :: "string \<Rightarrow> string" where
  "contextKey_String c = ''logger'' @ c"

definition LoggerForContext :: "'l \<Rightarrow> 'l go_context \<Rightarrow> 'l" where
  "LoggerForContext StdLogger ctx =
     (case ctx LoggingKey of
        None \<Rightarrow> StdLogger
      | Some (LoggerValue retLogger) \<Rightarrow> retLogger
      | Some (OtherValue v) \<Rightarrow> StdLogger)"

definition ContextWithLogger :: "'l go_context \<Rightarrow> 'l \<Rightarrow> 'l go_context" where
  "ContextWithLogger ctx l = ctx(LoggingKey \<mapsto> LoggerValue l)"

text \<open>What is logged, at which level; a fatal entry ends the program.\<close>

datatype level = DebugLevel | InfoLevel | WarnLevel | ErrorLevel

datatype 'e log_effect = Logged level string "'e option" | LoggedAndExited string

definition ErrorfCtx :: "'l \<Rightarrow> 'l go_context \<Rightarrow> 'e \<Rightarrow> string \<Rightarrow> 'l \<times> 'e log_effect" where
  "ErrorfCtx StdLogger ctx err text = (LoggerForContext StdLogger ctx, Logged ErrorLevel text (Some err))"

definition WarningfCtx :: "'l \<Rightarrow> 'l go_context \<Rightarrow> string \<Rightarrow> 'l \<times> 'e log_effect" where
  "WarningfCtx StdLogger ctx text = (LoggerForContext StdLogger ctx, Logged WarnLevel text None)"

definition InfofCtx :: "'l \<Rightarrow> 'l go_context \<Rightarrow> string \<Rightarrow> 'l \<times> 'e log_effect" where
  "InfofCtx StdLogger ctx text = (LoggerForContext StdLogger ctx, Logged InfoLevel text None)"

definition FatalfCtx :: "'l \<Rightarrow> 'l go_context \<Rightarrow> string \<Rightarrow> 'l \<times> 'e log_effect" where
  "FatalfCtx StdLogger ctx text = (LoggerForContext StdLogger ctx, LoggedAndExited text)"

text \<open>
  What is put into a context is what is logged to, whatever else the context holds and whatever
  other keys are set afterwards.
\<close>

theorem logger_of_context:
  "LoggerForContext std ((ContextWithLogger ctx l)(OtherKey k := v)) = l"
  "\<forall>l. ctx LoggingKey \<noteq> Some (LoggerValue l) \<Longrightarrow> LoggerForContext std ctx = std"
  by (simp_all add: LoggerForContext_def ContextWithLogger_def split: option.split context_value.split)

section \<open>The adapter for the middleware\<close>

text \<open>The values the type switch tells apart; the rest goes to \<open>zap.Any\<close>.\<close>

datatype 'v any = AString string | AInt int | ABool bool | AOther 'v

datatype 'v zap_field = ZString string string | ZInt string int | ZBool string bool | ZAny string 'v

datatype adapter_panic = IndexOutOfRange | KeyNotString | UnknownLevel int

definition field_of :: "string \<Rightarrow> 'v any \<Rightarrow> 'v zap_field" where
  "field_of key value =
     (case value of
        AString v \<Rightarrow> ZString key v
      | AInt v \<Rightarrow> ZInt key v
      | ABool v \<Rightarrow> ZBool key v
      | AOther v \<Rightarrow> ZAny key v)"

text \<open>
  The loop over keys and values two by two: the value is indexed before the key is asserted to be a
  string.
\<close>

fun zap_fields :: "'v any list \<Rightarrow> adapter_panic + 'v zap_field list" where
  "zap_fields [] = Inr []"
| "zap_fields [key] = Inl IndexOutOfRange"
| "zap_fields (key # value # fields) =
     (case key of
        AString k \<Rightarrow> map_sum id ((#) (field_of k value)) (zap_fields fields)
      | _ \<Rightarrow> Inl KeyNotString)"

text \<open>The switch over the levels, given the constant the middleware has for each.\<close>

definition log_level :: "(level \<Rightarrow> int) \<Rightarrow> int \<Rightarrow> level option" where
  "log_level constant lvl =
     (if lvl = constant DebugLevel then Some DebugLevel
      else if lvl = constant InfoLevel then Some InfoLevel
      else if lvl = constant WarnLevel then Some WarnLevel
      else if lvl = constant ErrorLevel then Some ErrorLevel
      else None)"

definition InterceptorLogger :: "(level \<Rightarrow> int) \<Rightarrow> int \<Rightarrow> string \<Rightarrow> 'v any list \<Rightarrow> adapter_panic + level \<times> 'v zap_field list \<times> string" where
  "InterceptorLogger constant lvl msg fields =
     (case zap_fields fields of
        Inl p \<Rightarrow> Inl p
      | Inr f \<Rightarrow>
          (case log_level constant lvl of
             None \<Rightarrow> Inl (UnknownLevel lvl)
           | Some l \<Rightarrow> Inr (l, f, msg)))"

text \<open>The flat list of the middleware for a list of named values.\<close>

fun flat_fields :: "(string \<times> 'v any) list \<Rightarrow> 'v any list" where
  "flat_fields [] = []"
| "flat_fields ((k, v) # kvs) = AString k # v # flat_fields kvs"

lemma zap_fields_flat: "zap_fields (flat_fields kvs) = Inr (map (\<lambda>(k, v). field_of k v) kvs)"
  by (induction kvs rule: flat_fields.induct) simp_all

text \<open>The fields that come out, and only those, are a list of named values.\<close>

lemma zap_fields_Inr: "zap_fields fields = Inr f \<Longrightarrow> \<exists>kvs. fields = flat_fields kvs"
proof (induction fields arbitrary: f rule: zap_fields.induct)
  case (3 key v fields)
  then obtain k g where k: "key = AString k" "zap_fields fields = Inr g" by (auto split: any.splits sum.splits simp: map_sum_def)
  with 3(1) obtain kvs where "fields = flat_fields kvs" by blast
  with k have "key # v # fields = flat_fields ((k, v) # kvs)" by simp
  then show ?case by blast
qed (auto intro: exI [of _ "[]"])

text \<open>
  The adapter logs, and does not panic, exactly for a list of named values at one of the four
  levels of the middleware, and then one entry with one field per name, in order and with the type
  of its value.
\<close>

theorem adapter_logs_named_values:
  "InterceptorLogger constant lvl msg fields = Inr r \<longleftrightarrow>
     (\<exists>kvs l. fields = flat_fields kvs \<and> log_level constant lvl = Some l \<and> r = (l, map (\<lambda>(k, v). field_of k v) kvs, msg))"
proof
  assume r: "InterceptorLogger constant lvl msg fields = Inr r"
  then obtain f where f: "zap_fields fields = Inr f" by (auto simp: InterceptorLogger_def split: sum.splits)
  then obtain kvs where "fields = flat_fields kvs" using zap_fields_Inr by blast
  with r show "\<exists>kvs l. fields = flat_fields kvs \<and> log_level constant lvl = Some l \<and> r = (l, map (\<lambda>(k, v). field_of k v) kvs, msg)"
    by (auto simp: InterceptorLogger_def zap_fields_flat split: option.splits)
qed (auto simp: InterceptorLogger_def zap_fields_flat)

end
