(* ===== verification/ApiSteps.thy ===== *)
theory ApiSteps
  imports ApiSystem
begin

text \<open>
  The service of \<open>internal/api/server.go\<close> at the grain at which requests interleave.  The store has
  one connection, \<open>querier\<close> hands it out per statement outside a transaction, and a transaction
  holds it from begin to commit: so a query and a transaction are each one step, and between two
  steps of a request any other request may run.  A process is what a request still has to do.
\<close>

section \<open>Processes\<close>

text \<open>
  \<open>Query\<close> reads the database, \<open>Tx\<close> replaces it; both go on with what they found.
\<close>

datatype ('s, 'r) proc =
    Done 'r
  | Query "'s \<Rightarrow> ('s, 'r) proc"
  | Tx "'s \<Rightarrow> 's" "'s \<Rightarrow> ('s, 'r) proc"

primrec pbind :: "('s, 'a) proc \<Rightarrow> ('a \<Rightarrow> ('s, 'b) proc) \<Rightarrow> ('s, 'b) proc" where
  "pbind (Done a) g = g a"
| "pbind (Query k) g = Query (\<lambda>s. pbind (k s) g)"
| "pbind (Tx f k) g = Tx f (\<lambda>s. pbind (k s) g)"

text \<open>One statement on the bare connection, and one transaction.\<close>

definition querier :: "('s \<Rightarrow> 'a) \<Rightarrow> ('s, 'a) proc" where
  "querier q = Query (\<lambda>s. Done (q s))"

definition transaction :: "('s \<Rightarrow> 'a \<times> 's) \<Rightarrow> ('s, 'a) proc" where
  "transaction t = Tx (\<lambda>s. snd (t s)) (\<lambda>s. Done (fst (t s)))"

text \<open>A process that nothing disturbs.\<close>

primrec run_alone :: "('s, 'r) proc \<Rightarrow> 's \<Rightarrow> 'r \<times> 's" where
  "run_alone (Done r) = (\<lambda>s. (r, s))"
| "run_alone (Query k) = (\<lambda>s. run_alone (k s) s)"
| "run_alone (Tx f k) = (\<lambda>s. run_alone (k s) (f s))"

text \<open>At most so many steps, whatever is found.\<close>

primrec within :: "('s, 'r) proc \<Rightarrow> nat \<Rightarrow> bool" where
  "within (Done r) = (\<lambda>n. True)"
| "within (Query k) = (\<lambda>n. 0 < n \<and> (\<forall>s. within (k s) (n - 1)))"
| "within (Tx f k) = (\<lambda>n. 0 < n \<and> (\<forall>s. within (k s) (n - 1)))"

text \<open>Every transaction is one of \<open>W\<close>.\<close>

primrec writes_by :: "('s \<Rightarrow> 's \<Rightarrow> bool) \<Rightarrow> ('s, 'r) proc \<Rightarrow> bool" where
  "writes_by W (Done r) = True"
| "writes_by W (Query k) = (\<forall>s. writes_by W (k s))"
| "writes_by W (Tx f k) = ((\<forall>s. W s (f s)) \<and> (\<forall>s. writes_by W (k s)))"

named_theorems proc_simps

lemma run_alone_pbind [proc_simps]: "run_alone (pbind p g) s = (case run_alone p s of (a, t) \<Rightarrow> run_alone (g a) t)"
  by (induction p arbitrary: s) simp_all

lemma run_alone_basic [proc_simps]: "run_alone (querier q) s = (q s, s)" "run_alone (transaction t) s = t s"
  by (simp_all add: querier_def transaction_def)

lemma within_mono: "within p n \<Longrightarrow> n \<le> m \<Longrightarrow> within p m"
proof (induction p arbitrary: n m)
  case (Query k)
  then show ?case by (fastforce intro: Query.IH [OF rangeI])
next
  case (Tx f k)
  then show ?case by (fastforce intro: Tx.IH [OF rangeI])
qed simp

lemma within_pbind: "within p n \<Longrightarrow> (\<And>a. within (g a) m) \<Longrightarrow> within (pbind p g) (n + m)"
proof (induction p arbitrary: n)
  case (Done a)
  then show ?case using within_mono [of "g a" m "n + m"] by simp
next
  case (Query k)
  then obtain j where j: "n = Suc j" by (cases n) auto
  have "within (pbind (k s) g) (j + m)" for s
    using Query.IH [OF rangeI, of s j] Query.prems by (simp add: j)
  then show ?case by (simp add: j)
next
  case (Tx f k)
  then obtain j where j: "n = Suc j" by (cases n) auto
  have "within (pbind (k s) g) (j + m)" for s
    using Tx.IH [OF rangeI, of s j] Tx.prems by (simp add: j)
  then show ?case by (simp add: j)
qed

lemma within_basic: "within (querier q) 1" "within (transaction t) 1"
  by (simp_all add: querier_def transaction_def)

lemma writes_by_pbind [proc_simps]: "writes_by W p \<Longrightarrow> (\<And>a. writes_by W (g a)) \<Longrightarrow> writes_by W (pbind p g)"
  by (induction p) simp_all

lemma writes_by_basic [proc_simps]: "writes_by W (querier q)" "writes_by W (transaction t) \<longleftrightarrow> (\<forall>s. W s (snd (t s)))"
  by (simp_all add: querier_def transaction_def)

lemma writes_by_mono: "writes_by W p \<Longrightarrow> (\<And>s s'. W s s' \<Longrightarrow> W' s s') \<Longrightarrow> writes_by W' p"
  by (induction p) auto

section \<open>The reads of the store\<close>

text \<open>The query of \<open>loadACLs\<close>; no owners, no query.\<close>

definition loadACLs_steps :: "acl_table \<Rightarrow> int list \<Rightarrow> (db, int \<Rightarrow> config_acl list) proc" where
  "loadACLs_steps tbl ownerIDs =
     (if length ownerIDs = 0 then Done (\<lambda>_. []) else querier (\<lambda>s. loadACLs tbl s ownerIDs))"

definition aclsForOwner_steps :: "acl_table \<Rightarrow> int \<Rightarrow> (db, config_acl list) proc" where
  "aclsForOwner_steps tbl ownerID = pbind (loadACLs_steps tbl [ownerID]) (\<lambda>byID. Done (byID ownerID))"

text \<open>First the rows of the directories, then their entries.\<close>

definition getDirectoriesByPathString_steps :: "string list \<Rightarrow> (db, directory list \<times> string list) proc" where
  "getDirectoriesByPathString_steps targets =
     (let constraints = concat (map path_constraints targets)
      in if length constraints = 0 then Done ([], targets)
         else
           pbind (querier (\<lambda>s. sort_key dr_path
             (filter (\<lambda>r. (dr_path r, dr_name r) \<in> set constraints) (directory_table s)))) (\<lambda>rows.
           pbind (loadACLs_steps Directory_acl (map dr_id rows)) (\<lambda>aclsByDir.
             let protoDirectories = map (\<lambda>d. directory_of_row (aclsByDir (dr_id d)) d) rows;
                 fetchedPaths = map Directory_FullPath protoDirectories;
                 missing = filter (\<lambda>target. target \<notin> set fetchedPaths) targets
             in Done (protoDirectories, missing))))"

definition DirectoryChain_steps :: "string \<Rightarrow> (db, directory list \<times> string list) proc" where
  "DirectoryChain_steps fullPath =
     (if fullPath = [] \<or> fullPath = ''/'' then Done ([], [])
      else getDirectoriesByPathString_steps [fullPath])"

definition GetDirectoryByID_steps :: "string \<Rightarrow> (db, store_error + directory option) proc" where
  "GetDirectoryByID_steps i =
     (case parse_int64 i of
        None \<Rightarrow> Done (Inl (BadId i))
      | Some numericID \<Rightarrow>
          pbind (querier (\<lambda>s. find (\<lambda>r. dr_id r = numericID) (directory_table s))) (\<lambda>found.
            case found of
              None \<Rightarrow> Done (Inr None)
            | Some ds \<Rightarrow> pbind (aclsForOwner_steps Directory_acl (dr_id ds))
                (\<lambda>acls. Done (Inr (Some (directory_of_row acls ds))))))"

definition allDirectoriesWithACLs_steps :: "(db, directory list) proc" where
  "allDirectoriesWithACLs_steps =
     pbind (querier (\<lambda>s. sort_key dr_path (directory_table s))) (\<lambda>rows.
     pbind (loadACLs_steps Directory_acl (map dr_id rows)) (\<lambda>aclsByDir.
       Done (map (\<lambda>r. directory_of_row (aclsByDir (dr_id r)) r) rows)))"

text \<open>A selected config with the size its query joins to it (\<open>configSelect\<close>).\<close>

record config_select =
  sel_row :: config_row
  sel_content_size :: int

definition select_config :: "db \<Rightarrow> config_row \<Rightarrow> config_select" where
  "select_config s r = \<lparr>sel_row = r, sel_content_size = joined_content_size s r\<rparr>"

definition config_of_select :: "config_acl list \<Rightarrow> config_select \<Rightarrow> config" where
  "config_of_select acls c =
     (let r = sel_row c
      in \<lparr>c_id = show_int (cr_id r), c_name = cr_name r, c_content = None,
         c_content_size = word_of_int (sel_content_size c), c_path = cr_path r, c_acls = acls,
         c_created_at = timestampFromUnixNano (cr_created_at r),
         c_updated_at = timestampFromUnixNano (cr_updated_at r),
         c_current_content_id = idStringFromNullInt (cr_current_content_id r)\<rparr>)"

lemma config_of_select_row [simp]: "config_of_select acls (select_config s r) = config_of_row s acls r" "sel_row (select_config s r) = r"
  by (simp_all add: config_of_select_def select_config_def config_of_row_def)

definition load_content_steps :: "int \<Rightarrow> config_row \<Rightarrow> string \<Rightarrow> config \<Rightarrow> (db, store_error + config option) proc" where
  "load_content_steps numericID cs version conf =
     (case (if version \<noteq> []
            then (case parse_int64 version of None \<Rightarrow> Inl (BadVersion version) | Some v \<Rightarrow> Inr (Some v))
            else Inr (cr_current_content_id cs)) of
        Inl e \<Rightarrow> Done (Inl e)
      | Inr None \<Rightarrow> Done (Inr None)
      | Inr (Some contentID) \<Rightarrow>
          pbind (querier (\<lambda>s. find (\<lambda>cc. cc_id cc = contentID \<and> cc_config_id cc = numericID) (config_content_table s)))
            (\<lambda>found. Done (Inr (map_option (\<lambda>cc. conf\<lparr>c_content := Some (cc_content cc),
               c_content_size := word_of_int (cc_content_size cc)\<rparr>) found))))"

definition GetConfigByID_steps :: "string \<Rightarrow> bool \<Rightarrow> string \<Rightarrow> (db, store_error + config option) proc" where
  "GetConfigByID_steps i includeContent version =
     (case parse_int64 i of
        None \<Rightarrow> Done (Inl (BadId i))
      | Some numericID \<Rightarrow>
          pbind (querier (\<lambda>s. map_option (select_config s) (find (\<lambda>r. cr_id r = numericID) (config_table s)))) (\<lambda>found.
            case found of
              None \<Rightarrow> Done (Inr None)
            | Some cs \<Rightarrow>
                pbind (aclsForOwner_steps Config_acl (cr_id (sel_row cs))) (\<lambda>acls.
                  let conf = config_of_select acls cs
                  in if includeContent then load_content_steps numericID (sel_row cs) version conf
                     else Done (Inr (Some conf)))))"

fun tree_loop_steps :: "string set \<Rightarrow> (string \<Rightarrow> bool) \<Rightarrow> string list \<Rightarrow> string \<Rightarrow>
    (int \<Rightarrow> config_acl list) \<Rightarrow> config_select list \<Rightarrow> config list \<Rightarrow> store_error + config list" where
  "tree_loop_steps dirByPath readable tags pre aclsByConfig [] configs = Inr configs"
| "tree_loop_steps dirByPath readable tags pre aclsByConfig (c # cs) configs =
     (let path = cr_path (sel_row c)
      in if pre \<noteq> [] \<and> path \<noteq> pre \<and> \<not> has_prefix path (pre @ ''/'')
      then tree_loop_steps dirByPath readable tags pre aclsByConfig cs configs
      else
        (let config = config_of_select (aclsByConfig (cr_id (sel_row c))) c
         in if \<not> Config_Allows config tags Acl_READ
            then tree_loop_steps dirByPath readable tags pre aclsByConfig cs configs
            else if path \<noteq> [] \<and> path \<noteq> ''/'' \<and> path \<notin> dirByPath
            then Inl (MissingDirectory path (Config_FullPath config))
            else if \<not> readable path
            then tree_loop_steps dirByPath readable tags pre aclsByConfig cs configs
            else tree_loop_steps dirByPath readable tags pre aclsByConfig cs (configs @ [config])))"

text \<open>Four queries: directories, their entries, configs, their entries.\<close>

definition TreeForACLTags_steps :: "string list \<Rightarrow> string \<Rightarrow> (db, store_error + directory) proc" where
  "TreeForACLTags_steps tags pre =
     pbind allDirectoriesWithACLs_steps (\<lambda>allDirs.
     let dirByPath = set (map Directory_FullPath allDirs);
         readable = readableDirectories allDirs tags
     in pbind (querier (\<lambda>s. map (select_config s) (tree_rows s pre))) (\<lambda>cs.
        pbind (loadACLs_steps Config_acl (map (\<lambda>c. cr_id (sel_row c)) cs)) (\<lambda>aclsByConfig.
          Done (case tree_loop_steps dirByPath readable tags pre aclsByConfig cs [] of
                  Inl e \<Rightarrow> Inl e
                | Inr configs \<Rightarrow>
                    (let includeDirs = filter (\<lambda>d. readable (Directory_FullPath d)) allDirs
                     in case populateDirectory (Suc (length allDirs)) tree_root includeDirs configs of
                          None \<Rightarrow> Inl NotReturning
                        | Some treeRoot \<Rightarrow> Inr treeRoot)))))"

text \<open>Undisturbed, each read is the read of one database.\<close>

lemma loadACLs_alone [proc_simps]:
  "run_alone (loadACLs_steps tbl ids) s = (loadACLs tbl s ids, s)" "run_alone (aclsForOwner_steps tbl i) s = (aclsForOwner tbl s i, s)"
  by (simp_all add: loadACLs_steps_def aclsForOwner_steps_def aclsForOwner_def proc_simps) (simp add: loadACLs_def)

lemma directories_alone [proc_simps]:
  "run_alone (getDirectoriesByPathString_steps ts) s = (getDirectoriesByPathString s ts, s)"
  "run_alone (DirectoryChain_steps p) s = (DirectoryChain s p, s)"
  "run_alone (GetDirectoryByID_steps i) s = (GetDirectoryByID s i, s)"
  "run_alone allDirectoriesWithACLs_steps s = (allDirectoriesWithACLs s, s)"
proof -
  show g: "run_alone (getDirectoriesByPathString_steps ts) s = (getDirectoriesByPathString s ts, s)" for ts
    by (simp add: getDirectoriesByPathString_steps_def getDirectoriesByPathString_def Let_def proc_simps)
  show "run_alone (DirectoryChain_steps p) s = (DirectoryChain s p, s)"
    by (simp add: DirectoryChain_steps_def DirectoryChain_def g)
  show "run_alone (GetDirectoryByID_steps i) s = (GetDirectoryByID s i, s)"
    by (simp add: GetDirectoryByID_steps_def GetDirectoryByID_def proc_simps split: option.split)
  show "run_alone allDirectoriesWithACLs_steps s = (allDirectoriesWithACLs s, s)"
    by (simp add: allDirectoriesWithACLs_steps_def allDirectoriesWithACLs_def Let_def proc_simps)
qed

lemma configs_alone [proc_simps]: "run_alone (GetConfigByID_steps i b v) s = (GetConfigByID s i b v, s)"
proof -
  have "run_alone (load_content_steps n r v c) s = (load_content s n r v c, s)" for n r c
    by (auto simp: load_content_steps_def load_content_def proc_simps split: option.split sum.split)
  then show ?thesis
    by (simp add: GetConfigByID_steps_def GetConfigByID_def Let_def proc_simps split: option.split)
qed

lemma tree_loop_select: "tree_loop_steps D R tags pre A (map (select_config s) cs) configs = tree_loop s D R tags pre A cs configs"
proof (induction cs arbitrary: configs)
  case (Cons c cs)
  show ?case unfolding list.map tree_loop_steps.simps tree_loop.simps Let_def config_of_select_row Cons.IH by (rule refl)
qed simp

lemma tree_alone [proc_simps]: "run_alone (TreeForACLTags_steps tags pre) s = (TreeForACLTags s tags pre, s)"
  by (simp add: TreeForACLTags_steps_def TreeForACLTags_def Let_def proc_simps tree_loop_select comp_def)

end
