(* ===== verification/ApiRequests.thy ===== *)
theory ApiRequests
  imports ApiSteps
begin

text \<open>
  The gates and the eight handlers of \<open>internal/api/server.go\<close> as processes over the store's
  statements: every check and early return in the order of the source, each call of the store at
  the place where it is made.  A request that nothing disturbs is the handler of \<open>Api\<close>.
\<close>

section \<open>The gates\<close>

definition pathReadable_steps :: "string \<Rightarrow> string list \<Rightarrow> (db, bool) proc" where
  "pathReadable_steps path tags =
     (if path = [] \<or> path = ''/'' then Done True
      else pbind (DirectoryChain_steps path) (\<lambda>(chain, missing).
             if 0 < length missing then Done False
             else Done (list_all (\<lambda>d. Directory_Allows (Some d) tags Acl_READ) chain)))"

definition containingDirectory_steps :: "string \<Rightarrow> (db, directory option \<times> bool) proc" where
  "containingDirectory_steps path =
     (if path = [] \<or> path = ''/'' then Done (None, True)
      else pbind (DirectoryChain_steps path) (\<lambda>(chain, missing).
             if path \<in> set missing then Done (None, False)
             else (case find (\<lambda>d. Directory_FullPath d = path) chain of
                     Some d \<Rightarrow> Done (Some d, True)
                   | None \<Rightarrow> Done (None, False))))"

definition directoryWritable_steps :: "directory \<Rightarrow> string list \<Rightarrow> (db, bool) proc" where
  "directoryWritable_steps dir tags =
     pbind (pathReadable_steps (d_path dir) tags) (\<lambda>readable.
       if \<not> readable then Done False
       else Done (Directory_Allows (Some dir) tags Acl_WRITE))"

section \<open>The handlers\<close>

definition List_steps :: "string list \<Rightarrow> string \<Rightarrow> (db, api_error + directory option) proc" where
  "List_steps tags directoryId =
     pbind (if directoryId \<noteq> []
            then pbind (GetDirectoryByID_steps directoryId) (\<lambda>res. case res of
                    Inl e \<Rightarrow> Done (Inl (store_failure Internal e))
                  | Inr None \<Rightarrow> Done (Inl (Status NotFound None))
                  | Inr (Some d) \<Rightarrow> Done (Inr (Some d)))
            else Done (Inr None)) (\<lambda>found. case found of
       Inl e \<Rightarrow> Done (Inl e)
     | Inr directory \<Rightarrow>
         pbind (TreeForACLTags_steps tags (case directory of None \<Rightarrow> [] | Some d \<Rightarrow> Directory_FullPath d)) (\<lambda>res. case res of
             Inl e \<Rightarrow> Done (Inl (store_failure Internal e))
           | Inr dir \<Rightarrow>
               Done (Inr (case directory of
                      None \<Rightarrow> Some dir
                    | Some d \<Rightarrow> findDirectory (d_id d) dir))))"

definition GetConfig_steps :: "string list \<Rightarrow> string \<Rightarrow> string option \<Rightarrow> (db, api_error + config) proc" where
  "GetConfig_steps tags i version =
     (if i = [] then Done (Inl (Status InvalidArgument None))
      else pbind (GetConfigByID_steps i True (case version of None \<Rightarrow> [] | Some v \<Rightarrow> v)) (\<lambda>res. case res of
             Inl e \<Rightarrow> Done (Inl (store_failure Internal e))
           | Inr None \<Rightarrow> Done (Inl (Status NotFound None))
           | Inr (Some conf) \<Rightarrow>
               if \<not> Config_Allows conf tags Acl_READ then Done (Inl (Status PermissionDenied None))
               else pbind (pathReadable_steps (c_path conf) tags) (\<lambda>readable.
                 if \<not> readable then Done (Inl (Status PermissionDenied None))
                 else Done (Inr conf))))"

definition set_config_checks_steps :: "string list \<Rightarrow> string list \<Rightarrow> config \<Rightarrow> (db, api_error + unit) proc" where
  "set_config_checks_steps allowed tags conf =
     pbind (if c_id conf \<noteq> []
            then pbind (GetConfigByID_steps (c_id conf) False []) (\<lambda>res. case res of
                    Inl e \<Rightarrow> Done (Inl (store_failure Internal e))
                  | Inr None \<Rightarrow> Done (Inl (Status NotFound None))
                  | Inr (Some existing) \<Rightarrow>
                      if \<not> Config_Allows existing tags Acl_WRITE then Done (Inl (Status PermissionDenied None))
                      else Done (Inr ()))
            else if \<not> canCreate allowed tags then Done (Inl (Status PermissionDenied None))
            else Done (Inr ())) (\<lambda>checked. case checked of
       Inl e \<Rightarrow> Done (Inl e)
     | Inr _ \<Rightarrow>
         pbind (containingDirectory_steps (c_path conf)) (\<lambda>(containing, exists).
             if \<not> exists then Done (Inl (Status FailedPrecondition None))
             else if \<not> Directory_Allows containing tags Acl_WRITE then Done (Inl (Status PermissionDenied None))
             else Done (Inr ())))"

definition SetConfig_steps :: "string list \<Rightarrow> string list \<Rightarrow> config option \<Rightarrow> int \<Rightarrow> (db, api_error + config option) proc" where
  "SetConfig_steps allowed tags reqConfig now =
     (case reqConfig of
        None \<Rightarrow> Done (Inl (Status InvalidArgument None))
      | Some conf \<Rightarrow>
          pbind (set_config_checks_steps allowed tags conf) (\<lambda>checked. case checked of
             Inl e \<Rightarrow> Done (Inl e)
           | Inr _ \<Rightarrow> pbind (transaction (Upsert conf now)) (\<lambda>res. case res of
                  Inl e \<Rightarrow> Done (Inl (store_failure Internal e))
                | Inr storedConfig \<Rightarrow> Done (Inr storedConfig))))"

definition DeleteConfig_steps :: "string list \<Rightarrow> string \<Rightarrow> (db, api_error + unit) proc" where
  "DeleteConfig_steps tags i =
     (if i = [] then Done (Inl (Status InvalidArgument None))
      else pbind (GetConfigByID_steps i False []) (\<lambda>res. case res of
             Inl e \<Rightarrow> Done (Inl (store_failure Internal e))
           | Inr None \<Rightarrow> Done (Inl (Status NotFound None))
           | Inr (Some existing) \<Rightarrow>
               if \<not> Config_Allows existing tags Acl_WRITE then Done (Inl (Status PermissionDenied None))
               else pbind (transaction (Delete i)) (\<lambda>res. case res of
                       Inl e \<Rightarrow> Done (Inl (store_failure Internal e))
                     | Inr _ \<Rightarrow> Done (Inr ()))))"

definition CreateDirectory_steps ::
    "(string \<Rightarrow> string) \<Rightarrow> string list \<Rightarrow> string list \<Rightarrow> directory option \<Rightarrow> (db, api_error + directory option) proc" where
  "CreateDirectory_steps q allowed tags reqDir =
     (case reqDir of
        None \<Rightarrow> Done (Inl (Status InvalidArgument None))
      | Some dir \<Rightarrow>
          if trim_space (d_name dir) = [] then Done (Inl (Status InvalidArgument None))
          else if \<not> canCreate allowed tags then Done (Inl (Status PermissionDenied None))
          else pbind (if d_path dir \<noteq> [] \<and> d_path dir \<noteq> ''/''
                      then pbind (DirectoryChain_steps (d_path dir)) (\<lambda>(chain, missing).
                             Done (Directory_Allows (deepestExistingAncestor chain) tags Acl_WRITE))
                      else Done True) (\<lambda>permitted.
            if \<not> permitted then Done (Inl (Status PermissionDenied None))
            else pbind (transaction (CreateDirectory dir)) (\<lambda>res. case res of
                  Inl e \<Rightarrow> Done (Inl (store_failure
                       (if contains_str (error_text q e) ''already exists'' then AlreadyExists else Internal) e))
                | Inr created \<Rightarrow> Done (Inr created))))"

definition GetDirectory_steps :: "string list \<Rightarrow> string \<Rightarrow> (db, api_error + directory) proc" where
  "GetDirectory_steps tags i =
     (if i = [] then Done (Inl (Status InvalidArgument None))
      else pbind (GetDirectoryByID_steps i) (\<lambda>res. case res of
             Inl e \<Rightarrow> Done (Inl (store_failure Internal e))
           | Inr None \<Rightarrow> Done (Inl (Status NotFound None))
           | Inr (Some dir) \<Rightarrow> pbind (pathReadable_steps (Directory_FullPath dir) tags) (\<lambda>readable.
               if \<not> readable then Done (Inl (Status PermissionDenied None))
               else Done (Inr dir))))"

definition UpdateDirectory_steps ::
    "(string \<Rightarrow> string) \<Rightarrow> string list \<Rightarrow> directory option \<Rightarrow> (db, api_error + directory option) proc" where
  "UpdateDirectory_steps q tags reqDir =
     (case reqDir of
        None \<Rightarrow> Done (Inl (Status InvalidArgument None))
      | Some dir \<Rightarrow>
          if d_id dir = [] then Done (Inl (Status InvalidArgument None))
          else pbind (GetDirectoryByID_steps (d_id dir)) (\<lambda>res. case res of
                 Inl e \<Rightarrow> Done (Inl (store_failure Internal e))
               | Inr None \<Rightarrow> Done (Inl (Status NotFound None))
               | Inr (Some existing) \<Rightarrow> pbind (directoryWritable_steps existing tags) (\<lambda>writable.
                   if \<not> writable then Done (Inl (Status PermissionDenied None))
                   else pbind (transaction (UpdateDirectory dir)) (\<lambda>res. case res of
                           Inl e \<Rightarrow> Done (Inl (store_failure
                                (if contains_str (error_text q e) ''does not match'' then InvalidArgument else Internal) e))
                         | Inr updated \<Rightarrow> Done (Inr updated)))))"

definition DeleteDirectory_steps ::
    "(string \<Rightarrow> string) \<Rightarrow> string list \<Rightarrow> string \<Rightarrow> (db, api_error + unit) proc" where
  "DeleteDirectory_steps q tags i =
     (if i = [] then Done (Inl (Status InvalidArgument None))
      else pbind (GetDirectoryByID_steps i) (\<lambda>res. case res of
             Inl e \<Rightarrow> Done (Inl (store_failure Internal e))
           | Inr None \<Rightarrow> Done (Inl (Status NotFound None))
           | Inr (Some existing) \<Rightarrow> pbind (directoryWritable_steps existing tags) (\<lambda>writable.
               if \<not> writable then Done (Inl (Status PermissionDenied None))
               else pbind (transaction (DeleteDirectory i)) (\<lambda>res. case res of
                       Inl e \<Rightarrow> Done (Inl (store_failure
                            (if contains_str (error_text q e) ''not empty'' then FailedPrecondition else Internal) e))
                     | Inr _ \<Rightarrow> Done (Inr ())))))"

definition answer :: "('a \<Rightarrow> response) \<Rightarrow> (db, api_error + 'a) proc \<Rightarrow> (db, api_error + response) proc" where
  "answer f p = pbind p (\<lambda>r. Done (map_sum id f r))"

fun request_steps :: "(string \<Rightarrow> string) \<Rightarrow> string list \<Rightarrow> string list \<Rightarrow> int \<Rightarrow> request \<Rightarrow> (db, api_error + response) proc" where
  "request_steps q allowed tags now (ListRequest i) = answer ListResponse (List_steps tags i)"
| "request_steps q allowed tags now (GetConfigRequest i v) = answer ConfigResponse (GetConfig_steps tags i v)"
| "request_steps q allowed tags now (SetConfigRequest c) = answer SetConfigResponse (SetConfig_steps allowed tags c now)"
| "request_steps q allowed tags now (DeleteConfigRequest i) = answer (\<lambda>_. EmptyResponse) (DeleteConfig_steps tags i)"
| "request_steps q allowed tags now (CreateDirectoryRequest d) =
     answer DirectoryResponse (CreateDirectory_steps q allowed tags d)"
| "request_steps q allowed tags now (GetDirectoryRequest i) = answer (\<lambda>d. DirectoryResponse (Some d)) (GetDirectory_steps tags i)"
| "request_steps q allowed tags now (UpdateDirectoryRequest d) =
     answer DirectoryResponse (UpdateDirectory_steps q tags d)"
| "request_steps q allowed tags now (DeleteDirectoryRequest i) =
     answer (\<lambda>_. EmptyResponse) (DeleteDirectory_steps q tags i)"

section \<open>A request that nothing disturbs\<close>

lemma gates_alone [proc_simps]:
  "run_alone (pathReadable_steps p tags) s = (pathReadable s p tags, s)"
  "run_alone (containingDirectory_steps p) s = (containingDirectory s p, s)"
  "run_alone (directoryWritable_steps d tags) s = (directoryWritable s d tags, s)"
  by (auto simp: pathReadable_steps_def pathReadable_def containingDirectory_steps_def containingDirectory_def
      directoryWritable_steps_def directoryWritable_def proc_simps split: prod.split option.split)

lemma read_handlers_alone [proc_simps]:
  "run_alone (List_steps tags i) s = (List_tree s tags i, s)"
  "run_alone (GetConfig_steps tags i v) s = (GetConfig s tags i v, s)"
  "run_alone (GetDirectory_steps tags i) s = (GetDirectory s tags i, s)"
  by (auto simp: List_steps_def List_tree_def GetConfig_steps_def GetConfig_def GetDirectory_steps_def GetDirectory_def proc_simps
      split: option.split sum.split)

lemma set_config_checks_alone [proc_simps]:
  "run_alone (set_config_checks_steps allowed tags c) s = (set_config_checks allowed s tags c, s)"
  by (auto simp: set_config_checks_steps_def set_config_checks_def proc_simps split: option.split sum.split prod.split)

lemma config_handlers_alone [proc_simps]:
  "run_alone (SetConfig_steps allowed tags c now) s = SetConfig allowed tags c now s"
  "run_alone (DeleteConfig_steps tags i) s = DeleteConfig tags i s"
  by (auto simp: SetConfig_steps_def SetConfig_def DeleteConfig_steps_def DeleteConfig_def proc_simps
      split: option.split sum.split prod.split)

lemma directory_handlers_alone [proc_simps]:
  "run_alone (CreateDirectory_steps q allowed tags d) s = CreateDirectory_handler q allowed tags d s"
  "run_alone (UpdateDirectory_steps q tags d) s = UpdateDirectory_handler q tags d s"
  "run_alone (DeleteDirectory_steps q tags i) s = DeleteDirectory_handler q tags i s"
  by (auto simp: CreateDirectory_steps_def CreateDirectory_handler_def UpdateDirectory_steps_def UpdateDirectory_handler_def
      DeleteDirectory_steps_def DeleteDirectory_handler_def proc_simps split: option.split sum.split prod.split)

lemma answer_alone [proc_simps]: "run_alone (answer f p) s = respond f (run_alone p s)"
  by (simp add: answer_def respond_def proc_simps split: prod.split sum.split)


end
