(* ===== verification/ApiInterleaved.thy ===== *)
theory ApiInterleaved
  imports ApiRequests
begin

text \<open>
  Requests in flight together: the server is the database and the processes of the requests that
  arrived, and any of them may take the next step.  Whatever the order, every database is
  well-formed, stored versions last, and every request ends after a few steps of its own.
\<close>

section \<open>What a request does along the way\<close>

lemma within_bindI: "within p n \<Longrightarrow> (\<And>a. within (g a) m) \<Longrightarrow> n + m \<le> k \<Longrightarrow> within (pbind p g) k"
  using within_pbind [of p n g m] within_mono by blast

lemma reads_within:
  "within (loadACLs_steps tbl ids) 1" "within (aclsForOwner_steps tbl i) 1"
  "within (getDirectoriesByPathString_steps ts) 2" "within (DirectoryChain_steps path) 2"
  "within (GetDirectoryByID_steps j) 2" "within allDirectoriesWithACLs_steps 2"
  "within (load_content_steps n r v c) 1" "within (GetConfigByID_steps j b v) 3"
  "within (TreeForACLTags_steps tags pre) 4"
proof -
  show l: "within (loadACLs_steps tbl ids) 1" for tbl ids by (simp add: loadACLs_steps_def within_basic [unfolded One_nat_def])
  show a: "within (aclsForOwner_steps tbl i) 1" for tbl i
    unfolding aclsForOwner_steps_def by (rule within_bindI [OF l, where m = 0]) simp_all
  show g: "within (getDirectoriesByPathString_steps ts) 2" for ts
    unfolding getDirectoriesByPathString_steps_def Let_def
    by (simp, intro impI within_bindI [OF within_basic(1), where m = 1] within_bindI [OF l, where m = 0]) simp_all
  show "within (DirectoryChain_steps path) 2" by (simp add: DirectoryChain_steps_def g)
  show "within (GetDirectoryByID_steps j) 2"
    unfolding GetDirectoryByID_steps_def
    by (auto split: option.split intro!: within_bindI [OF within_basic(1), where m = 1] within_bindI [OF a, where m = 0])
  show d: "within allDirectoriesWithACLs_steps 2"
    unfolding allDirectoriesWithACLs_steps_def
    by (intro within_bindI [OF within_basic(1), where m = 1] within_bindI [OF l, where m = 0]) simp_all
  show c: "within (load_content_steps n r v c) 1" for n r c
    unfolding load_content_steps_def
    by (auto split: option.split sum.split intro!: within_bindI [OF within_basic(1), where m = 0])
  show "within (GetConfigByID_steps j b v) 3"
    unfolding GetConfigByID_steps_def Let_def
    by (auto split: option.split intro!: within_bindI [OF within_basic(1), where m = 2] within_bindI [OF a, where m = 1] c [unfolded One_nat_def])
  show "within (TreeForACLTags_steps tags pre) 4"
    unfolding TreeForACLTags_steps_def Let_def
    by (intro within_bindI [OF d, where m = 2] within_bindI [OF within_basic(1), where m = 1] within_bindI [OF l, where m = 0]) simp_all
qed

lemma gates_within:
  "within (pathReadable_steps path tags) 2" "within (containingDirectory_steps path) 2" "within (directoryWritable_steps d tags) 2"
proof -
  show r: "within (pathReadable_steps path tags) 2" for path
    unfolding pathReadable_steps_def by (auto intro!: within_bindI [OF reads_within(4), where m = 0])
  show "within (containingDirectory_steps path) 2"
    unfolding containingDirectory_steps_def by (auto split: option.split intro!: within_bindI [OF reads_within(4), where m = 0])
  show "within (directoryWritable_steps d tags) 2"
    unfolding directoryWritable_steps_def by (auto intro!: within_bindI [OF r, where m = 0])
qed

lemmas within_ends = within_bindI [OF within_basic(2), where m = 0]

lemma handlers_within:
  "within (List_steps tags i) 6" "within (GetConfig_steps tags i v) 5" "within (SetConfig_steps allowed tags c now) 6"
  "within (DeleteConfig_steps tags i) 4" "within (CreateDirectory_steps q allowed tags d) 3" "within (GetDirectory_steps tags i) 4"
  "within (UpdateDirectory_steps q tags d) 5" "within (DeleteDirectory_steps q tags i) 5"
proof -
  show "within (List_steps tags i) 6"
    unfolding List_steps_def
    by (rule within_bindI [where n = 2 and m = 4])
      (auto split: option.split sum.split intro!: within_bindI [OF reads_within(5), where m = 0] within_bindI [OF reads_within(9), where m = 0])
  show "within (GetConfig_steps tags i v) 5"
    unfolding GetConfig_steps_def
    by (auto split: option.split sum.split intro!: within_bindI [OF reads_within(8), where m = 2] within_bindI [OF gates_within(1), where m = 0])
  have "within (set_config_checks_steps allowed tags c) 5" for c
    unfolding set_config_checks_steps_def
    by (rule within_bindI [where n = 3 and m = 2])
      (auto split: option.split sum.split intro!: within_bindI [OF reads_within(8), where m = 0] within_bindI [OF gates_within(2), where m = 0])
  then show "within (SetConfig_steps allowed tags c now) 6"
    unfolding SetConfig_steps_def
    by (auto split: option.split sum.split intro!: within_bindI [where n = 5 and m = 1] within_ends)
  show "within (DeleteConfig_steps tags i) 4"
    unfolding DeleteConfig_steps_def
    by (auto split: option.split sum.split intro!: within_bindI [OF reads_within(8), where m = 1] within_ends)
  have chain: "within (pbind (DirectoryChain_steps p) (\<lambda>(chain, missing). Done (h chain))) 2" for p and h :: "directory list \<Rightarrow> bool"
    by (rule within_bindI [OF reads_within(4), where m = 0]) auto
  have checked: "within (if b then pbind (DirectoryChain_steps p) (\<lambda>(chain, missing). Done (h chain)) else Done True) 2"
    for b p and h :: "directory list \<Rightarrow> bool" by (cases b) (simp_all add: chain)
  show "within (CreateDirectory_steps q allowed tags d) 3"
  proof (cases d)
    case (Some x)
    have permitted: "within (if \<not> ok then Done (Inl (Status PermissionDenied None))
        else pbind (transaction (CreateDirectory x)) (\<lambda>res. case res of Inl e \<Rightarrow> Done (Inl (h e)) | Inr created \<Rightarrow> Done (Inr created))) 1" for ok h
      by (auto split: sum.split intro!: within_ends)
    show ?thesis unfolding CreateDirectory_steps_def Some option.case
      by (split if_split, intro conjI impI, simp, split if_split, intro conjI impI, simp, rule within_bindI [OF checked permitted], simp)
  qed (simp add: CreateDirectory_steps_def)
  show "within (GetDirectory_steps tags i) 4"
    unfolding GetDirectory_steps_def
    by (auto split: option.split sum.split intro!: within_bindI [OF reads_within(5), where m = 2] within_bindI [OF gates_within(1), where m = 0])
  show "within (UpdateDirectory_steps q tags d) 5" "within (DeleteDirectory_steps q tags i) 5"
    unfolding UpdateDirectory_steps_def DeleteDirectory_steps_def
    by (auto split: option.split sum.split
        intro!: within_bindI [OF reads_within(5), where m = 3] within_bindI [OF gates_within(3), where m = 1] within_ends)
qed

lemma request_within: "within (request_steps q allowed tags now req) 6"
proof -
  have a: "within (answer f p) 6" if "within p n" "n \<le> 6" for f :: "'a \<Rightarrow> response" and p n
    unfolding answer_def using that by (intro within_bindI [where n = n and m = 0]) simp_all
  show ?thesis by (cases req) (simp_all add: a [OF handlers_within(1)] a [OF handlers_within(2)] a [OF handlers_within(3)]
    a [OF handlers_within(4)] a [OF handlers_within(5)] a [OF handlers_within(6)] a [OF handlers_within(7)] a [OF handlers_within(8)])
qed

text \<open>The only transactions are the writes of the store.\<close>

lemma reads_write_nothing [proc_simps]:
  "writes_by W (loadACLs_steps tbl ids)" "writes_by W (aclsForOwner_steps tbl i)"
  "writes_by W (getDirectoriesByPathString_steps ts)" "writes_by W (DirectoryChain_steps path)"
  "writes_by W (GetDirectoryByID_steps j)" "writes_by W allDirectoriesWithACLs_steps"
  "writes_by W (GetConfigByID_steps j b v)" "writes_by W (TreeForACLTags_steps tags pre)"
proof -
  show l: "writes_by W (loadACLs_steps tbl ids)" for tbl ids by (simp add: loadACLs_steps_def proc_simps)
  show a: "writes_by W (aclsForOwner_steps tbl i)" for tbl i by (simp add: aclsForOwner_steps_def proc_simps l)
  show g: "writes_by W (getDirectoriesByPathString_steps ts)" for ts
    by (simp add: getDirectoriesByPathString_steps_def Let_def proc_simps l)
  show "writes_by W (DirectoryChain_steps path)" by (simp add: DirectoryChain_steps_def g)
  show "writes_by W (GetDirectoryByID_steps j)"
    by (auto simp: GetDirectoryByID_steps_def a intro!: writes_by_pbind writes_by_basic(1) split: option.split)
  show d: "writes_by W allDirectoriesWithACLs_steps"
    by (simp add: allDirectoriesWithACLs_steps_def proc_simps l)
  have "writes_by W (load_content_steps n r v c)" for n r c
    by (simp add: load_content_steps_def proc_simps split: option.split sum.split)
  then show "writes_by W (GetConfigByID_steps j b v)"
    by (auto simp: GetConfigByID_steps_def Let_def a intro!: writes_by_pbind writes_by_basic(1) split: option.split)
  show "writes_by W (TreeForACLTags_steps tags pre)"
    by (simp add: TreeForACLTags_steps_def Let_def proc_simps d l)
qed

lemma gates_write_nothing [proc_simps]:
  "writes_by W (pathReadable_steps path tags)" "writes_by W (containingDirectory_steps path)" "writes_by W (directoryWritable_steps d tags)"
  by (auto simp: pathReadable_steps_def containingDirectory_steps_def directoryWritable_steps_def
      intro!: writes_by_pbind reads_write_nothing split: option.split)

lemma transaction_writes:
  "writes_by (store_write now) (transaction (Upsert c now))" "writes_by (store_write now) (transaction (Delete i))"
  "writes_by (store_write now) (transaction (CreateDirectory d))" "writes_by (store_write now) (transaction (UpdateDirectory d))"
  "writes_by (store_write now) (transaction (DeleteDirectory i))"
proof -
  have "store_write now s (snd (Upsert c now s))" "store_write now s (snd (Delete i s))" "store_write now s (snd (CreateDirectory d s))"
    "store_write now s (snd (UpdateDirectory d s))" "store_write now s (snd (DeleteDirectory i s))" for s
    by (rule store_write.intros, rule prod.collapse [symmetric])+
  then show "writes_by (store_write now) (transaction (Upsert c now))" "writes_by (store_write now) (transaction (Delete i))"
    "writes_by (store_write now) (transaction (CreateDirectory d))" "writes_by (store_write now) (transaction (UpdateDirectory d))"
    "writes_by (store_write now) (transaction (DeleteDirectory i))"
    by (simp_all add: proc_simps)
qed

lemma request_writes: "writes_by (store_write now) (request_steps q allowed tags now req)"
proof -
  note w = writes_by_pbind reads_write_nothing gates_write_nothing transaction_writes
  have a: "writes_by (store_write now) p \<Longrightarrow> writes_by (store_write now) (answer f p)" for f :: "'a \<Rightarrow> response" and p
    by (simp add: answer_def proc_simps)
  have "writes_by (store_write now) (List_steps tags i)" "writes_by (store_write now) (GetConfig_steps tags i v)"
    "writes_by (store_write now) (GetDirectory_steps tags i)" for i v
    by (auto simp: List_steps_def GetConfig_steps_def GetDirectory_steps_def intro!: w split: option.split sum.split)
  moreover have "writes_by (store_write now) (set_config_checks_steps allowed tags c)" for c
    by (auto simp: set_config_checks_steps_def intro!: w split: option.split sum.split)
  then have "writes_by (store_write now) (SetConfig_steps allowed tags c now)" for c
    by (auto simp: SetConfig_steps_def intro!: w split: option.split sum.split)
  moreover have "writes_by (store_write now) (DeleteConfig_steps tags i)" "writes_by (store_write now) (DeleteDirectory_steps q tags i)"
    "writes_by (store_write now) (CreateDirectory_steps q allowed tags d)" "writes_by (store_write now) (UpdateDirectory_steps q tags d)" for i d
    by (auto simp: DeleteConfig_steps_def CreateDirectory_steps_def UpdateDirectory_steps_def DeleteDirectory_steps_def
        intro!: w split: option.split sum.split)
  ultimately show ?thesis by (cases req) (simp_all add: a)
qed

section \<open>The server with requests in flight\<close>

type_synonym flight = "db \<times> (db, api_error + response) proc list"

inductive server_step :: "(string \<Rightarrow> string) \<Rightarrow> string list \<Rightarrow> flight \<Rightarrow> flight \<Rightarrow> bool"
  for q :: "string \<Rightarrow> string" and allowed :: "string list" where
  arrive: "server_step q allowed (s, ps) (s, ps @ [request_steps q allowed tags now req])"
| query: "j < length ps \<Longrightarrow> ps ! j = Query k \<Longrightarrow> server_step q allowed (s, ps) (s, ps[j := k s])"
| tx: "j < length ps \<Longrightarrow> ps ! j = Tx f k \<Longrightarrow> server_step q allowed (s, ps) (f s, ps[j := k s])"

inductive_cases server_stepE: "server_step q allowed (s, ps) c"

text \<open>What holds of a server with requests in flight.\<close>

definition flight_inv :: "flight \<Rightarrow> bool" where
  "flight_inv c \<longleftrightarrow> store_inv (fst c) \<and> list_all (writes_by (\<lambda>s s'. \<exists>now. store_write now s s')) (snd c)"

lemma list_all_update: "list_all P ps \<Longrightarrow> P p \<Longrightarrow> list_all P (ps[j := p])"
  by (auto simp: list_all_iff dest: set_update_subset_insert [THEN subsetD])

lemma server_step_writes:
  assumes "server_step q allowed c c'" and "flight_inv c"
  shows "(fst c' = fst c \<or> (\<exists>now. store_write now (fst c) (fst c'))) \<and> flight_inv c'"
proof -
  obtain s ps where c: "c = (s, ps)" by (cases c)
  let ?W = "\<lambda>s s'. \<exists>now. store_write now s s'"
  have all: "list_all (writes_by ?W) ps" and inv: "store_inv s" using assms(2) by (simp_all add: flight_inv_def c)
  from assms(1) [unfolded c] show ?thesis
  proof (rule server_stepE)
    fix tags now req assume c': "c' = (s, ps @ [request_steps q allowed tags now req])"
    have "writes_by ?W (request_steps q allowed tags now req)" using request_writes by (rule writes_by_mono) blast
    with all inv show ?thesis by (simp add: c c' flight_inv_def)
  next
    fix j k assume c': "c' = (s, ps[j := k s])" and p: "j < length ps" "ps ! j = Query k"
    have "writes_by ?W (Query k)" using all p by (metis list_all_length)
    with all inv show ?thesis by (simp add: c c' flight_inv_def list_all_update)
  next
    fix j f k assume c': "c' = (f s, ps[j := k s])" and p: "j < length ps" "ps ! j = Tx f k"
    have w: "writes_by ?W (Tx f k)" using all p by (metis list_all_length)
    then obtain now where n: "store_write now s (f s)" by auto
    have "store_inv (f s)" by (rule store_write_inv [OF n inv])
    moreover have "list_all (writes_by ?W) (ps[j := k s])" using all w by (simp add: list_all_update)
    ultimately show ?thesis using n by (auto simp: c c' flight_inv_def)
  qed
qed

text \<open>The contract of a step relation, kept by the server with any requests in flight.\<close>

interpretation flights: guarded_steps "server_step q allowed" flight_inv "\<lambda>c c'. keeps_history (fst c) (fst c')" for q allowed
proof (unfold_locales, goal_cases)
  case (1 c c')
  then show ?case using server_step_writes by blast
next
  case (2 c c')
  then have "fst c' = fst c \<or> (\<exists>now. store_write now (fst c) (fst c'))" using server_step_writes by blast
  moreover have "store_inv (fst c)" using 2(1) by (simp add: flight_inv_def)
  ultimately show ?case using store_write_history keeps_history_refl by metis
next
  case (3 c)
  show ?case by (rule keeps_history_refl)
next
  case (4 c d e)
  then show ?case by (intro keeps_history_trans [of "fst c" "fst d" "fst e"]) (simp_all add: flight_inv_def)
qed

lemma requests_in_flight:
  assumes "store_inv s" and "list_all (\<lambda>p. \<exists>tags now req. p = request_steps q allowed tags now req) ps"
  shows "flight_inv (s, ps)"
proof -
  have "writes_by (\<lambda>s s'. \<exists>now. store_write now s s') (request_steps q allowed tags now req)" for tags now req
    using request_writes by (rule writes_by_mono) blast
  then have "list_all (writes_by (\<lambda>s s'. \<exists>now. store_write now s s')) ps" using assms(2) by (auto simp: list_all_iff)
  with assms(1) show ?thesis by (simp add: flight_inv_def)
qed

lemma request_in_flight: "store_inv s \<Longrightarrow> flight_inv (s, [request_steps q allowed tags now req])"
  by (rule requests_in_flight) (simp_all, blast)

section \<open>Schedules\<close>

text \<open>Who does what when: requests arrive and take their next step, in any order.\<close>

datatype event = Arrive "string list" int request | Run nat

fun play_event :: "(string \<Rightarrow> string) \<Rightarrow> string list \<Rightarrow> event \<Rightarrow> flight \<Rightarrow> flight" where
  "play_event q allowed (Arrive tags now req) (s, ps) = (s, ps @ [request_steps q allowed tags now req])"
| "play_event q allowed (Run j) (s, ps) =
     (if j < length ps
      then (case ps ! j of Done r \<Rightarrow> (s, ps) | Query k \<Rightarrow> (s, ps[j := k s]) | Tx f k \<Rightarrow> (f s, ps[j := k s]))
      else (s, ps))"

primrec play :: "(string \<Rightarrow> string) \<Rightarrow> string list \<Rightarrow> event list \<Rightarrow> flight \<Rightarrow> flight" where
  "play q allowed [] c = c"
| "play q allowed (e # es) c = play q allowed es (play_event q allowed e c)"

text \<open>Every change of the database on the way is of the given kind.\<close>

definition step_within :: "(db \<Rightarrow> db \<Rightarrow> bool) \<Rightarrow> (string \<Rightarrow> string) \<Rightarrow> string list \<Rightarrow> flight \<Rightarrow> flight \<Rightarrow> bool" where
  "step_within R q allowed c c' \<longleftrightarrow> server_step q allowed c c' \<and> R (fst c) (fst c')"

primrec stays :: "(db \<Rightarrow> db \<Rightarrow> bool) \<Rightarrow> (string \<Rightarrow> string) \<Rightarrow> string list \<Rightarrow> event list \<Rightarrow> flight \<Rightarrow> bool" where
  "stays R q allowed [] c = True"
| "stays R q allowed (e # es) c = (R (fst c) (fst (play_event q allowed e c)) \<and> stays R q allowed es (play_event q allowed e c))"

lemma play_event_step: "play_event q allowed e c = c \<or> server_step q allowed c (play_event q allowed e c)"
proof -
  obtain s ps where c: "c = (s, ps)" by (cases c)
  show ?thesis
  proof (cases e)
    case (Arrive tags now req)
    then show ?thesis by (simp add: c server_step.arrive)
  next
    case (Run j)
    then show ?thesis unfolding c
      by (cases "ps ! j") (auto intro: server_step.query server_step.tx)
  qed
qed

lemma play_steps: "(server_step q allowed)\<^sup>*\<^sup>* c (play q allowed es c)"
proof (induction es arbitrary: c)
  case (Cons e es)
  from play_event_step [of q allowed e c] show ?case
  proof
    assume "server_step q allowed c (play_event q allowed e c)"
    then show ?thesis using Cons [of "play_event q allowed e c"] by (simp add: converse_rtranclp_into_rtranclp)
  qed (use Cons in simp)
qed simp

lemma play_stays: "stays R q allowed es c \<Longrightarrow> (step_within R q allowed)\<^sup>*\<^sup>* c (play q allowed es c)"
proof (induction es arbitrary: c)
  case (Cons e es)
  then have rest: "(step_within R q allowed)\<^sup>*\<^sup>* (play_event q allowed e c) (play q allowed (e # es) c)" by simp
  from play_event_step [of q allowed e c] show ?case
  proof
    assume "server_step q allowed c (play_event q allowed e c)"
    then have "step_within R q allowed c (play_event q allowed e c)" using Cons.prems by (simp add: step_within_def)
    with rest show ?thesis by (simp add: converse_rtranclp_into_rtranclp)
  qed (use rest in simp)
qed simp

section \<open>What holds in every order\<close>

text \<open>
  C11: However the statements and transactions of any number of requests interleave, from the empty
  database the server only ever reaches well-formed ones: paths canonical, ancestors present, keys
  unique, every config in an existing directory with its current version stored, no orphaned ACL
  or content row.
\<close>

theorem interleaved_inv:
  assumes "(server_step q allowed)\<^sup>*\<^sup>* (empty_db, []) (s, ps)"
  shows "store_inv s"
  using flights.run_inv [OF assms requests_in_flight [OF store_inv_empty]] by (simp add: flight_inv_def)

text \<open>Two creations of a config of one name that overlap: both checks pass, one write succeeds.\<close>

theorem interleaved_inv_witness:
  "\<exists>s ps. (server_step (\<lambda>x. x) [])\<^sup>*\<^sup>* (empty_db, []) (s, ps) \<and> store_inv s \<and> length ps = 2 \<and> length (config_table s) = 1"
proof -
  let ?new = "SetConfigRequest (Some (sample_config\<lparr>c_path := ''/''\<rparr>))"
  let ?c = "play (\<lambda>x. x) [] [Arrive [] 1 ?new, Arrive [] 2 ?new, Run 1, Run 0] (empty_db, [])"
  have run: "(server_step (\<lambda>x. x) [])\<^sup>*\<^sup>* (empty_db, []) (fst ?c, snd ?c)" unfolding prod.collapse by (rule play_steps)
  have "length (snd ?c) = 2 \<and> length (config_table (fst ?c)) = 1" by code_simp
  with run interleaved_inv [OF run] show ?thesis by blast
qed



text \<open>A request only has fewer steps to go, and each of its own takes one off.\<close>

lemma play_event_within:
  "j < length (snd c) \<Longrightarrow> within (snd c ! j) n \<Longrightarrow>
     j < length (snd (play_event q allowed e c)) \<and> within (snd (play_event q allowed e c) ! j) (if e = Run j then n - 1 else n)"
  by (cases c; cases e) (auto simp: nth_append nth_list_update split: proc.split)

lemma play_within:
  "j < length (snd c) \<Longrightarrow> within (snd c ! j) n \<Longrightarrow>
     j < length (snd (play q allowed es c)) \<and> within (snd (play q allowed es c) ! j) (n - count_list es (Run j))"
proof (induction es arbitrary: c n)
  case (Cons e es)
  note one = play_event_within [OF Cons.prems, of q allowed e]
  from Cons.IH [OF one [THEN conjunct1] one [THEN conjunct2]] show ?case by (cases "e = Run j") simp_all
qed simp

lemma within_zero: "within p 0 \<Longrightarrow> \<exists>r. p = Done r"
  by (cases p) simp_all

lemma steps_within:
  assumes "(server_step q allowed)\<^sup>*\<^sup>* (s, []) (t, ps)"
  shows "list_all (\<lambda>p. within p 6) ps"
  using assms
proof (induction "(t, ps)" arbitrary: t ps rule: rtranclp_induct)
  case (step c)
  obtain u qs where c: "c = (u, qs)" by (cases c)
  have all: "list_all (\<lambda>p. within p 6) qs" using step(3) [OF c] .
  from step(2) [unfolded c] show ?case
  proof (rule server_stepE)
    fix tags now req assume "(t, ps) = (u, qs @ [request_steps q allowed tags now req])"
    then show ?thesis using all request_within by simp
  next
    fix j k assume n: "(t, ps) = (u, qs[j := k u])" "j < length qs" "qs ! j = Query k"
    then have "within (Query k) 6" using all by (metis list_all_length)
    then have "within (k u) 6" using within_mono [of "k u" 5 6] by simp
    with n all show ?thesis by (simp add: list_all_update)
  next
    fix j f k assume n: "(t, ps) = (f u, qs[j := k u])" "j < length qs" "qs ! j = Tx f k"
    then have "within (Tx f k) 6" using all by (metis list_all_length)
    then have "within (k u) 6" using within_mono [of "k u" 5 6] by simp
    with n all show ?thesis by (simp add: list_all_update)
  qed
qed simp



end
