(* ===== verification/ApiInterference.thy ===== *)
theory ApiInterference
  imports ApiInterleaved
begin

text \<open>
  One request among others: an execution alternates the steps of a process with what others do to
  the database in between, constrained by a relation.  Every request of the server is such an
  execution.  The chain of directories read in two queries, as far as no directory is deleted.
\<close>

section \<open>Executions under interference\<close>

text \<open>The states the process steps on, its result and the database it leaves.\<close>

inductive execution :: "('s \<Rightarrow> 's \<Rightarrow> bool) \<Rightarrow> ('s, 'r) proc \<Rightarrow> 's \<Rightarrow> 's list \<Rightarrow> 'r \<Rightarrow> 's \<Rightarrow> bool"
  for R :: "'s \<Rightarrow> 's \<Rightarrow> bool" where
  finished: "execution R (Done r) s [] r s"
| query: "R s t \<Longrightarrow> execution R (k t) t tr r u \<Longrightarrow> execution R (Query k) s (t # tr) r u"
| tx: "R s t \<Longrightarrow> execution R (k t) (f t) tr r u \<Longrightarrow> execution R (Tx f k) s (t # tr) r u"

inductive_simps execution_Done [simp]: "execution R (Done r) s tr a u"
inductive_simps execution_Query: "execution R (Query k) s tr a u"
inductive_simps execution_Tx: "execution R (Tx f k) s tr a u"

lemma execution_pbind:
  "execution R (pbind p g) s tr b u \<longleftrightarrow>
     (\<exists>tr1 a t tr2. execution R p s tr1 a t \<and> execution R (g a) t tr2 b u \<and> tr = tr1 @ tr2)"
proof (induction p arbitrary: s tr)
  case (Done a)
  show ?case by simp
next
  case (Query k)
  show ?case unfolding pbind.simps execution_Query Query.IH [OF rangeI] by fastforce
next
  case (Tx f k)
  show ?case unfolding pbind.simps execution_Tx Tx.IH [OF rangeI] by fastforce
qed

lemma execution_querier: "execution R (querier q) s tr a u \<longleftrightarrow> R s u \<and> tr = [u] \<and> a = q u"
  by (auto simp: querier_def execution_Query)

lemma execution_transaction:
  "execution R (transaction f) s tr a u \<longleftrightarrow> (\<exists>t. R s t \<and> tr = [t] \<and> a = fst (f t) \<and> u = snd (f t))"
  by (auto simp: transaction_def execution_Tx)

lemmas execution_simps = execution_pbind execution_querier execution_transaction

lemma execution_mono: "execution R p s tr a u \<Longrightarrow> (\<And>s t. R s t \<Longrightarrow> R' s t) \<Longrightarrow> execution R' p s tr a u"
  by (induction rule: execution.induct) (auto intro: execution.intros)

text \<open>Undisturbed execution is running alone.\<close>

lemma execution_alone: "(\<exists>tr. execution (=) p s tr a u) \<longleftrightarrow> run_alone p s = (a, u)"
proof (induction p arbitrary: s)
  case (Query k)
  then show ?case unfolding execution_Query by (auto simp: rangeI)
next
  case (Tx f k)
  then show ?case unfolding execution_Tx by (auto simp: rangeI)
qed auto

section \<open>A request of the server is an execution\<close>

text \<open>What any number of requests in flight can do to the database.\<close>

definition interference :: "db \<Rightarrow> db \<Rightarrow> bool" where
  "interference = (\<lambda>s s'. \<exists>now. store_write now s s')\<^sup>*\<^sup>*"

lemma interference_refl [simp]: "interference s s"
  by (simp add: interference_def)

lemma interference_trans: "interference s t \<Longrightarrow> interference t u \<Longrightarrow> interference s u"
  unfolding interference_def by (rule rtranclp_trans)

lemma interference_inv: "interference s t \<Longrightarrow> store_inv s \<Longrightarrow> store_inv t"
  unfolding interference_def by (induction rule: rtranclp_induct) (auto intro: store_write_inv)

lemma interference_history: "interference s t \<Longrightarrow> store_inv s \<Longrightarrow> store_inv t \<and> keeps_history s t"
  unfolding interference_def
proof (induction rule: rtranclp_induct)
  case base
  then show ?case by (simp add: keeps_history_refl)
next
  case (step t u)
  then obtain now where "store_write now t u" by blast
  then have "store_inv u" "keeps_history t u" using step store_write_inv store_write_history by blast+
  with step show ?case using keeps_history_trans by blast
qed

text \<open>The databases on the way of a run.\<close>

definition on_the_way :: "(flight \<Rightarrow> flight \<Rightarrow> bool) \<Rightarrow> flight \<Rightarrow> flight \<Rightarrow> db \<Rightarrow> bool" where
  "on_the_way step a b t \<longleftrightarrow> (\<exists>qs. step\<^sup>*\<^sup>* a (t, qs) \<and> step\<^sup>*\<^sup>* (t, qs) b)"

lemma on_the_way_first: "step\<^sup>*\<^sup>* (s, ps) b \<Longrightarrow> on_the_way step (s, ps) b s"
  unfolding on_the_way_def by blast

lemma on_the_way_later: "step a c \<Longrightarrow> on_the_way step c b t \<Longrightarrow> on_the_way step a b t"
  unfolding on_the_way_def by (meson converse_rtranclp_into_rtranclp)

lemma on_the_way_mono: "on_the_way step a b t \<Longrightarrow> (\<And>c d. step c d \<Longrightarrow> step' c d) \<Longrightarrow> on_the_way step' a b t"
  unfolding on_the_way_def using rtranclp_mono [of step step'] by blast

lemma execution_delayed:
  assumes trans: "\<And>s t u. R s t \<Longrightarrow> R t u \<Longrightarrow> R s u" and st: "R s t" and exec: "execution R p t tr a u"
  shows "execution R p s tr a u \<or> execution R p s tr a s \<and> R s u"
proof (cases p)
  case (Done r)
  with st exec show ?thesis by auto
next
  case (Query k)
  then obtain v tr' where v: "R t v" "execution R (k v) v tr' a u" "tr = v # tr'"
    using exec by (auto simp: execution_Query)
  have "execution R p s tr a u"
    unfolding Query v(3) execution_Query using trans [OF st v(1)] v(2) by blast
  then show ?thesis by auto
next
  case (Tx f k)
  then obtain v tr' where v: "R t v" "execution R (k v) (f v) tr' a u" "tr = v # tr'"
    using exec by (auto simp: execution_Tx)
  have "execution R p s tr a u"
    unfolding Tx v(3) execution_Tx using trans [OF st v(1)] v(2) by blast
  then show ?thesis by auto
qed

lemma request_execution:
  assumes refl: "\<And>s. R s s" and trans: "\<And>s t u. R s t \<Longrightarrow> R t u \<Longrightarrow> R s u"
    and run: "(step_within R q allowed)\<^sup>*\<^sup>* (s, ps) (s', ps')" and j: "j < length ps" and fin: "ps' ! j = Done r"
  shows "\<exists>tr u. execution R (ps ! j) s tr r u \<and> R u s' \<and>
    (\<forall>t \<in> insert u (set tr). on_the_way (step_within R q allowed) (s, ps) (s', ps') t)"
  using run j
proof (induction "(s, ps)" arbitrary: s ps rule: converse_rtranclp_induct)
  case base
  then show ?case using fin refl by (intro exI [of _ "[]"] exI [of _ s']) (simp add: on_the_way_first)
next
  case (step c)
  let ?way = "on_the_way (step_within R q allowed)"
  obtain t qs where c: "c = (t, qs)" by (cases c)
  have st: "R s t" and srv: "server_step q allowed (s, ps) (t, qs)" using step(1) by (simp_all add: c step_within_def)
  have first: "?way (s, ps) (s', ps') s"
    using step(1,2) by (intro on_the_way_first) (rule converse_rtranclp_into_rtranclp)
  have later: "?way (s, ps) (s', ps') x" if "?way (t, qs) (s', ps') x" for x
    using step(1) that unfolding c by (rule on_the_way_later)
  have rest: "\<exists>tr u. execution R (qs ! j) t tr r u \<and> R u s' \<and> (\<forall>x \<in> insert u (set tr). ?way (s, ps) (s', ps') x)"
    if "j < length qs" using step(3) [OF c that] later by blast
  have others: ?case if same: "qs ! j = ps ! j" "j < length qs"
  proof -
    obtain tr u where e: "execution R (ps ! j) t tr r u" "R u s'" "\<forall>x \<in> insert u (set tr). ?way (s, ps) (s', ps') x"
      using rest same by auto
    from execution_delayed [OF trans st e(1)] show ?thesis
    proof
      assume "execution R (ps ! j) s tr r s \<and> R s u"
      with e first trans show ?thesis by (intro exI [of _ tr] exI [of _ s]) auto
    next
      assume "execution R (ps ! j) s tr r u"
      with e show ?thesis by (intro exI [of _ tr] exI [of _ u]) simp
    qed
  qed
  from srv show ?case
  proof (rule server_stepE)
    fix tags now req assume "(t, qs) = (s, ps @ [request_steps q allowed tags now req])"
    then show ?thesis using others step(4) by (simp add: nth_append)
  next
    fix i k assume n: "(t, qs) = (s, ps[i := k s])" "i < length ps" "ps ! i = Query k"
    show ?thesis
    proof (cases "i = j")
      case True
      obtain tr u where e: "execution R (k s) s tr r u" "R u s'" "\<forall>x \<in> insert u (set tr). ?way (s, ps) (s', ps') x"
        using rest step(4) n True by auto
      have "execution R (ps ! j) s (s # tr) r u" using e(1) n True refl by (auto intro: execution.query)
      with e first show ?thesis by (intro exI [of _ "s # tr"] exI [of _ u]) auto
    next
      case False
      with n show ?thesis using others step(4) by simp
    qed
  next
    fix i f k assume n: "(t, qs) = (f s, ps[i := k s])" "i < length ps" "ps ! i = Tx f k"
    show ?thesis
    proof (cases "i = j")
      case True
      obtain tr u where e: "execution R (k s) (f s) tr r u" "R u s'" "\<forall>x \<in> insert u (set tr). ?way (s, ps) (s', ps') x"
        using rest step(4) n True by auto
      have "execution R (ps ! j) s (s # tr) r u" using e(1) n True refl by (auto intro: execution.tx)
      with e first show ?thesis by (intro exI [of _ "s # tr"] exI [of _ u]) auto
    next
      case False
      with n show ?thesis using others step(4) by simp
    qed
  qed
qed

section \<open>A server that keeps its directories\<close>

text \<open>No directory is deleted.\<close>

definition keeps_directories :: "db \<Rightarrow> db \<Rightarrow> bool" where
  "keeps_directories s t \<longleftrightarrow> set (directory_table s) \<subseteq> set (directory_table t)"

definition quiet_directories :: "db \<Rightarrow> db \<Rightarrow> bool" where
  "quiet_directories s t \<longleftrightarrow> interference s t \<and> keeps_directories s t"

lemma quiet_directories_inv: "quiet_directories s t \<Longrightarrow> store_inv s \<Longrightarrow> store_inv t"
  unfolding quiet_directories_def using interference_inv by blast

lemma quiet_directories_refl [simp]: "quiet_directories s s"
  by (simp add: quiet_directories_def keeps_directories_def)

lemma quiet_directories_trans: "quiet_directories s t \<Longrightarrow> quiet_directories t u \<Longrightarrow> quiet_directories s u"
  using interference_trans [of s t u] by (auto simp: quiet_directories_def keeps_directories_def)

lemma quiet_steps:
  assumes "(step_within keeps_directories q allowed)\<^sup>*\<^sup>* a b" and "flight_inv a"
  shows "(step_within quiet_directories q allowed)\<^sup>*\<^sup>* a b \<and> flight_inv b"
  using assms(1)
proof (induction rule: rtranclp_induct)
  case base
  then show ?case using assms(2) by simp
next
  case (step b c)
  then have srv: "server_step q allowed b c" and inv: "flight_inv b" by (simp_all add: step_within_def)
  have "interference (fst b) (fst c)" "flight_inv c"
    using server_step_writes [OF srv inv] by (auto simp: interference_def)
  with step have "step_within quiet_directories q allowed b c" by (simp add: step_within_def quiet_directories_def)
  with step \<open>flight_inv c\<close> show ?case by (meson rtranclp.rtrancl_into_rtrancl)
qed

text \<open>A finished request of a server that keeps its directories, and the databases it met.\<close>

lemma quiet_request:
  assumes run: "(step_within keeps_directories q allowed)\<^sup>*\<^sup>* (s, ps) (s', ps')" and inv: "flight_inv (s, ps)"
    and j: "j < length ps" and fin: "ps' ! j = Done r"
  obtains tr u where "execution quiet_directories (ps ! j) s tr r u"
    "\<And>t. t \<in> insert u (set tr) \<Longrightarrow> on_the_way (server_step q allowed) (s, ps) (s', ps') t"
proof -
  have "(step_within quiet_directories q allowed)\<^sup>*\<^sup>* (s, ps) (s', ps')" using quiet_steps [OF run inv] by simp
  then have "\<exists>tr u. execution quiet_directories (ps ! j) s tr r u \<and> quiet_directories u s' \<and>
      (\<forall>t \<in> insert u (set tr). on_the_way (step_within quiet_directories q allowed) (s, ps) (s', ps') t)"
    by (intro request_execution [where R = quiet_directories, OF quiet_directories_refl _ _ j fin]) (rule quiet_directories_trans)
  then obtain tr u where
    e: "execution quiet_directories (ps ! j) s tr r u"
    "\<forall>t \<in> insert u (set tr). on_the_way (step_within quiet_directories q allowed) (s, ps) (s', ps') t"
    by blast
  have "on_the_way (server_step q allowed) (s, ps) (s', ps') t" if "t \<in> insert u (set tr)" for t
    by (rule on_the_way_mono [OF e(2) [rule_format, OF that]]) (simp add: step_within_def)
  with e(1) show thesis by (rule that)
qed

lemma loadACLs_execution:
  "ids \<noteq> [] \<Longrightarrow> execution R (loadACLs_steps tbl ids) s tr A u \<longleftrightarrow> R s u \<and> tr = [u] \<and> A = loadACLs tbl u ids"
  by (simp add: loadACLs_steps_def execution_querier)

lemma aclsForOwner_execution:
  "execution R (aclsForOwner_steps tbl i) s tr acls u \<longleftrightarrow> R s u \<and> tr = [u] \<and> acls = aclsForOwner tbl u i"
  by (auto simp: aclsForOwner_steps_def aclsForOwner_def execution_simps loadACLs_execution)

text \<open>
  A chain read in two queries: the directories that were there at the first, with the entries they
  had at the second.
\<close>

lemma chain_execution:
  assumes exec: "execution quiet_directories (DirectoryChain_steps path) s tr (chain, missing) u" and inv: "store_inv s"
    and path: "path \<noteq> []" "path \<noteq> ''/''"
  shows "\<exists>t w. {t, w} \<subseteq> insert u (set tr) \<and> store_inv t \<and> store_inv w \<and> quiet_directories t w \<and>
    chain = map (stored_directory w) (selected_rows t [path]) \<and> missing = (if path \<in> full_paths t then [] else [path])"
proof (cases "path_constraints path = []")
  case True
  have "u = s" "tr = []" "chain = []" "missing = [path]"
    using exec path True by (simp_all add: DirectoryChain_steps_def getDirectoriesByPathString_steps_def)
  moreover have "DirectoryChain s path = ([], [path])"
    using True path by (simp add: DirectoryChain_def getDirectoriesByPathString_def)
  ultimately show ?thesis using DirectoryChain_eq [OF inv path] inv
    by (intro exI [of _ s]) (auto simp: quiet_directories_def keeps_directories_def split: if_splits)
next
  case False
  let ?rows = "\<lambda>t. sort_key dr_path (filter (\<lambda>r. (dr_path r, dr_name r) \<in> set (path_constraints path)) (directory_table t))"
  have e: "execution quiet_directories (pbind (querier ?rows) (\<lambda>rows.
      pbind (loadACLs_steps Directory_acl (map dr_id rows)) (\<lambda>aclsByDir.
        Done (map (\<lambda>d. directory_of_row (aclsByDir (dr_id d)) d) rows,
          filter (\<lambda>p. p \<notin> set (map Directory_FullPath (map (\<lambda>d. directory_of_row (aclsByDir (dr_id d)) d) rows))) [path]))))
      s tr (chain, missing) u"
    using exec path False by (simp only: DirectoryChain_steps_def getDirectoriesByPathString_steps_def Let_def
        list.map concat.simps append_Nil2 length_0_conv if_False simp_thms)
  from e [unfolded execution_pbind execution_querier] obtain t tr2 A v tr3 where
      e1: "quiet_directories s t" "tr = [t] @ tr2"
        "execution quiet_directories (loadACLs_steps Directory_acl (map dr_id (?rows t))) t tr3 A v"
        "execution quiet_directories (Done (map (\<lambda>d. directory_of_row (A (dr_id d)) d) (?rows t),
          filter (\<lambda>p. p \<notin> set (map Directory_FullPath (map (\<lambda>d. directory_of_row (A (dr_id d)) d) (?rows t)))) [path]))
         v [] (chain, missing) u"
    by fastforce
  have uv: "v = u" and chain0: "chain = map (\<lambda>d. directory_of_row (A (dr_id d)) d) (?rows t)"
    and missing: "missing = filter (\<lambda>p. p \<notin> set (map Directory_FullPath chain)) [path]"
    using e1(4) by simp_all
  obtain w where w: "quiet_directories t w" "w \<in> insert u (set tr)"
    and chain: "chain = map (\<lambda>d. directory_of_row (loadACLs Directory_acl w (map dr_id (?rows t)) (dr_id d)) d) (?rows t)"
  proof (cases "?rows t = []")
    case True
    show thesis by (rule that [of t]) (simp_all add: e1(2) chain0 True)
  next
    case False
    then have "map dr_id (?rows t) \<noteq> []" unfolding map_is_Nil_conv .
    then have "quiet_directories t u \<and> A = loadACLs Directory_acl u (map dr_id (?rows t))"
      using e1(3) [unfolded uv] by (subst (asm) loadACLs_execution) (assumption, blast)
    then show thesis using chain0 by (intro that [of u]) simp_all
  qed
  have t: "quiet_directories s t" "t \<in> set tr" using e1(1,2) by simp_all
  have it: "store_inv t" and iw: "store_inv w" using t w inv quiet_directories_inv by blast+
  have rows: "?rows t = selected_rows t [path]"
    unfolding selected_rows_def by (intro arg_cong [where f = "sort_key dr_path"] filter_cong refl) (simp add: path_constraints_iff [OF store_inv_dirs [OF it]])
  have ch: "chain = map (stored_directory w) (selected_rows t [path])"
    unfolding chain rows by (intro map_cong refl) (simp add: stored_directory_def acls_loaded [OF store_inv_dir_acls [OF iw]])
  have "set (selected_rows t [path]) \<subseteq> set (directory_table t)" by (auto simp: selected_rows_def)
  have fp: "map Directory_FullPath chain = map Directory_FullPath (fst (DirectoryChain t path))"
    using DirectoryChain_eq [OF it path] ch by (simp add: stored_directory_def directory_of_row_def Directory_FullPath_def)
  have "snd (DirectoryChain t path) = filter (\<lambda>p. p \<notin> set (map Directory_FullPath (fst (DirectoryChain t path)))) [path]"
    using path by (simp only: DirectoryChain_def getDirectoriesByPathString_def Let_def simp_thms if_False split: if_split) auto
  then have "missing = (if path \<in> full_paths t then [] else [path])"
    using DirectoryChain_eq [OF it path] unfolding missing fp by simp
  with ch it iw t(2) w show ?thesis by blast
qed

end
