(* ===== verification/ApiQuiet.thy ===== *)
theory ApiQuiet
  imports ApiInterference ApiAuthority
begin

text \<open>
  The gates of \<open>internal/api/server.go\<close> while other requests write, as long as no directory is
  deleted under them: what a request reads in several queries is what single databases held, so a
  config is returned, and written, only to a caller whom databases of the time granted it.
\<close>

section \<open>A chain of directories\<close>

text \<open>Rows are never changed, so the chain of an existing directory stays as long as directories do.\<close>

lemma selected_rows_kept:
  assumes it: "store_inv t" and iw: "store_inv w" and keep: "keeps_directories t w" and path: "path \<in> full_paths t"
  shows "selected_rows t [path] = selected_rows w [path]"
proof -
  note okt = store_inv_dirs [OF it] and okw = store_inv_dirs [OF iw]
  obtain r0 where r0: "r0 \<in> set (directory_table t)" "path = abs_path (row_parts r0)"
    using path by (auto simp: full_paths_def)
  have parts: "clean_parts path = row_parts r0" using r0(2) good_row_parts [OF okt r0(1)] by simp
  have kept: "r \<in> set (directory_table t)" if r: "r \<in> set (directory_table w)" "prefix (row_parts r) (row_parts r0)" for r
  proof -
    obtain r1 where r1: "r1 \<in> set (directory_table t)" "row_parts r1 = row_parts r"
      using ancestors_exist [OF okt r0(1) r(2)] by fastforce
    then have "r1 = r" using keep r(1) row_parts_unique [OF okw] unfolding keeps_directories_def by blast
    with r1 show ?thesis by simp
  qed
  have sets: "set (selected_rows t [path]) = set (selected_rows w [path])"
    using kept keep by (auto simp: set_selected_rows parts keeps_directories_def)
  have inj: "inj_on dr_path (set (selected_rows w [path]))"
  proof (rule inj_onI)
    fix x y assume xy: "x \<in> set (selected_rows w [path])" "y \<in> set (selected_rows w [path])" "dr_path x = dr_path y"
    then have p: "prefix (row_parts x) (row_parts r0)" "prefix (row_parts y) (row_parts r0)"
      "length (row_parts x) = length (row_parts y)"
      by (simp_all add: set_selected_rows parts) (simp add: row_parts_def)
    then have "row_parts x = row_parts y" by (auto simp: prefix_def append_eq_append_conv)
    with xy show "x = y" using row_parts_unique [OF okw] by (simp add: set_selected_rows)
  qed
  have dist: "distinct (selected_rows t [path])" "distinct (selected_rows w [path])"
    using okt okw by (simp_all add: selected_rows_def directories_ok_def distinct_map)
  have sorted: "sorted (map dr_path (selected_rows t [path]))" "sorted (map dr_path (selected_rows w [path]))"
    by (simp_all add: selected_rows_def)
  show ?thesis
    by (rule map_sorted_distinct_set_unique [OF _ sorted(1) _ sorted(2)]) (simp_all add: sets inj dist distinct_map)
qed

lemma full_paths_kept: "keeps_directories t w \<Longrightarrow> full_paths t \<subseteq> full_paths w"
  by (auto simp: keeps_directories_def full_paths_def)

lemma quiet_chain:
  assumes exec: "execution quiet_directories (DirectoryChain_steps path) s tr (chain, missing) u" and inv: "store_inv s"
    and path: "path \<noteq> []" "path \<noteq> ''/''" and found: "path \<notin> set missing"
  shows "\<exists>w \<in> insert u (set tr). store_inv w \<and> DirectoryChain w path = (chain, [])"
proof -
  obtain t w where tw: "w \<in> insert u (set tr)" "store_inv t" "store_inv w" "quiet_directories t w"
    "chain = map (stored_directory w) (selected_rows t [path])" "missing = (if path \<in> full_paths t then [] else [path])"
    using chain_execution [OF exec inv path] by blast
  then have p: "path \<in> full_paths t" and k: "keeps_directories t w"
    using found by (auto simp: quiet_directories_def split: if_splits)
  have "path \<in> full_paths w" using full_paths_kept [OF k] p by blast
  then have "DirectoryChain w path = (chain, [])"
    using DirectoryChain_eq [OF tw(3) path] tw(5) selected_rows_kept [OF tw(2,3) k p] by simp
  with tw show ?thesis by blast
qed

text \<open>The gates answer as on one database of those the request met.\<close>

lemma pathReadable_execution:
  assumes exec: "execution quiet_directories (pathReadable_steps path tags) s tr True u" and inv: "store_inv s"
  shows "\<exists>w \<in> insert u (set tr). store_inv w \<and> pathReadable w path tags"
proof (cases "path = [] \<or> path = ''/''")
  case True
  then have "u = s" using exec by (auto simp: pathReadable_steps_def)
  with True inv show ?thesis by auto
next
  case False
  then obtain tr1 chain missing t tr2 where e: "execution quiet_directories (DirectoryChain_steps path) s tr1 (chain, missing) t"
    "tr = tr1 @ tr2"
    "execution quiet_directories (if 0 < length missing then Done False
       else Done (list_all (\<lambda>d. Directory_Allows (Some d) tags Acl_READ) chain)) t tr2 True u"
    using exec by (auto simp: pathReadable_steps_def execution_pbind)
  have m: "missing = []" and a: "list_all (\<lambda>d. Directory_Allows (Some d) tags Acl_READ) chain" "u = t"
    using e(3) by (simp_all split: if_splits)
  obtain w where w: "w \<in> insert t (set tr1)" "store_inv w" "DirectoryChain w path = (chain, [])"
    using quiet_chain [OF e(1) inv] False m by auto
  then have "pathReadable w path tags" using a(1) False by (simp add: pathReadable_def)
  with w e(2) a(2) show ?thesis by auto
qed

lemma containingDirectory_execution:
  assumes exec: "execution quiet_directories (containingDirectory_steps path) s tr (d, True) u" and inv: "store_inv s"
  shows "\<exists>w \<in> insert u (set tr). store_inv w \<and> containingDirectory w path = (d, True)"
proof (cases "path = [] \<or> path = ''/''")
  case True
  then have "u = s" "d = None" using exec by (auto simp: containingDirectory_steps_def)
  with True inv show ?thesis by (auto simp: containingDirectory_def)
next
  case False
  then obtain tr1 chain missing t tr2 where e: "execution quiet_directories (DirectoryChain_steps path) s tr1 (chain, missing) t"
    "tr = tr1 @ tr2"
    "execution quiet_directories (if path \<in> set missing then Done (None, False)
       else (case find (\<lambda>d. Directory_FullPath d = path) chain of Some d \<Rightarrow> Done (Some d, True) | None \<Rightarrow> Done (None, False))) t tr2 (d, True) u"
    using exec by (auto simp: containingDirectory_steps_def execution_pbind)
  have m: "path \<notin> set missing" and a: "find (\<lambda>d. Directory_FullPath d = path) chain = d" "d \<noteq> None" "u = t"
    using e(3) by (auto split: if_splits option.splits)
  obtain w where w: "w \<in> insert t (set tr1)" "store_inv w" "DirectoryChain w path = (chain, [])"
    using quiet_chain [OF e(1) inv _ _ m] False by auto
  then have "containingDirectory w path = (d, True)" using a False by (auto simp: containingDirectory_def)
  with w e(2) a(3) show ?thesis by auto
qed

section \<open>Reading a config\<close>

text \<open>A config is its row of one database with the entries of a later one.\<close>

lemma GetConfigByID_execution:
  assumes "execution R (GetConfigByID_steps i b v) s tr (Inr (Some c)) u"
  shows "\<exists>n r t t' tr'. parse_int64 i = Some n \<and> R s t \<and> find (\<lambda>r. cr_id r = n) (config_table t) = Some r \<and> R t t' \<and>
    tr = t # t' # tr' \<and> execution R (if b then load_content_steps n r v (config_of_row t (aclsForOwner Config_acl t' (cr_id r)) r)
      else Done (Inr (Some (config_of_row t (aclsForOwner Config_acl t' (cr_id r)) r)))) t' tr' (Inr (Some c)) u"
proof -
  obtain n where n: "parse_int64 i = Some n" using assms by (cases "parse_int64 i") (simp_all add: GetConfigByID_steps_def)
  have "execution R (pbind (querier (\<lambda>s. map_option (select_config s) (find (\<lambda>r. cr_id r = n) (config_table s)))) (\<lambda>found.
      case found of None \<Rightarrow> Done (Inr None)
      | Some cs \<Rightarrow> pbind (aclsForOwner_steps Config_acl (cr_id (sel_row cs))) (\<lambda>acls.
          if b then load_content_steps n (sel_row cs) v (config_of_select acls cs) else Done (Inr (Some (config_of_select acls cs))))))
      s tr (Inr (Some c)) u"
    using assms by (simp only: GetConfigByID_steps_def n option.case Let_def)
  then obtain t tr1 where t: "R s t" "tr = t # tr1" and e: "execution R (case map_option (select_config t) (find (\<lambda>r. cr_id r = n) (config_table t)) of
      None \<Rightarrow> Done (Inr None)
      | Some cs \<Rightarrow> pbind (aclsForOwner_steps Config_acl (cr_id (sel_row cs))) (\<lambda>acls.
          if b then load_content_steps n (sel_row cs) v (config_of_select acls cs) else Done (Inr (Some (config_of_select acls cs)))))
      t tr1 (Inr (Some c)) u"
    unfolding execution_pbind execution_querier by fastforce
  from e obtain r where r: "find (\<lambda>r. cr_id r = n) (config_table t) = Some r"
    by (cases "find (\<lambda>r. cr_id r = n) (config_table t)") simp_all
  from e r obtain t' tr' where "R t t'" "tr1 = t' # tr'"
    "execution R (if b then load_content_steps n r v (config_of_row t (aclsForOwner Config_acl t' (cr_id r)) r)
      else Done (Inr (Some (config_of_row t (aclsForOwner Config_acl t' (cr_id r)) r)))) t' tr' (Inr (Some c)) u"
    by (auto simp only: option.map option.case execution_pbind aclsForOwner_execution config_of_select_row append.simps)
  with n r t show ?thesis by blast
qed

text \<open>A config whose entries grant anything is there.\<close>

lemma granting_config_exists:
  assumes inv: "store_inv t" and "parse_int64 i = Some n" and "acls_grant (aclsForOwner Config_acl t n) tags a"
  shows "config_grants t tags a i"
proof -
  have "aclsForOwner Config_acl t n \<noteq> []" using assms(3) by auto
  then have "n \<in> cr_id ` set (config_table t)"
    using inv by (auto simp: store_inv_def acls_owned_def aclsForOwner_eq filter_empty_conv)
  with assms show ?thesis unfolding config_grants_def by force
qed

lemma load_current_execution:
  "cr_current_content_id r = Some v \<Longrightarrow> execution R (load_content_steps n r [] conf) t tr (Inr (Some c)) u \<longleftrightarrow>
     R t u \<and> tr = [u] \<and> (\<exists>b sz. version_content u n v = Some (b, sz) \<and> c = conf\<lparr>c_content := Some b, c_content_size := sz\<rparr>)"
  by (auto simp: load_content_steps_def execution_simps version_content_def eq_commute [of "Some c"])

lemma version_content_old:
  assumes it: "store_inv t" and iu: "store_inv u" and hist: "keeps_history t u"
    and r: "r \<in> set (config_table t)" "cr_current_content_id r = Some v" and new: "version_content u (cr_id r) v = Some w"
  shows "version_content t (cr_id r) v = Some w"
proof -
  obtain x where x: "x \<in> set (config_content_table t)" "cc_id x = v" "cc_config_id x = cr_id r"
    using store_inv_configs [OF it] r by (auto simp: configs_ok_def current_version_ok_def)
  have "\<exists>w'. version_content t (cr_id r) v = Some w'" using version_content_row [OF it x(1)] x(2,3) by simp
  moreover have "cr_id r \<in> config_ids u" using version_of_config [OF iu new] by simp
  ultimately show ?thesis using hist new unfolding keeps_history_def by (metis option.inject)
qed

lemma get_current_execution:
  assumes exec: "execution quiet_directories (GetConfigByID_steps i True []) s tr (Inr (Some c)) u" and inv: "store_inv s"
  shows "\<exists>t \<in> set tr. \<exists>t' \<in> set tr. \<exists>n d. store_inv t' \<and> parse_int64 i = Some n \<and>
    interference t t' \<and> GetConfigByID t i True [] = Inr (Some d) \<and> c = d\<lparr>c_acls := aclsForOwner Config_acl t' n\<rparr> \<and>
    store_inv u"
proof -
  obtain n r t t' tr' where e: "parse_int64 i = Some n" "quiet_directories s t" "find (\<lambda>r. cr_id r = n) (config_table t) = Some r"
    "quiet_directories t t'" "tr = t # t' # tr'"
    "execution quiet_directories (load_content_steps n r [] (config_of_row t (aclsForOwner Config_acl t' (cr_id r)) r)) t' tr' (Inr (Some c)) u"
    using GetConfigByID_execution [OF exec] by auto
  have it: "store_inv t" and it': "store_inv t'" using e(2,4) inv quiet_directories_inv by blast+
  have r: "r \<in> set (config_table t)" "cr_id r = n" using e(3) by (auto simp: find_Some_iff)
  obtain v where v: "cr_current_content_id r = Some v"
    using store_inv_configs [OF it] r(1) by (auto simp: configs_ok_def current_version_ok_def)
  obtain b sz where w: "quiet_directories t' u" "version_content u n v = Some (b, sz)"
    "c = (config_of_row t (aclsForOwner Config_acl t' n) r)\<lparr>c_content := Some b, c_content_size := sz\<rparr>"
    using e(6) r(2) by (auto simp: load_current_execution [OF v])
  have tu: "quiet_directories t u" using e(4) w(1) by (rule quiet_directories_trans)
  then have "store_inv u" "keeps_history t u" using interference_history [of t u] it by (simp_all add: quiet_directories_def)
  then have "version_content t n v = Some (b, sz)" using version_content_old [OF it _ _ r(1) v] w(2) r(2) by simp
  then have "GetConfigByID t i True [] = Inr (Some ((stored_config t r)\<lparr>c_content := Some b, c_content_size := sz\<rparr>))"
    using GetConfigByID_current [OF it r(1) _ v, of i] e(1) r(2) by simp
  moreover have "c = ((stored_config t r)\<lparr>c_content := Some b, c_content_size := sz\<rparr>)\<lparr>c_acls := aclsForOwner Config_acl t' n\<rparr>"
    by (simp add: w(3) stored_config_def config_of_row_def)
  moreover have "interference t t'" using e(4) by (simp add: quiet_directories_def)
  ultimately show ?thesis using e(1,5) it' \<open>store_inv u\<close> by auto
qed

lemma path_granted_readable:
  "store_inv s \<Longrightarrow> pathReadable s p tags \<Longrightarrow> path_granted s tags (clean_parts p)"
proof -
  assume inv: "store_inv s" and r: "pathReadable s p tags"
  from r consider "p = []" | ps where "p = abs_path ps" "path_granted s tags ps" by (auto simp: pathReadable_iff [OF inv])
  then show ?thesis
  proof cases
    case 2
    have "good_path ps"
    proof (cases "ps = []")
      case False
      then show ?thesis using path_granted_exists [OF 2(2)] stored.tree_good [OF store_inv_dirs [OF inv]] by blast
    qed simp
    with 2 show ?thesis by simp
  qed simp
qed

lemma answer_execution:
  "execution R (answer f p) s tr (Inr y) u \<longleftrightarrow> (\<exists>a. execution R p s tr (Inr a) u \<and> y = f a)"
proof -
  have m: "Inr y = map_sum id f r \<longleftrightarrow> (\<exists>a. r = Inr a \<and> y = f a)" for r :: "api_error + 'a" by (cases r) auto
  show ?thesis unfolding answer_def execution_pbind by (auto simp: m)
qed

lemma GetConfig_execution:
  assumes exec: "execution quiet_directories (GetConfig_steps tags i None) s tr (Inr c) u" and inv: "store_inv s"
  shows "\<exists>t t' w d. {t, t', w} \<subseteq> insert u (set tr) \<and> interference t t' \<and> GetConfigByID t i True [] = Inr (Some d) \<and>
    c = d\<lparr>c_acls := c_acls c\<rparr> \<and> config_grants t' tags Acl_READ i \<and> path_granted w tags (clean_parts (c_path c))"
proof -
  have "i \<noteq> []" using exec by (auto simp: GetConfig_steps_def)
  then obtain tr1 res t1 tr2 where e: "execution quiet_directories (GetConfigByID_steps i True []) s tr1 res t1" "tr = tr1 @ tr2"
    "execution quiet_directories (case res of Inl e \<Rightarrow> Done (Inl (store_failure Internal e))
       | Inr None \<Rightarrow> Done (Inl (Status NotFound None))
       | Inr (Some conf) \<Rightarrow>
           if \<not> Config_Allows conf tags Acl_READ then Done (Inl (Status PermissionDenied None))
           else pbind (pathReadable_steps (c_path conf) tags) (\<lambda>readable.
             if \<not> readable then Done (Inl (Status PermissionDenied None))
             else Done (Inr conf))) t1 tr2 (Inr c) u"
    using exec unfolding GetConfig_steps_def by (auto simp: execution_pbind)
  then obtain conf where res: "res = Inr (Some conf)" by (auto split: sum.splits option.splits)
  have allow: "Config_Allows conf tags Acl_READ" using e(3) by (auto simp: res split: if_splits)
  have "execution quiet_directories (pbind (pathReadable_steps (c_path conf) tags) (\<lambda>readable.
             if \<not> readable then Done (Inl (Status PermissionDenied None)) else Done (Inr conf))) t1 tr2 (Inr c) u"
    using e(3) allow by (simp only: res sum.case option.case if_False not_True_eq_False simp_thms)
  then have path: "execution quiet_directories (pathReadable_steps (c_path c) tags) t1 tr2 True u" and conf: "conf = c"
    unfolding execution_pbind by (auto split: if_splits)
  obtain t t' n d where t: "t \<in> set tr1" "t' \<in> set tr1" "store_inv t'" "parse_int64 i = Some n" "interference t t'"
    "GetConfigByID t i True [] = Inr (Some d)" "c = d\<lparr>c_acls := aclsForOwner Config_acl t' n\<rparr>" "store_inv t1"
    using get_current_execution [OF e(1) [unfolded res conf] inv] by blast
  have acls: "c_acls c = aclsForOwner Config_acl t' n" using t(7) by simp
  have "config_grants t' tags Acl_READ i"
    using granting_config_exists [OF t(3,4)] allow by (simp add: conf Config_Allows_def acls)
  moreover obtain w where "w \<in> insert u (set tr2)" "path_granted w tags (clean_parts (c_path c))"
    using pathReadable_execution [OF path t(8)] path_granted_readable by blast
  moreover have "c = d\<lparr>c_acls := c_acls c\<rparr>" unfolding acls by (rule t(7))
  ultimately show ?thesis using t(1,2,5,6) e(2) by auto
qed


text \<open>A finished request and its answer.\<close>

definition is_config_answer :: "(db, api_error + response) proc \<Rightarrow> bool" where
  "is_config_answer p = (case p of Done (Inr (ConfigResponse c)) \<Rightarrow> True | _ \<Rightarrow> False)"

definition is_set_answer :: "(db, api_error + response) proc \<Rightarrow> bool" where
  "is_set_answer p = (case p of Done (Inr (SetConfigResponse c)) \<Rightarrow> True | _ \<Rightarrow> False)"

lemma is_config_answerE: assumes "is_config_answer p" obtains c where "p = Done (Inr (ConfigResponse c))"
  using assms by (auto simp: is_config_answer_def split: proc.splits sum.splits response.splits)

lemma is_set_answerE: assumes "is_set_answer p" obtains c where "p = Done (Inr (SetConfigResponse c))"
  using assms by (auto simp: is_set_answer_def split: proc.splits sum.splits response.splits)


section \<open>Writing a config\<close>

text \<open>What a process without transactions of its own met came before where it ended.\<close>

lemma execution_ordered:
  assumes "execution R p s tr a u" and "writes_by R p" and trans: "\<And>s t u. R s t \<Longrightarrow> R t u \<Longrightarrow> R s u" and refl: "\<And>s. R s s"
  shows "\<forall>t \<in> insert s (insert u (set tr)). R t u"
  using assms(1,2)
proof (induction rule: execution.induct)
  case (finished r s)
  then show ?case by (simp add: refl)
next
  case (query s t k tr r u)
  then have "\<forall>x \<in> insert t (insert u (set tr)). R x u" by simp
  with query(1) trans show ?case by auto
next
  case (tx s t k f tr r u)
  then have "\<forall>x \<in> insert (f t) (insert u (set tr)). R x u" "R t (f t)" by simp_all
  then have "R t u" "R s u" using trans tx(1) by (meson insertI1)+
  with \<open>\<forall>x \<in> insert (f t) (insert u (set tr)). R x u\<close> show ?case by simp
qed

lemma execution_read_only: "execution R p s tr a u \<Longrightarrow> writes_by (=) p \<Longrightarrow> u \<in> insert s (set tr)"
proof (induction rule: execution.induct)
  case (tx s t k f tr r u)
  have "f t = t" using tx(4) by simp
  with tx show ?case by simp
qed auto

lemma set_config_checks_execution:
  assumes exec: "execution quiet_directories (set_config_checks_steps allowed tags c) s tr (Inr ()) u" and inv: "store_inv s"
  shows "\<exists>t \<in> insert u (set tr). \<exists>w \<in> insert u (set tr). store_inv u \<and>
    (if c_id c = [] then canCreate allowed tags else config_grants t tags Acl_WRITE (c_id c)) \<and>
    config_path_ok (directory_table w) (c_path c) \<and> path_gate w tags Acl_WRITE (c_path c)"
proof -
  let ?own = "if c_id c \<noteq> []
            then pbind (GetConfigByID_steps (c_id c) False []) (\<lambda>res. case res of
                    Inl e \<Rightarrow> Done (Inl (store_failure Internal e))
                  | Inr None \<Rightarrow> Done (Inl (Status NotFound None))
                  | Inr (Some existing) \<Rightarrow>
                      if \<not> Config_Allows existing tags Acl_WRITE then Done (Inl (Status PermissionDenied None))
                      else Done (Inr ()))
            else if \<not> canCreate allowed tags then Done (Inl (Status PermissionDenied None))
            else Done (Inr ())"
  obtain tr1 res t1 tr2 where e: "execution quiet_directories ?own s tr1 res t1" "tr = tr1 @ tr2"
    "execution quiet_directories (case res of
       Inl e \<Rightarrow> Done (Inl e)
     | Inr _ \<Rightarrow>
         pbind (containingDirectory_steps (c_path c)) (\<lambda>(containing, exists).
             if \<not> exists then Done (Inl (Status FailedPrecondition None))
             else if \<not> Directory_Allows containing tags Acl_WRITE then Done (Inl (Status PermissionDenied None))
             else Done (Inr ()))) t1 tr2 (Inr ()) u"
    using exec unfolding set_config_checks_steps_def execution_pbind by (elim exE conjE) (rule that)
  then have res: "res = Inr ()" by (cases res) simp_all
  have "execution quiet_directories (pbind (containingDirectory_steps (c_path c)) (\<lambda>(containing, exists).
             if \<not> exists then Done (Inl (Status FailedPrecondition None))
             else if \<not> Directory_Allows containing tags Acl_WRITE then Done (Inl (Status PermissionDenied None))
             else Done (Inr ()))) t1 tr2 (Inr ()) u"
    using e(3) by (simp only: res sum.case)
  then obtain d where dir: "execution quiet_directories (containingDirectory_steps (c_path c)) t1 tr2 (d, True) u"
    "Directory_Allows d tags Acl_WRITE"
    unfolding execution_pbind by (auto split: if_splits)
  have own: "store_inv t1 \<and> (if c_id c = [] then canCreate allowed tags else \<exists>t \<in> set tr1. config_grants t tags Acl_WRITE (c_id c))"
  proof (cases "c_id c = []")
    case True
    with e(1) res inv show ?thesis by (auto split: if_splits)
  next
    case False
    then obtain existing where x: "execution quiet_directories (GetConfigByID_steps (c_id c) False []) s tr1 (Inr (Some existing)) t1"
      "Config_Allows existing tags Acl_WRITE"
    proof -
      from False e(1) obtain tra a t2 trb where a: "execution quiet_directories (GetConfigByID_steps (c_id c) False []) s tra a t2"
        "execution quiet_directories (case a of Inl e \<Rightarrow> Done (Inl (store_failure Internal e))
           | Inr None \<Rightarrow> Done (Inl (Status NotFound None))
           | Inr (Some existing) \<Rightarrow> if \<not> Config_Allows existing tags Acl_WRITE then Done (Inl (Status PermissionDenied None)) else Done (Inr ()))
           t2 trb (Inr ()) t1" "tr1 = tra @ trb"
        unfolding res by (simp only: if_True execution_pbind not_False_eq_True simp_thms) (elim exE conjE, rule that)
      then obtain existing where "a = Inr (Some existing)" by (auto split: sum.splits option.splits)
      with a show thesis by (intro that [of existing]) (auto split: if_splits)
    qed
    obtain n r t t' tr' where g: "parse_int64 (c_id c) = Some n" "quiet_directories s t"
      "find (\<lambda>r. cr_id r = n) (config_table t) = Some r" "quiet_directories t t'" "tr1 = t # t' # tr'"
      "execution quiet_directories (Done (Inr (Some (config_of_row t (aclsForOwner Config_acl t' (cr_id r)) r)))) t' tr' (Inr (Some existing)) t1"
      using GetConfigByID_execution [OF x(1)] by auto
    then have it: "store_inv t'" "t1 = t'" using inv quiet_directories_inv by auto
    moreover have "cr_id r = n" using g(3) by (auto simp: find_Some_iff)
    ultimately have "config_grants t' tags Acl_WRITE (c_id c)"
      using granting_config_exists [OF it(1) g(1)] g(6) x(2) by (simp add: Config_Allows_def)
    with False it g(5) show ?thesis by auto
  qed
  then have inv1: "store_inv t1" by blast
  obtain w where w: "w \<in> insert u (set tr2)" "store_inv w" "containingDirectory w (c_path c) = (d, True)"
    using containingDirectory_execution [OF dir(1) inv1] by blast
  have "config_path_ok (directory_table w) (c_path c)" using containingDirectory_spec(1) [OF w(2)] w(3) by (metis snd_conv)
  moreover from this have "path_gate w tags Acl_WRITE (c_path c)"
    using containingDirectory_spec(2) [OF w(2)] w(3) dir(2) by (metis fst_conv)
  moreover have "quiet_directories t1 u"
    using execution_ordered [OF dir(1) gates_write_nothing(2)] quiet_directories_trans quiet_directories_refl by blast
  then have "store_inv u" using inv1 quiet_directories_inv by blast
  moreover obtain t where "t \<in> insert u (set tr)"
    "if c_id c = [] then canCreate allowed tags else config_grants t tags Acl_WRITE (c_id c)"
    using own e(2) by (cases "c_id c = []") auto
  moreover have "w \<in> insert u (set tr)" using w(1) e(2) by auto
  ultimately show ?thesis by blast
qed

lemma set_config_checks_write_nothing: "writes_by W (set_config_checks_steps allowed tags c)"
  by (auto simp: set_config_checks_steps_def intro!: writes_by_pbind reads_write_nothing gates_write_nothing
      split: option.split sum.split)

lemma SetConfig_execution:
  assumes exec: "execution quiet_directories (SetConfig_steps allowed tags (Some c) now) s tr (Inr e) u" and inv: "store_inv s"
  shows "\<exists>t w v. {t, w, v, u} \<subseteq> insert s (insert u (set tr)) \<and> interference t v \<and> interference w v \<and>
    (if c_id c = [] then canCreate allowed tags else config_grants t tags Acl_WRITE (c_id c)) \<and>
    config_path_ok (directory_table w) (c_path c) \<and> path_gate w tags Acl_WRITE (c_path c) \<and> Upsert c now v = (Inr e, u)"
proof -
  obtain tr1 res t1 tr2 where e: "execution quiet_directories (set_config_checks_steps allowed tags c) s tr1 res t1" "tr = tr1 @ tr2"
    "execution quiet_directories (case res of Inl e \<Rightarrow> Done (Inl e)
       | Inr _ \<Rightarrow> pbind (transaction (Upsert c now)) (\<lambda>res. case res of
            Inl e \<Rightarrow> Done (Inl (store_failure Internal e)) | Inr storedConfig \<Rightarrow> Done (Inr storedConfig))) t1 tr2 (Inr e) u"
    using exec unfolding SetConfig_steps_def option.case execution_pbind by (elim exE conjE) (rule that)
  then have res: "res = Inr ()" by (cases res) simp_all
  have "execution quiet_directories (pbind (transaction (Upsert c now)) (\<lambda>res. case res of
            Inl e \<Rightarrow> Done (Inl (store_failure Internal e)) | Inr storedConfig \<Rightarrow> Done (Inr storedConfig))) t1 tr2 (Inr e) u"
    using e(3) by (simp only: res sum.case)
  then obtain a v where v: "quiet_directories t1 v" "tr2 = [v]" "a = fst (Upsert c now v)" "u = snd (Upsert c now v)"
    "execution quiet_directories (case a of Inl e \<Rightarrow> Done (Inl (store_failure Internal e)) | Inr storedConfig \<Rightarrow> Done (Inr storedConfig)) u [] (Inr e) u"
    unfolding execution_pbind execution_transaction by (fastforce split: sum.splits)
  have "a = Inr e" using v(5) by (cases a) simp_all
  then have up: "Upsert c now v = (Inr e, u)" using v(3,4) by (metis prod.collapse)
  obtain t w where t: "t \<in> insert t1 (set tr1)" "w \<in> insert t1 (set tr1)"
    "if c_id c = [] then canCreate allowed tags else config_grants t tags Acl_WRITE (c_id c)"
    "config_path_ok (directory_table w) (c_path c)" "path_gate w tags Acl_WRITE (c_path c)"
    using set_config_checks_execution [OF e(1) [unfolded res] inv] by blast
  have "t1 \<in> insert s (set tr1)" using execution_read_only [OF e(1) set_config_checks_write_nothing] .
  then have "{t, w, v, u} \<subseteq> insert s (insert u (set tr))" using t(1,2) v(2) e(2) by auto
  moreover have "\<forall>x \<in> insert s (insert t1 (set tr1)). quiet_directories x t1"
    using e(1) set_config_checks_write_nothing quiet_directories_trans quiet_directories_refl by (rule execution_ordered)
  then have "interference t v" "interference w v"
    using t(1,2) quiet_directories_trans [OF _ v(1)] unfolding quiet_directories_def by blast+
  ultimately show ?thesis using t(3-5) up by blast
qed

text \<open>
  While other requests write, but no directory is deleted, a \<open>SetConfig\<close> that is answered with
  success wrote with authority: at a time before its one transaction the config granted WRITE to
  the caller (for a new config the allow-list admits the caller), and at a time before it the
  directory of the config existed and granted WRITE.  The check and the write are not one step, so
  the authority is that of a time before the write and not of the write.
\<close>

theorem set_config_authorised_in_flight:
  assumes run: "(step_within keeps_directories q allowed)\<^sup>*\<^sup>* (s, ps) (s', ps')" and inv: "flight_inv (s, ps)"
    and j: "j < length ps" "ps ! j = request_steps q allowed tags now (SetConfigRequest (Some c))"
    and fin: "ps' ! j = Done (Inr (SetConfigResponse e))"
  shows "\<exists>t w v v'. list_all (on_the_way (server_step q allowed) (s, ps) (s', ps')) [t, w, v, v'] \<and>
    interference t v \<and> interference w v \<and>
    (if c_id c = [] then canCreate allowed tags else config_grants t tags Acl_WRITE (c_id c)) \<and>
    config_path_ok (directory_table w) (c_path c) \<and> path_gate w tags Acl_WRITE (c_path c) \<and> Upsert c now v = (Inr e, v')"
proof -
  let ?way = "on_the_way (server_step q allowed) (s, ps) (s', ps')"
  have sinv: "store_inv s" using inv by (simp add: flight_inv_def)
  obtain tr u where x: "execution quiet_directories (ps ! j) s tr (Inr (SetConfigResponse e)) u" and way: "\<And>t. t \<in> insert u (set tr) \<Longrightarrow> ?way t"
    by (rule quiet_request [OF run inv j(1) fin]) (rule that)
  have "(server_step q allowed)\<^sup>*\<^sup>* (s, ps) (s', ps')"
    using run by (rule rtranclp_mono [THEN predicate2D, rotated]) (auto simp: step_within_def)
  then have "?way s" by (rule on_the_way_first)
  then have all: "?way t" if "t \<in> insert s (insert u (set tr))" for t using way that by blast
  have g: "execution quiet_directories (SetConfig_steps allowed tags (Some c) now) s tr (Inr e) u"
    using x by (simp add: j(2) answer_execution)
  obtain t w v where y: "{t, w, v, u} \<subseteq> insert s (insert u (set tr))" "interference t v" "interference w v"
    "if c_id c = [] then canCreate allowed tags else config_grants t tags Acl_WRITE (c_id c)"
    "config_path_ok (directory_table w) (c_path c)" "path_gate w tags Acl_WRITE (c_path c)" "Upsert c now v = (Inr e, u)"
    using SetConfig_execution [OF g sinv] by blast
  have "list_all ?way [t, w, v, u]" using y(1) all by simp
  with y(2-) show ?thesis by blast
qed

text \<open>Two writers of one config whose requests overlap.\<close>

theorem set_config_authorised_in_flight_witness:
  "\<exists>s' ps' e t w v v'. (server_step (\<lambda>x. x) [])\<^sup>*\<^sup>* (sample_db, [request_steps (\<lambda>x. x) [] [''tag:ops''] 9 (SetConfigRequest (Some sample_change))]) (s', ps') \<and>
     ps' ! 0 = Done (Inr (SetConfigResponse e)) \<and> config_grants t [''tag:ops''] Acl_WRITE ''3'' \<and>
     path_gate w [''tag:ops''] Acl_WRITE ''/team/docs'' \<and> Upsert sample_change 9 v = (Inr e, v') \<and> interference t v"
proof -
  let ?set = "request_steps (\<lambda>x. x) [] [''tag:ops''] 9 (SetConfigRequest (Some sample_change))"
  let ?es = "[Run 0, Run 0, Arrive [''tag:ops''] 7 (SetConfigRequest (Some sample_change)), Run 1, Run 1, Run 1, Run 1, Run 1,
    Run 0, Run 0, Run 0]"
  let ?c = "play (\<lambda>x. x) [] ?es (sample_db, [?set])"
  have ok: "stays keeps_directories (\<lambda>x. x) [] ?es (sample_db, [?set])" by code_simp
  then have run: "(step_within keeps_directories (\<lambda>x. x) [])\<^sup>*\<^sup>* (sample_db, [?set]) (fst ?c, snd ?c)"
    unfolding prod.collapse by (rule play_stays)
  have inv: "flight_inv (sample_db, [?set])" by (rule request_in_flight [OF sample_inv])
  have "is_set_answer (snd ?c ! 0)" by code_simp
  then obtain e where fin: "snd ?c ! 0 = Done (Inr (SetConfigResponse e))" by (rule is_set_answerE)
  have c: "c_id sample_change = ''3''" "c_path sample_change = ''/team/docs''" by (simp_all add: sample_change_def)
  have srv: "(server_step (\<lambda>x. x) [])\<^sup>*\<^sup>* (sample_db, [?set]) (fst ?c, snd ?c)" unfolding prod.collapse by (rule play_steps)
  have one: "0 < length [?set]" "[?set] ! 0 = ?set" by (simp, rule nth_Cons_0)
  from set_config_authorised_in_flight [OF run inv one fin] obtain t w v v' where t:
    "if c_id sample_change = [] then canCreate [] [''tag:ops''] else config_grants t [''tag:ops''] Acl_WRITE (c_id sample_change)"
    "path_gate w [''tag:ops''] Acl_WRITE (c_path sample_change)" "Upsert sample_change 9 v = (Inr e, v')" "interference t v"
    by (elim exE conjE) (rule that)
  have "config_grants t [''tag:ops''] Acl_WRITE ''3''" using t(1) unfolding c by simp
  with srv fin t(2-4) show ?thesis unfolding c by (intro exI conjI)
qed

end
