(* ===== verification/ApiRaces.thy ===== *)
theory ApiRaces
  imports ApiQuiet
begin

text \<open>
  What can go wrong between the steps of a request of \<open>internal/api/server.go\<close>: schedules of a few
  requests on the sample database in which one request does what on no single database it would
  have done.  They show where the hypotheses of \<open>ApiQuiet\<close> are needed.
\<close>

text \<open>The databases a schedule goes through.\<close>

primrec databases :: "(string \<Rightarrow> string) \<Rightarrow> string list \<Rightarrow> event list \<Rightarrow> flight \<Rightarrow> db list" where
  "databases q allowed [] c = [fst c]"
| "databases q allowed (e # es) c = fst c # databases q allowed es (play_event q allowed e c)"

text \<open>
  A directory deleted between the query of its row and the query of its entries reads as one
  without entries, which is transparent: a stranger is given a config of \<open>/team\<close> that, by every
  database on the way, the stranger could not have.
\<close>

definition disclosure :: "event list" where
  "disclosure = [Arrive [''tag:stranger''] 0 (GetConfigRequest ''3'' None), Run 0, Run 0, Run 0, Run 0,
     Arrive [''tag:ops''] 1 (DeleteConfigRequest ''3''), Run 1, Run 1, Run 1,
     Arrive [''tag:ops''] 2 (DeleteDirectoryRequest ''2''), Run 2, Run 2, Run 2, Run 2, Run 2,
     Arrive [''tag:ops''] 3 (DeleteDirectoryRequest ''1''), Run 3, Run 3, Run 3, Run 3, Run 3,
     Run 0]"

theorem deleted_directory_discloses:
  "list_all (\<lambda>t. isl (GetConfig t [''tag:stranger''] ''3'' None)) (databases (\<lambda>x. x) [] disclosure (sample_db, []))"
  "(case snd (play (\<lambda>x. x) [] disclosure (sample_db, [])) ! 0 of
      Done (Inr (ConfigResponse c)) \<Rightarrow> c_content c = Some [104, 105] | _ \<Rightarrow> False)"
  by (code_simp, code_simp)

text \<open>
  A config created in a directory that is created after the tree listed its directories makes the
  whole listing fail, which no listing of a single database does.
\<close>

definition vanished :: "event list" where
  "vanished = [Arrive [''tag:dev''] 0 (ListRequest []), Run 0, Run 0,
     Arrive [] 1 (CreateDirectoryRequest (Some (Directory [] ''fresh'' ''/'' [] [] []))), Run 1,
     Arrive [] 2 (SetConfigRequest (Some (sample_config\<lparr>c_path := ''/fresh'', c_acls := [\<lparr>acl_level = Acl_READ, acl_tag = [], acl_everyone = True\<rparr>]\<rparr>))),
     Run 2, Run 2, Run 2, Run 2, Run 0, Run 0]"

theorem created_config_fails_list:
  "list_all (\<lambda>t. \<not> isl (List_tree t [''tag:dev''] [])) (databases (\<lambda>x. x) [] vanished (sample_db, []))"
  "(case snd (play (\<lambda>x. x) [] vanished (sample_db, [])) ! 0 of
      Done (Inl (Status Internal (Some (MissingDirectory p f)))) \<Rightarrow> p = ''/fresh'' | _ \<Rightarrow> False)"
  by (code_simp, code_simp)

text \<open>
  A config deleted between the check of a \<open>SetConfig\<close> that names neither path nor name and its
  transaction: \<open>Upsert\<close> dereferences the config it does not find.
\<close>

definition crash :: "event list" where
  "crash = [Arrive [''tag:ops''] 0 (SetConfigRequest (Some (sample_change\<lparr>c_name := [], c_path := []\<rparr>))), Run 0, Run 0,
     Arrive [''tag:ops''] 1 (DeleteConfigRequest ''3''), Run 1, Run 1, Run 1, Run 0]"

theorem deleted_config_crashes_set:
  "(case snd (play (\<lambda>x. x) [] crash (sample_db, [])) ! 0 of
      Done (Inl Panicked) \<Rightarrow> True | _ \<Rightarrow> False)"
  by code_simp

text \<open>
  A writer whose WRITE access is taken away between the check and the transaction still writes: the
  database before the write does not grant it, the one after holds the entries of the writer again.
\<close>

definition revoked :: "event list" where
  "revoked = [Arrive [''tag:ops''] 0 (SetConfigRequest (Some (sample_change\<lparr>c_acls := [\<lparr>acl_level = Acl_WRITE, acl_tag = ''tag:ops'', acl_everyone = False\<rparr>]\<rparr>))),
     Run 0, Run 0, Run 0, Run 0,
     Arrive [''tag:ops''] 1 (SetConfigRequest (Some (sample_change\<lparr>c_acls := [\<lparr>acl_level = Acl_WRITE, acl_tag = ''tag:lead'', acl_everyone = False\<rparr>]\<rparr>))),
     Run 1, Run 1, Run 1, Run 1, Run 1]"

theorem revoked_writer_writes:
  "\<not> config_grants (fst (play (\<lambda>x. x) [] revoked (sample_db, []))) [''tag:ops''] Acl_WRITE ''3''"
  "is_set_answer (snd (play (\<lambda>x. x) [] (revoked @ [Run 0]) (sample_db, [])) ! 0)"
  "config_grants (fst (play (\<lambda>x. x) [] (revoked @ [Run 0]) (sample_db, []))) [''tag:ops''] Acl_WRITE ''3''"
  by (code_simp, code_simp, code_simp)

end
