(* ===== verification/ApiChanges.thy ===== *)
theory ApiChanges
  imports ApiQuiet
begin

text \<open>
  Deletions of configs and updates of directories of \<open>internal/api/server.go\<close> while other requests
  run: what was checked before the transaction.  A deletion needs no assumption on the others; an
  update needs, like the writes of configs, that no directory is deleted meanwhile.
\<close>

section \<open>Deleting a config\<close>

text \<open>A finished request of any server, and the databases it met.\<close>

lemma any_steps:
  assumes "(server_step q allowed)\<^sup>*\<^sup>* a b" and "flight_inv a"
  shows "(step_within interference q allowed)\<^sup>*\<^sup>* a b \<and> flight_inv b"
  using assms(1)
proof (induction rule: rtranclp_induct)
  case base
  then show ?case using assms(2) by simp
next
  case (step b c)
  then have inv: "flight_inv b" by simp
  have "interference (fst b) (fst c)" "flight_inv c"
    using server_step_writes [OF step(2) inv] by (auto simp: interference_def)
  with step show ?case by (auto simp: step_within_def intro: rtranclp.rtrancl_into_rtrancl)
qed

lemma any_request:
  assumes run: "(server_step q allowed)\<^sup>*\<^sup>* (s, ps) (s', ps')" and inv: "flight_inv (s, ps)"
    and j: "j < length ps" and fin: "ps' ! j = Done r"
  obtains tr u where "execution interference (ps ! j) s tr r u"
    "\<And>t. t \<in> insert u (set tr) \<Longrightarrow> on_the_way (server_step q allowed) (s, ps) (s', ps') t"
proof -
  have "(step_within interference q allowed)\<^sup>*\<^sup>* (s, ps) (s', ps')" using any_steps [OF run inv] by simp
  then have "\<exists>tr u. execution interference (ps ! j) s tr r u \<and> interference u s' \<and>
      (\<forall>t \<in> insert u (set tr). on_the_way (step_within interference q allowed) (s, ps) (s', ps') t)"
    by (intro request_execution [where R = interference, OF interference_refl _ _ j fin]) (rule interference_trans)
  then obtain tr u where e: "execution interference (ps ! j) s tr r u"
    "\<forall>t \<in> insert u (set tr). on_the_way (step_within interference q allowed) (s, ps) (s', ps') t" by blast
  have "on_the_way (server_step q allowed) (s, ps) (s', ps') t" if "t \<in> insert u (set tr)" for t
    by (rule on_the_way_mono [OF e(2) [rule_format, OF that]]) (simp add: step_within_def)
  with e(1) show thesis by (rule that)
qed

text \<open>The transaction that ends a request.\<close>

lemma last_transaction:
  assumes "execution R (pbind (transaction f) (\<lambda>res. case res of Inl e \<Rightarrow> Done (Inl (g e)) | Inr x \<Rightarrow> Done (Inr (h x)))) s tr (Inr y) u"
  shows "\<exists>v x. R s v \<and> tr = [v] \<and> f v = (Inr x, u) \<and> y = h x"
proof -
  obtain v where v: "R s v" "tr = [v]"
    "execution R (case fst (f v) of Inl e \<Rightarrow> Done (Inl (g e)) | Inr x \<Rightarrow> Done (Inr (h x))) (snd (f v)) [] (Inr y) u"
    using assms unfolding execution_pbind execution_transaction by (fastforce split: sum.splits)
  then obtain x where x: "fst (f v) = Inr x" by (cases "fst (f v)") simp_all
  with v(3) have "y = h x" "u = snd (f v)" by simp_all
  with x v(1,2) show ?thesis by (metis prod.collapse)
qed

lemma DeleteConfig_execution:
  assumes exec: "execution interference (DeleteConfig_steps tags i) s tr (Inr ()) u" and inv: "store_inv s"
  shows "\<exists>t v. {t, v, u} \<subseteq> insert u (set tr) \<and> interference t v \<and> config_grants t tags Acl_WRITE i \<and> Delete i v = (Inr (), u)"
proof -
  have "i \<noteq> []" using exec by (auto simp: DeleteConfig_steps_def)
  then obtain tr1 res t1 tr2 where e: "execution interference (GetConfigByID_steps i False []) s tr1 res t1" "tr = tr1 @ tr2"
    "execution interference (case res of Inl e \<Rightarrow> Done (Inl (store_failure Internal e))
       | Inr None \<Rightarrow> Done (Inl (Status NotFound None))
       | Inr (Some existing) \<Rightarrow>
           if \<not> Config_Allows existing tags Acl_WRITE then Done (Inl (Status PermissionDenied None))
           else pbind (transaction (Delete i)) (\<lambda>res. case res of
                   Inl e \<Rightarrow> Done (Inl (store_failure Internal e)) | Inr _ \<Rightarrow> Done (Inr ()))) t1 tr2 (Inr ()) u"
    using exec unfolding DeleteConfig_steps_def by (auto simp: execution_pbind)
  then obtain existing where res: "res = Inr (Some existing)" by (auto split: sum.splits option.splits)
  have allow: "Config_Allows existing tags Acl_WRITE" using e(3) by (auto simp: res split: if_splits)
  have "execution interference (pbind (transaction (Delete i)) (\<lambda>res. case res of
                   Inl e \<Rightarrow> Done (Inl (store_failure Internal e)) | Inr _ \<Rightarrow> Done (Inr ()))) t1 tr2 (Inr ()) u"
    using e(3) allow by (simp only: res sum.case option.case if_False not_True_eq_False simp_thms)
  from last_transaction [OF this] obtain v where v: "interference t1 v" "tr2 = [v]" "Delete i v = (Inr (), u)" by auto
  obtain n r t t' where g: "parse_int64 i = Some n" "interference s t" "find (\<lambda>r. cr_id r = n) (config_table t) = Some r"
    "interference t t'" "tr1 = [t, t']" "existing = config_of_row t (aclsForOwner Config_acl t' (cr_id r)) r" "t1 = t'"
    using GetConfigByID_execution [OF e(1) [unfolded res]] by auto
  have inv': "store_inv t'" using inv g(2,4) interference_inv by blast
  have "cr_id r = n" using g(3) by (auto simp: find_Some_iff)
  then have "config_grants t' tags Acl_WRITE i"
    using granting_config_exists [OF inv' g(1)] allow by (simp add: g(6) Config_Allows_def)
  moreover have "{t', v, u} \<subseteq> insert u (set tr)" using e(2) v(2) g(5) by simp
  ultimately show ?thesis using v g(7) by blast
qed

text \<open>
  C15: However requests interleave, a deletion of a config that is answered with success had its
  authority: at a time while it ran, before the one transaction that deleted the config, the config
  existed and granted WRITE to the caller.
\<close>

theorem delete_config_authorised_in_flight:
  assumes run: "(server_step q allowed)\<^sup>*\<^sup>* (s, ps) (s', ps')" and inv: "flight_inv (s, ps)"
    and j: "j < length ps" "ps ! j = request_steps q allowed tags now (DeleteConfigRequest i)"
    and fin: "ps' ! j = Done (Inr x)"
  shows "\<exists>t v v'. list_all (on_the_way (server_step q allowed) (s, ps) (s', ps')) [t, v, v'] \<and>
    interference t v \<and> config_grants t tags Acl_WRITE i \<and> Delete i v = (Inr (), v')"
proof -
  have sinv: "store_inv s" using inv by (simp add: flight_inv_def)
  obtain tr u where e: "execution interference (ps ! j) s tr (Inr x) u"
    and way: "\<And>t. t \<in> insert u (set tr) \<Longrightarrow> on_the_way (server_step q allowed) (s, ps) (s', ps') t"
    by (rule any_request [OF run inv j(1) fin]) (rule that)
  have "execution interference (DeleteConfig_steps tags i) s tr (Inr ()) u"
    using e by (simp add: j(2) answer_execution)
  from DeleteConfig_execution [OF this sinv] obtain t v where y: "{t, v, u} \<subseteq> insert u (set tr)" "interference t v"
    "config_grants t tags Acl_WRITE i" "Delete i v = (Inr (), u)" by blast
  have "list_all (on_the_way (server_step q allowed) (s, ps) (s', ps')) [t, v, u]" using y(1) way by simp
  with y(2-) show ?thesis by blast
qed

definition is_empty_answer :: "(db, api_error + response) proc \<Rightarrow> bool" where
  "is_empty_answer p = (case p of Done (Inr EmptyResponse) \<Rightarrow> True | _ \<Rightarrow> False)"

lemma is_empty_answerD: "is_empty_answer p \<Longrightarrow> p = Done (Inr EmptyResponse)"
  by (auto simp: is_empty_answer_def split: proc.splits sum.splits response.splits)

text \<open>A deletion whose WRITE access another request takes away before its transaction.\<close>

theorem delete_config_authorised_in_flight_witness:
  "\<exists>s' ps' t v v'. (server_step (\<lambda>x. x) [])\<^sup>*\<^sup>* (sample_db, [request_steps (\<lambda>x. x) [] [''tag:ops''] 9 (DeleteConfigRequest ''3'')]) (s', ps') \<and>
     config_grants t [''tag:ops''] Acl_WRITE ''3'' \<and> Delete ''3'' v = (Inr (), v') \<and> interference t v \<and> config_table s' = []"
proof -
  let ?del = "request_steps (\<lambda>x. x) [] [''tag:ops''] 9 (DeleteConfigRequest ''3'')"
  let ?es = "[Run 0, Run 0, Arrive [''tag:ops''] 7 (SetConfigRequest (Some (sample_change\<lparr>c_acls := []\<rparr>))), Run 1, Run 1, Run 1, Run 1, Run 1, Run 0]"
  let ?c = "play (\<lambda>x. x) [] ?es (sample_db, [?del])"
  have run: "(server_step (\<lambda>x. x) [])\<^sup>*\<^sup>* (sample_db, [?del]) (fst ?c, snd ?c)" unfolding prod.collapse by (rule play_steps)
  have inv: "flight_inv (sample_db, [?del])" by (rule request_in_flight [OF sample_inv])
  have "is_empty_answer (snd ?c ! 0)" by code_simp
  then have fin: "snd ?c ! 0 = Done (Inr EmptyResponse)" by (rule is_empty_answerD)
  have gone: "config_table (fst ?c) = []" by code_simp
  have one: "0 < length [?del]" "[?del] ! 0 = ?del" by (simp, rule nth_Cons_0)
  from delete_config_authorised_in_flight [OF run inv one fin] obtain t v v' where
    "config_grants t [''tag:ops''] Acl_WRITE ''3''" "Delete ''3'' v = (Inr (), v')" "interference t v"
    by (elim exE conjE) (rule that)
  with run gone show ?thesis by (intro exI conjI)
qed

section \<open>Changing the entries of a directory\<close>

lemma GetDirectoryByID_execution:
  assumes "execution quiet_directories (GetDirectoryByID_steps i) s tr (Inr (Some d)) u" and inv: "store_inv s"
  shows "store_inv u \<and> u \<in> set tr \<and> (\<exists>r \<in> set (directory_table u). parse_int64 i = Some (dr_id r) \<and> d = stored_directory u r)"
proof -
  obtain n where n: "parse_int64 i = Some n" using assms(1) by (cases "parse_int64 i") (simp_all add: GetDirectoryByID_steps_def)
  have "execution quiet_directories (pbind (querier (\<lambda>s. find (\<lambda>r. dr_id r = n) (directory_table s))) (\<lambda>found. case found of
      None \<Rightarrow> Done (Inr None :: store_error + directory option)
      | Some ds \<Rightarrow> pbind (aclsForOwner_steps Directory_acl (dr_id ds)) (\<lambda>acls. Done (Inr (Some (directory_of_row acls ds))))))
      s tr (Inr (Some d)) u"
    using assms(1) by (simp only: GetDirectoryByID_steps_def n option.case)
  then obtain t tr1 where t: "quiet_directories s t" "tr = t # tr1"
    and e: "execution quiet_directories (case find (\<lambda>r. dr_id r = n) (directory_table t) of
      None \<Rightarrow> Done (Inr None :: store_error + directory option)
      | Some ds \<Rightarrow> pbind (aclsForOwner_steps Directory_acl (dr_id ds)) (\<lambda>acls. Done (Inr (Some (directory_of_row acls ds))))) t tr1 (Inr (Some d)) u"
    unfolding execution_pbind execution_querier by fastforce
  then obtain r where r: "find (\<lambda>r. dr_id r = n) (directory_table t) = Some r"
    by (cases "find (\<lambda>r. dr_id r = n) (directory_table t)") simp_all
  with e have a: "quiet_directories t u" "tr1 = [u]" "d = directory_of_row (aclsForOwner Directory_acl u (dr_id r)) r"
    by (auto simp: execution_pbind aclsForOwner_execution)
  have "r \<in> set (directory_table t)" "dr_id r = n" using r by (auto simp: find_Some_iff)
  moreover have "store_inv u" using inv t(1) a(1) quiet_directories_inv by blast
  moreover have "r \<in> set (directory_table u)" using a(1) \<open>r \<in> set (directory_table t)\<close>
    by (auto simp: quiet_directories_def keeps_directories_def)
  ultimately show ?thesis using n a(2,3) t(2) by (auto simp: stored_directory_def)
qed

lemma UpdateDirectory_execution:
  assumes exec: "execution quiet_directories (UpdateDirectory_steps q tags (Some d)) s tr (Inr e) u" and inv: "store_inv s"
  shows "\<exists>t w v r. {t, w, v, u} \<subseteq> insert u (set tr) \<and> interference t v \<and> interference w v \<and>
    r \<in> set (directory_table t) \<and> parse_int64 (d_id d) = Some (dr_id r) \<and> dir_grants t tags Acl_WRITE (row_parts r) \<and>
    path_granted w tags (butlast (row_parts r)) \<and> UpdateDirectory d v = (Inr e, u)"
proof -
  have "d_id d \<noteq> []" using exec by (auto simp: UpdateDirectory_steps_def)
  then obtain tr1 res t1 tr2 where e: "execution quiet_directories (GetDirectoryByID_steps (d_id d)) s tr1 res t1" "tr = tr1 @ tr2"
    "execution quiet_directories (case res of Inl e \<Rightarrow> Done (Inl (store_failure Internal e))
       | Inr None \<Rightarrow> Done (Inl (Status NotFound None))
       | Inr (Some existing) \<Rightarrow> pbind (directoryWritable_steps existing tags) (\<lambda>writable.
           if \<not> writable then Done (Inl (Status PermissionDenied None))
           else pbind (transaction (UpdateDirectory d)) (\<lambda>res. case res of
                   Inl e \<Rightarrow> Done (Inl (store_failure
                        (if contains_str (error_text q e) ''does not match'' then InvalidArgument else Internal) e))
                 | Inr updated \<Rightarrow> Done (Inr updated)))) t1 tr2 (Inr e) u"
    using exec unfolding UpdateDirectory_steps_def by (auto simp: execution_pbind)
  then obtain existing where res: "res = Inr (Some existing)" by (auto split: sum.splits option.splits)
  obtain r where t1: "store_inv t1" "t1 \<in> set tr1" and r: "r \<in> set (directory_table t1)" "parse_int64 (d_id d) = Some (dr_id r)"
    "existing = stored_directory t1 r"
    using GetDirectoryByID_execution [OF e(1) [unfolded res] inv] by blast
  from e(3) [unfolded res sum.case option.case execution_pbind] obtain tra writable t2 trb where
    w: "execution quiet_directories (directoryWritable_steps existing tags) t1 tra writable t2" "tr2 = tra @ trb"
    "execution quiet_directories (if \<not> writable then Done (Inl (Status PermissionDenied None))
       else pbind (transaction (UpdateDirectory d)) (\<lambda>res. case res of
               Inl e \<Rightarrow> Done (Inl (store_failure
                    (if contains_str (error_text q e) ''does not match'' then InvalidArgument else Internal) e))
             | Inr updated \<Rightarrow> Done (Inr updated))) t2 trb (Inr e) u" by blast
  then have writable by (cases writable) simp_all
  have "d_path existing = dr_path r" by (simp add: r(3) stored_directory_def)
  with w(1) \<open>writable\<close> have "execution quiet_directories (pbind (pathReadable_steps (dr_path r) tags) (\<lambda>readable.
      if \<not> readable then Done False else Done (Directory_Allows (Some existing) tags Acl_WRITE))) t1 tra True t2"
    by (simp only: directoryWritable_steps_def)
  then have path: "execution quiet_directories (pathReadable_steps (dr_path r) tags) t1 tra True t2"
    and allow: "Directory_Allows (Some existing) tags Acl_WRITE"
    unfolding execution_pbind by (auto split: if_splits)
  have "execution quiet_directories (pbind (transaction (UpdateDirectory d)) (\<lambda>res. case res of
               Inl e \<Rightarrow> Done (Inl (store_failure
                    (if contains_str (error_text q e) ''does not match'' then InvalidArgument else Internal) e))
             | Inr updated \<Rightarrow> Done (Inr updated))) t2 trb (Inr e) u"
    using w(3) \<open>writable\<close> by (simp only: if_False not_True_eq_False simp_thms)
  from last_transaction [where h = "\<lambda>x. x", OF this]
  obtain v where v: "quiet_directories t2 v" "trb = [v]" "UpdateDirectory d v = (Inr e, u)" by auto
  obtain z where z: "z \<in> insert t2 (set tra)" "store_inv z" "pathReadable z (dr_path r) tags"
    using pathReadable_execution [OF path t1(1)] by blast
  have "\<forall>x \<in> insert t1 (insert t2 (set tra)). quiet_directories x t2"
    using path gates_write_nothing(1) quiet_directories_trans quiet_directories_refl by (rule execution_ordered)
  then have "interference t1 v" "interference z v"
    using z(1) quiet_directories_trans [OF _ v(1)] unfolding quiet_directories_def by blast+
  moreover have "t2 \<in> insert t1 (set tra)" using execution_read_only [OF path gates_write_nothing(1)] .
  then have "{t1, z, v, u} \<subseteq> insert u (set tr)" using t1(2) z(1) v(2) e(2) w(2) by auto
  moreover have "path_granted z tags (butlast (row_parts r))"
    using path_granted_readable [OF z(2,3)] by (simp add: row_parts_def)
  moreover have "dir_grants t1 tags Acl_WRITE (row_parts r)"
    using allow Directory_Allows_stored [OF store_inv_dirs [OF t1(1)] r(1)] by (simp add: r(3))
  ultimately show ?thesis using r(1,2) v(3) by blast
qed

text \<open>
  While other requests write, but no directory is deleted, an \<open>UpdateDirectory\<close> that is answered
  with success had its authority: before its one transaction the directory granted WRITE to the
  caller, and the path above it was granted.
\<close>

theorem update_directory_authorised_in_flight:
  assumes run: "(step_within keeps_directories q allowed)\<^sup>*\<^sup>* (s, ps) (s', ps')" and inv: "flight_inv (s, ps)"
    and j: "j < length ps" "ps ! j = request_steps q allowed tags now (UpdateDirectoryRequest (Some d))"
    and fin: "ps' ! j = Done (Inr (DirectoryResponse e))"
  shows "\<exists>t w v v' r. list_all (on_the_way (server_step q allowed) (s, ps) (s', ps')) [t, w, v, v'] \<and>
    interference t v \<and> interference w v \<and> r \<in> set (directory_table t) \<and> parse_int64 (d_id d) = Some (dr_id r) \<and>
    dir_grants t tags Acl_WRITE (row_parts r) \<and> path_granted w tags (butlast (row_parts r)) \<and> UpdateDirectory d v = (Inr e, v')"
proof -
  have sinv: "store_inv s" using inv by (simp add: flight_inv_def)
  obtain tr u where x: "execution quiet_directories (ps ! j) s tr (Inr (DirectoryResponse e)) u"
    and way: "\<And>t. t \<in> insert u (set tr) \<Longrightarrow> on_the_way (server_step q allowed) (s, ps) (s', ps') t"
    by (rule quiet_request [OF run inv j(1) fin]) (rule that)
  have "execution quiet_directories (UpdateDirectory_steps q tags (Some d)) s tr (Inr e) u"
    using x by (simp add: j(2) answer_execution)
  from UpdateDirectory_execution [OF this sinv] obtain t w v r where y: "{t, w, v, u} \<subseteq> insert u (set tr)"
    "interference t v" "interference w v" "r \<in> set (directory_table t)" "parse_int64 (d_id d) = Some (dr_id r)"
    "dir_grants t tags Acl_WRITE (row_parts r)" "path_granted w tags (butlast (row_parts r))" "UpdateDirectory d v = (Inr e, u)" by blast
  have "list_all (on_the_way (server_step q allowed) (s, ps) (s', ps')) [t, w, v, u]" using y(1) way by simp
  with y(2-) show ?thesis by blast
qed

definition is_directory_answer :: "(db, api_error + response) proc \<Rightarrow> bool" where
  "is_directory_answer p = (case p of Done (Inr (DirectoryResponse d)) \<Rightarrow> True | _ \<Rightarrow> False)"

lemma is_directory_answerE: assumes "is_directory_answer p" obtains d where "p = Done (Inr (DirectoryResponse d))"
  using assms by (auto simp: is_directory_answer_def split: proc.splits sum.splits response.splits)

text \<open>An update that another one overtakes.\<close>

theorem update_directory_authorised_in_flight_witness:
  "\<exists>s' ps' t v v' r. (server_step (\<lambda>x. x) [])\<^sup>*\<^sup>* (sample_db, [request_steps (\<lambda>x. x) [] [''tag:ops''] 9
       (UpdateDirectoryRequest (Some (Directory ''2'' [] [] [] [] [])))]) (s', ps') \<and>
     dir_grants t [''tag:ops''] Acl_WRITE (row_parts r) \<and> parse_int64 ''2'' = Some (dr_id r) \<and> interference t v \<and>
     UpdateDirectory (Directory ''2'' [] [] [] [] []) v = v'"
proof -
  let ?d = "Directory ''2'' [] [] [] [] []" and ?e = "Directory ''2'' [] [] [] [] [\<lparr>acl_level = Acl_WRITE, acl_tag = ''tag:dev'', acl_everyone = False\<rparr>]"
  let ?up = "request_steps (\<lambda>x. x) [] [''tag:ops''] 9 (UpdateDirectoryRequest (Some ?d))"
  let ?es = "[Run 0, Run 0, Arrive [''tag:ops''] 7 (UpdateDirectoryRequest (Some ?e)), Run 1, Run 1, Run 1, Run 1, Run 1, Run 0, Run 0, Run 0]"
  let ?c = "play (\<lambda>x. x) [] ?es (sample_db, [?up])"
  have ok: "stays keeps_directories (\<lambda>x. x) [] ?es (sample_db, [?up])" by code_simp
  then have run: "(step_within keeps_directories (\<lambda>x. x) [])\<^sup>*\<^sup>* (sample_db, [?up]) (fst ?c, snd ?c)"
    unfolding prod.collapse by (rule play_stays)
  have inv: "flight_inv (sample_db, [?up])" by (rule request_in_flight [OF sample_inv])
  have "is_directory_answer (snd ?c ! 0)" by code_simp
  then obtain e where fin: "snd ?c ! 0 = Done (Inr (DirectoryResponse e))" by (rule is_directory_answerE)
  have srv: "(server_step (\<lambda>x. x) [])\<^sup>*\<^sup>* (sample_db, [?up]) (fst ?c, snd ?c)" unfolding prod.collapse by (rule play_steps)
  have one: "0 < length [?up]" "[?up] ! 0 = ?up" by (simp, rule nth_Cons_0)
  have i: "d_id ?d = ''2''" by simp
  from update_directory_authorised_in_flight [OF run inv one fin] obtain t w v v' r where
    "interference t v" "parse_int64 (d_id ?d) = Some (dr_id r)" "dir_grants t [''tag:ops''] Acl_WRITE (row_parts r)"
    "UpdateDirectory ?d v = (Inr e, v')"
    by (elim exE conjE) (rule that)
  with srv show ?thesis unfolding i by (intro exI conjI)
qed

section \<open>Creating a directory\<close>

text \<open>
  The gate on a chain read in two queries: the longest directory of the path that was there at the
  first, with the entries it had at the second.
\<close>

lemma deepest_gate_in_flight:
  assumes it: "store_inv t" and iw: "store_inv w" and keep: "keeps_directories t w"
    and allow: "Directory_Allows (deepestExistingAncestor (map (stored_directory w) (selected_rows t [p]))) tags a"
  shows "deepest_dir t (clean_parts p) = [] \<or> dir_grants w tags a (deepest_dir t (clean_parts p))"
proof (cases "deepest_dir t (clean_parts p) = []")
  case False
  note okt = store_inv_dirs [OF it] and okw = store_inv_dirs [OF iw]
  let ?q = "deepest_dir t (clean_parts p)" and ?chain = "map (stored_directory w) (selected_rows t [p])"
  have q: "prefix ?q (clean_parts p)" "dir_tree t ?q \<noteq> None"
    "\<And>x. prefix x (clean_parts p) \<Longrightarrow> x \<noteq> [] \<Longrightarrow> dir_tree t x \<noteq> None \<Longrightarrow> prefix x ?q"
    using deepest_dir_spec [of t "clean_parts p"] False by blast+
  obtain x where x: "x \<in> set (directory_table t)" "row_parts x = ?q" using q(2) False by (auto simp: dir_tree_None)
  then have xin: "x \<in> set (selected_rows t [p])" using set_selected_rows [of t p] q(1) by simp
  then obtain d where d: "d \<in> set ?chain" "deepestExistingAncestor ?chain = Some d"
    "\<forall>y \<in> set ?chain. length (Directory_FullPath y) \<le> length (Directory_FullPath d)"
    using deepestExistingAncestor_spec [of ?chain] by (metis empty_iff list.map_disc_iff list.set(1))
  then obtain y where y: "y \<in> set (directory_table t)" "prefix (row_parts y) (clean_parts p)" "d = stored_directory w y"
    by (auto simp: set_selected_rows)
  have w: "x \<in> set (directory_table w)" "y \<in> set (directory_table w)" using x(1) y(1) keep by (auto simp: keeps_directories_def)
  have pre: "prefix (row_parts y) (row_parts x)" using q(3) [OF y(2)] dir_tree_row [OF okt y(1)] x(2) by simp
  have "length (abs_path (row_parts x)) \<le> length (abs_path (row_parts y))"
    using d(3) xin stored_directory_full_path [OF okw w(1)] stored_directory_full_path [OF okw w(2)] y(3) by auto
  moreover have "length (abs_path (row_parts y)) < length (abs_path (row_parts x))" if diff: "row_parts y \<noteq> row_parts x"
  proof -
    obtain zs where zs: "row_parts x = row_parts y @ zs" using pre by (auto simp: prefix_def)
    with diff have "zs \<noteq> []" by auto
    note zs = zs this
    then have "good_path zs" using good_row_parts [OF okt x(1)] by simp
    then show ?thesis using length_abs_path_append zs by simp
  qed
  ultimately have "row_parts y = row_parts x" by fastforce
  then have "dir_grants w tags a ?q"
    using allow Directory_Allows_stored [OF okw w(2)] by (simp add: d(2) y(3) x(2))
  then show ?thesis ..
qed simp

lemma CreateDirectory_execution:
  assumes exec: "execution quiet_directories (CreateDirectory_steps q allowed tags (Some d)) s tr (Inr e) u" and inv: "store_inv s"
  shows "\<exists>t w v. {t, w, v, u} \<subseteq> insert s (insert u (set tr)) \<and> interference t v \<and> interference w v \<and> canCreate allowed tags \<and>
    (deepest_dir t (clean_parts (d_path d)) = [] \<or> dir_grants w tags Acl_WRITE (deepest_dir t (clean_parts (d_path d)))) \<and>
    CreateDirectory d v = (Inr e, u)"
proof -
  let ?gate = "if d_path d \<noteq> [] \<and> d_path d \<noteq> ''/''
      then pbind (DirectoryChain_steps (d_path d)) (\<lambda>(chain, missing). Done (Directory_Allows (deepestExistingAncestor chain) tags Acl_WRITE))
      else Done True"
  have may: "canCreate allowed tags" "trim_space (d_name d) \<noteq> []"
    using exec by (auto simp: CreateDirectory_steps_def split: if_splits)
  then obtain tr1 permitted t1 tr2 where e: "execution quiet_directories ?gate s tr1 permitted t1" "tr = tr1 @ tr2"
    "execution quiet_directories (if \<not> permitted then Done (Inl (Status PermissionDenied None))
       else pbind (transaction (CreateDirectory d)) (\<lambda>res. case res of
             Inl e \<Rightarrow> Done (Inl (store_failure
                  (if contains_str (error_text q e) ''already exists'' then AlreadyExists else Internal) e))
           | Inr created \<Rightarrow> Done (Inr created))) t1 tr2 (Inr e) u"
    using exec unfolding CreateDirectory_steps_def by (simp only: option.case if_False not_True_eq_False simp_thms execution_pbind) (elim exE conjE, rule that)
  then have permitted by (cases permitted) simp_all
  with e(3) have "execution quiet_directories (pbind (transaction (CreateDirectory d)) (\<lambda>res. case res of
             Inl e \<Rightarrow> Done (Inl (store_failure
                  (if contains_str (error_text q e) ''already exists'' then AlreadyExists else Internal) e))
           | Inr created \<Rightarrow> Done (Inr created))) t1 tr2 (Inr e) u"
    by (simp only: if_False not_True_eq_False simp_thms)
  from last_transaction [where h = "\<lambda>x. x", OF this]
  obtain v where v: "quiet_directories t1 v" "tr2 = [v]" "CreateDirectory d v = (Inr e, u)" by auto
  have silent: "writes_by W ?gate" for W by (auto intro!: writes_by_pbind reads_write_nothing)
  have "\<forall>x \<in> insert s (insert t1 (set tr1)). quiet_directories x t1"
    using e(1) silent quiet_directories_trans quiet_directories_refl by (rule execution_ordered)
  then have before: "interference x v" if "x \<in> insert t1 (set tr1)" for x
    using that quiet_directories_trans [OF _ v(1)] unfolding quiet_directories_def by blast
  have t1: "t1 \<in> insert s (set tr1)" using execution_read_only [OF e(1) silent] .
  have gate: "\<exists>t \<in> insert t1 (set tr1). \<exists>w \<in> insert t1 (set tr1). deepest_dir t (clean_parts (d_path d)) = [] \<or>
      dir_grants w tags Acl_WRITE (deepest_dir t (clean_parts (d_path d)))"
  proof (cases "d_path d = [] \<or> d_path d = ''/''")
    case True
    then have "clean_parts (d_path d) = []" by auto
    then show ?thesis by (intro bexI [of _ t1]) simp_all
  next
    case False
    with e(1) \<open>permitted\<close> have "execution quiet_directories (pbind (DirectoryChain_steps (d_path d))
        (\<lambda>(chain, missing). Done (Directory_Allows (deepestExistingAncestor chain) tags Acl_WRITE))) s tr1 True t1" by simp
    then obtain chain missing where c: "execution quiet_directories (DirectoryChain_steps (d_path d)) s tr1 (chain, missing) t1"
      "Directory_Allows (deepestExistingAncestor chain) tags Acl_WRITE"
      unfolding execution_pbind by auto
    obtain t w where "{t, w} \<subseteq> insert t1 (set tr1)" "store_inv t" "store_inv w" "quiet_directories t w"
      "chain = map (stored_directory w) (selected_rows t [d_path d])"
      using chain_execution [OF c(1) inv] False by blast
    then show ?thesis using deepest_gate_in_flight [of t w "d_path d" tags Acl_WRITE] c(2) by (auto simp: quiet_directories_def)
  qed
  then obtain t w where t: "t \<in> insert t1 (set tr1)" and w: "w \<in> insert t1 (set tr1)"
    and grants: "deepest_dir t (clean_parts (d_path d)) = [] \<or> dir_grants w tags Acl_WRITE (deepest_dir t (clean_parts (d_path d)))" by blast
  have "{t, w, v, u} \<subseteq> insert s (insert u (set tr))" using t w t1 e(2) v(2) by auto
  with before [OF t] before [OF w] may(1) grants v(3) show ?thesis by (intro exI [of _ t] exI [of _ w] exI [of _ v] conjI)
qed

section \<open>Every write but the deletion of a directory\<close>

text \<open>
  The authority of a request, read in two parts at two times; read at one time it is \<open>authorised\<close>.
  What a directory is and where it lies is read at \<open>t\<close>.
\<close>

fun authorised_between :: "string list \<Rightarrow> string list \<Rightarrow> request \<Rightarrow> db \<Rightarrow> db \<Rightarrow> bool" where
  "authorised_between allowed tags (SetConfigRequest (Some c)) t w =
     ((if c_id c = [] then canCreate allowed tags else config_grants t tags Acl_WRITE (c_id c)) \<and>
      config_path_ok (directory_table w) (c_path c) \<and> path_gate w tags Acl_WRITE (c_path c))"
| "authorised_between allowed tags (DeleteConfigRequest i) t w = config_grants t tags Acl_WRITE i"
| "authorised_between allowed tags (CreateDirectoryRequest (Some d)) t w =
     (canCreate allowed tags \<and> (deepest_dir t (clean_parts (d_path d)) = [] \<or> dir_grants w tags Acl_WRITE (deepest_dir t (clean_parts (d_path d)))))"
| "authorised_between allowed tags (UpdateDirectoryRequest (Some d)) t w =
     (\<exists>r \<in> set (directory_table t). parse_int64 (d_id d) = Some (dr_id r) \<and>
       dir_grants t tags Acl_WRITE (row_parts r) \<and> path_granted w tags (butlast (row_parts r)))"
| "authorised_between allowed tags _ t w = False"

lemma authorised_at_once:
  "\<forall>i. req \<noteq> DeleteDirectoryRequest i \<Longrightarrow> authorised_between allowed tags req s s \<longleftrightarrow> authorised allowed tags req s"
proof (cases req)
  case (SetConfigRequest c)
  then show ?thesis by (cases c) simp_all
next
  case (CreateDirectoryRequest d)
  then show ?thesis by (cases d) (simp_all add: extendable_def)
next
  case (UpdateDirectoryRequest d)
  then show ?thesis by (cases d) (auto simp: directory_modifiable_def)
qed simp_all

text \<open>The one transaction of a request.\<close>

fun written :: "int \<Rightarrow> request \<Rightarrow> db \<Rightarrow> db \<Rightarrow> bool" where
  "written now (SetConfigRequest (Some c)) v v' \<longleftrightarrow> (\<exists>e. Upsert c now v = (Inr e, v'))"
| "written now (DeleteConfigRequest i) v v' \<longleftrightarrow> Delete i v = (Inr (), v')"
| "written now (CreateDirectoryRequest (Some d)) v v' \<longleftrightarrow> (\<exists>e. CreateDirectory d v = (Inr e, v'))"
| "written now (UpdateDirectoryRequest (Some d)) v v' \<longleftrightarrow> (\<exists>e. UpdateDirectory d v = (Inr e, v'))"
| "written now _ v v' \<longleftrightarrow> False"

fun writing :: "request \<Rightarrow> bool" where
  "writing (SetConfigRequest (Some c)) \<longleftrightarrow> True"
| "writing (DeleteConfigRequest i) \<longleftrightarrow> True"
| "writing (CreateDirectoryRequest (Some d)) \<longleftrightarrow> True"
| "writing (UpdateDirectoryRequest (Some d)) \<longleftrightarrow> True"
| "writing _ \<longleftrightarrow> False"

lemma DeleteConfig_quiet:
  assumes "execution quiet_directories (DeleteConfig_steps tags i) s tr (Inr ()) u" and "store_inv s"
  shows "\<exists>t v. {t, v, u} \<subseteq> insert u (set tr) \<and> interference t v \<and> config_grants t tags Acl_WRITE i \<and> Delete i v = (Inr (), u)"
  by (rule DeleteConfig_execution [OF execution_mono [OF assms(1)] assms(2)]) (simp add: quiet_directories_def)

lemma writing_execution:
  assumes exec: "execution quiet_directories (request_steps q allowed tags now req) s tr (Inr resp) u" and inv: "store_inv s" and "writing req"
  shows "\<exists>t w v. {t, w, v, u} \<subseteq> insert s (insert u (set tr)) \<and> interference t v \<and> interference w v \<and>
    authorised_between allowed tags req t w \<and> written now req v u"
proof (cases req)
  case (SetConfigRequest c)
  then obtain x e where c: "c = Some x" "execution quiet_directories (SetConfig_steps allowed tags (Some x) now) s tr (Inr e) u"
    using exec assms(3) by (cases c) (auto simp: answer_execution)
  from SetConfig_execution [OF c(2) inv] show ?thesis unfolding SetConfigRequest c(1) authorised_between.simps written.simps by blast
next
  case (DeleteConfigRequest i)
  then have "execution quiet_directories (DeleteConfig_steps tags i) s tr (Inr ()) u" using exec by (simp add: answer_execution)
  from DeleteConfig_quiet [OF this inv] show ?thesis by (auto simp: DeleteConfigRequest)
next
  case (CreateDirectoryRequest d)
  then obtain x e where d: "d = Some x" "execution quiet_directories (CreateDirectory_steps q allowed tags (Some x)) s tr (Inr e) u"
    using exec assms(3) by (cases d) (auto simp: answer_execution)
  from CreateDirectory_execution [OF d(2) inv] show ?thesis
    unfolding CreateDirectoryRequest d(1) authorised_between.simps written.simps by (elim exE conjE) (intro exI conjI; assumption)
next
  case (UpdateDirectoryRequest d)
  then obtain x e where d: "d = Some x" "execution quiet_directories (UpdateDirectory_steps q tags (Some x)) s tr (Inr e) u"
    using exec assms(3) by (cases d) (auto simp: answer_execution)
  from UpdateDirectory_execution [OF d(2) inv] show ?thesis
    unfolding UpdateDirectoryRequest d(1) authorised_between.simps written.simps by (elim exE conjE) (intro exI conjI bexI; (assumption | blast))
qed (use assms(3) in simp_all)



end
