(* ===== verification/ApiListing.thy ===== *)
theory ApiListing
  imports ApiQuiet
begin

text \<open>
  \<open>List\<close> of \<open>internal/api/server.go\<close> while other requests write: its tree is put together from four
  queries, so it need not be the tree of any one database, but as long as no directory is deleted
  nothing is in it that was not granted.
\<close>

section \<open>The tree shows no more than it is given\<close>

lemma readable_fold_sound:
  assumes inv: "store_inv w" and sub: "set rows \<subseteq> set (directory_table w)"
  shows "readable_fold tags (map (stored_directory w) rows) p \<Longrightarrow> path_granted w tags (clean_parts p)"
  using sub
proof (induction rows arbitrary: p rule: rev_induct)
  case Nil
  then show ?case by (auto simp: readable_fold_def)
next
  case (snoc r rows)
  note ok = store_inv_dirs [OF inv]
  have r: "r \<in> set (directory_table w)" "set rows \<subseteq> set (directory_table w)" using snoc.prems(2) by simp_all
  let ?marks = "readable_fold tags (map (stored_directory w) rows)"
  have step: "readable_fold tags (map (stored_directory w) (rows @ [r])) =
      ?marks(abs_path (row_parts r) := ?marks (dr_path r) \<and> dir_grants w tags Acl_READ (row_parts r))"
    by (simp add: readable_fold_def readable_step_def stored_directory_full_path [OF ok r(1)]
        Directory_Allows_stored [OF ok r(1)]) (simp add: stored_directory_def)
  show ?case
  proof (cases "p = abs_path (row_parts r)")
    case True
    then have "?marks (dr_path r)" "dir_grants w tags Acl_READ (row_parts r)" using snoc.prems(1) unfolding step by simp_all
    with snoc.IH r(2) have "path_granted w tags (clean_parts (dr_path r) @ [dr_name r])"
      by (simp add: path_granted_snoc row_parts_def)
    with True good_row_parts [OF ok r(1)] show ?thesis by (simp add: row_parts_def)
  next
    case False
    then show ?thesis using snoc.IH [OF _ r(2)] snoc.prems(1) unfolding step by simp
  qed
qed

lemma readableDirectories_sound:
  assumes "store_inv w" and "set rows \<subseteq> set (directory_table w)" and "readableDirectories (map (stored_directory w) rows) tags p"
  shows "path_granted w tags (clean_parts p)"
  using readable_fold_sound [OF assms(1)] assms(2,3) unfolding readableDirectories_def sort_key_map by (metis set_sort)

lemma tree_loop_steps_sound:
  "tree_loop_steps D readable tags pre acls cs configs = Inr out \<Longrightarrow> c \<in> set out \<Longrightarrow> c \<in> set configs \<or>
     (\<exists>x \<in> set cs. c = config_of_select (acls (cr_id (sel_row x))) x \<and> acls_grant (acls (cr_id (sel_row x))) tags Acl_READ \<and>
       readable (cr_path (sel_row x)))"
proof (induction D readable tags pre acls cs configs rule: tree_loop_steps.induct)
  case (2 D readable tags pre acls x cs configs)
  let ?c = "config_of_select (acls (cr_id (sel_row x))) x"
  have acls: "c_acls ?c = acls (cr_id (sel_row x))" by (simp add: config_of_select_def Let_def)
  from 2(5,6) 2(1-4) [OF refl] show ?case
    by (auto simp: Let_def Config_Allows_def acls split: if_splits)
qed simp

lemma those_member: "those xs = Some ys \<Longrightarrow> y \<in> set ys \<Longrightarrow> Some y \<in> set xs"
  by (induction xs arbitrary: ys) (auto split: option.splits)

lemma populate_sound:
  "populateDirectory fuel d ds cs = Some t \<Longrightarrow> (\<And>x. x \<in> insert d (set ds) \<Longrightarrow> d_directories x = [] \<and> d_configs x = []) \<Longrightarrow>
     set (tree_configs t) \<subseteq> set cs \<and> (\<forall>x \<in> set (tree_nodes t). Directory_FullPath x \<in> Directory_FullPath ` insert d (set ds))"
proof (induction fuel d ds cs arbitrary: t rule: populateDirectory.induct)
  case (2 fuel d ds cs)
  let ?kids = "filter (\<lambda>child. d_path child = Directory_FullPath d) ds"
  let ?own = "filter (\<lambda>c. rootNormalised (c_path c) = Directory_FullPath d) cs"
  obtain copies where copies: "those (map (\<lambda>child. populateDirectory fuel child ds cs) ?kids) = Some copies"
    and t: "t = Directory (d_id d) (d_name d) (d_path d) copies ?own (d_acls d)"
    using 2(2,3) by (auto simp: Let_def)
  have kid: "set (tree_configs x) \<subseteq> set cs \<and> (\<forall>y \<in> set (tree_nodes x). Directory_FullPath y \<in> Directory_FullPath ` insert d (set ds))"
    if x: "x \<in> set copies" for x
  proof -
    obtain z where z: "z \<in> set ?kids" "populateDirectory fuel z ds cs = Some x"
      using those_member [OF copies x] by auto
    with 2(1) [OF refl refl _ z(2)] 2(3) show ?thesis by fastforce
  qed
  have "Directory_FullPath t = Directory_FullPath d" by (simp add: t Directory_FullPath_def)
  with kid show ?case by (auto simp: t)
qed simp

section \<open>The four queries\<close>

lemma all_directories_execution:
  assumes exec: "execution quiet_directories allDirectoriesWithACLs_steps s tr dirs u" and inv: "store_inv s"
  shows "store_inv u \<and> (\<exists>w rows. w \<in> set tr \<and> store_inv w \<and> dirs = map (stored_directory w) rows \<and> set rows \<subseteq> set (directory_table w))"
proof -
  obtain t tr1 A v where e: "quiet_directories s t" "tr = [t] @ tr1"
    "execution quiet_directories (loadACLs_steps Directory_acl (map dr_id (sort_key dr_path (directory_table t)))) t tr1 A v"
    and dirs: "dirs = map (\<lambda>r. directory_of_row (A (dr_id r)) r) (sort_key dr_path (directory_table t))" and uv: "u = v"
    using exec unfolding allDirectoriesWithACLs_steps_def execution_pbind execution_querier by auto
  let ?rows = "sort_key dr_path (directory_table t)"
  have it: "store_inv t" using inv e(1) quiet_directories_inv by blast
  show ?thesis
  proof (cases "?rows = []")
    case True
    then have "loadACLs_steps Directory_acl (map dr_id ?rows) = Done (\<lambda>_. [])" by (simp add: loadACLs_steps_def)
    with e(3) uv have "u = t" by simp
    with True show ?thesis using dirs it e(2) by (intro conjI exI [of _ t] exI [of _ "[]"]) simp_all
  next
    case False
    then have "map dr_id ?rows \<noteq> []" unfolding map_is_Nil_conv .
    from e(3) [unfolded loadACLs_execution [OF this]] have v: "quiet_directories t v" "A = loadACLs Directory_acl v (map dr_id ?rows)" "tr1 = [v]" by blast+
    have iv: "store_inv v" using it v(1) quiet_directories_inv by blast
    have "dirs = map (stored_directory v) ?rows"
      unfolding dirs v(2) by (intro map_cong refl) (simp add: stored_directory_def acls_loaded [OF store_inv_dir_acls [OF iv]])
    moreover have "set ?rows \<subseteq> set (directory_table v)" using v(1) by (simp add: quiet_directories_def keeps_directories_def)
    moreover have "v \<in> set tr" using e(2) v(3) by simp
    ultimately show ?thesis using iv uv by blast
  qed
qed

text \<open>A listed config: its row of one database, with entries of a later one that grant READ.\<close>

definition listed :: "db \<Rightarrow> db \<Rightarrow> db \<Rightarrow> string list \<Rightarrow> config \<Rightarrow> bool" where
  "listed w t t' tags c \<longleftrightarrow> (\<exists>r \<in> set (config_table t). c = config_of_row t (aclsForOwner Config_acl t' (cr_id r)) r \<and>
     acls_grant (aclsForOwner Config_acl t' (cr_id r)) tags Acl_READ \<and> path_granted w tags (clean_parts (cr_path r)))"

lemma tree_execution:
  assumes exec: "execution quiet_directories (TreeForACLTags_steps tags pre) s tr (Inr T) u" and inv: "store_inv s"
  shows "\<exists>w t t'. {w, t, t'} \<subseteq> insert u (set tr) \<and> interference t t' \<and> (\<forall>c \<in> set (tree_configs T). listed w t t' tags c) \<and>
    (\<forall>x \<in> set (tree_nodes T). path_granted w tags (clean_parts (Directory_FullPath x)))"
proof -
  obtain tr1 dirs s1 tr2 where e1: "execution quiet_directories allDirectoriesWithACLs_steps s tr1 dirs s1" "tr = tr1 @ tr2"
    "execution quiet_directories (pbind (querier (\<lambda>s. map (select_config s) (tree_rows s pre))) (\<lambda>cs.
        pbind (loadACLs_steps Config_acl (map (\<lambda>c. cr_id (sel_row c)) cs)) (\<lambda>aclsByConfig.
          Done (case tree_loop_steps (set (map Directory_FullPath dirs)) (readableDirectories dirs tags) tags pre aclsByConfig cs [] of
                  Inl e \<Rightarrow> Inl e
                | Inr configs \<Rightarrow>
                    (case populateDirectory (Suc (length dirs)) tree_root (filter (\<lambda>d. readableDirectories dirs tags (Directory_FullPath d)) dirs) configs of
                          None \<Rightarrow> Inl NotReturning
                        | Some treeRoot \<Rightarrow> Inr treeRoot))))) s1 tr2 (Inr T) u"
    using execution_pbind [THEN iffD1, OF exec [unfolded TreeForACLTags_steps_def Let_def]] by (elim exE conjE) (rule that)
  let ?readable = "readableDirectories dirs tags"
  obtain w rows where w: "w \<in> set tr1" "store_inv w" "dirs = map (stored_directory w) rows" "set rows \<subseteq> set (directory_table w)"
    and inv1: "store_inv s1" using all_directories_execution [OF e1(1) inv] by blast
  obtain t tr3 A v where t: "quiet_directories s1 t" "tr2 = [t] @ tr3"
    "execution quiet_directories (loadACLs_steps Config_acl (map (\<lambda>c. cr_id (sel_row c)) (map (select_config t) (tree_rows t pre)))) t tr3 A u"
    and out: "Inr T = (case tree_loop_steps (set (map Directory_FullPath dirs)) ?readable tags pre A (map (select_config t) (tree_rows t pre)) [] of
                  Inl e \<Rightarrow> Inl e
                | Inr configs \<Rightarrow> (case populateDirectory (Suc (length dirs)) tree_root (filter (\<lambda>d. ?readable (Directory_FullPath d)) dirs) configs of
                          None \<Rightarrow> Inl NotReturning
                        | Some treeRoot \<Rightarrow> Inr treeRoot))"
    using e1(3) unfolding Let_def execution_pbind execution_querier by auto
  from out obtain configs where loop: "tree_loop_steps (set (map Directory_FullPath dirs)) ?readable tags pre A (map (select_config t) (tree_rows t pre)) [] = Inr configs"
    and tree: "populateDirectory (Suc (length dirs)) tree_root (filter (\<lambda>d. ?readable (Directory_FullPath d)) dirs) configs = Some T"
    by (auto split: sum.splits option.splits)
  have "d_directories x = [] \<and> d_configs x = []" if "x \<in> insert tree_root (set (filter (\<lambda>d. ?readable (Directory_FullPath d)) dirs))" for x
    using that by (auto simp: w(3) tree_root_def stored_directory_def directory_of_row_def)
  from populate_sound [OF tree this] have inc: "set (tree_configs T) \<subseteq> set configs"
    "\<forall>x \<in> set (tree_nodes T). Directory_FullPath x \<in> Directory_FullPath ` insert tree_root (set (filter (\<lambda>d. ?readable (Directory_FullPath d)) dirs))"
    by blast+
  have sound: "path_granted w tags (clean_parts p)" if "?readable p" for p
    using readableDirectories_sound [OF w(2,4)] that unfolding w(3) .
  have root: "clean_parts (Directory_FullPath tree_root) = []" by code_simp
  have nodes: "path_granted w tags (clean_parts (Directory_FullPath x))" if "x \<in> set (tree_nodes T)" for x
    using inc(2) that sound root by auto
  have member: "\<exists>r \<in> set (tree_rows t pre). c = config_of_row t (A (cr_id r)) r \<and> acls_grant (A (cr_id r)) tags Acl_READ \<and>
      path_granted w tags (clean_parts (cr_path r))" if "c \<in> set (tree_configs T)" for c
    using tree_loop_steps_sound [OF loop, of c] inc(1) that sound by auto
  obtain t' where t': "t' \<in> insert u (set tr)" "interference t t'" "\<forall>r \<in> set (tree_rows t pre). A (cr_id r) = aclsForOwner Config_acl t' (cr_id r)"
  proof (cases "tree_rows t pre = []")
    case True
    then show thesis using that [of t] e1(2) t(2) by simp
  next
    case False
    then have "map (\<lambda>c. cr_id (sel_row c)) (map (select_config t) (tree_rows t pre)) \<noteq> []" by simp
    from t(3) [unfolded loadACLs_execution [OF this]] have u: "quiet_directories t u"
      "A = loadACLs Config_acl u (map (\<lambda>c. cr_id (sel_row c)) (map (select_config t) (tree_rows t pre)))" by blast+
    have ids: "map (\<lambda>c. cr_id (sel_row c)) (map (select_config t) (tree_rows t pre)) = map cr_id (tree_rows t pre)" by simp
    have "store_inv u" using inv1 t(1) u(1) quiet_directories_inv by blast
    then have "acl_rows_ok (config_acl_table u)" by (simp add: store_inv_def acls_owned_def)
    then have "\<forall>r \<in> set (tree_rows t pre). A (cr_id r) = aclsForOwner Config_acl u (cr_id r)"
      unfolding u(2) ids using loaded_config_acls by blast
    then show thesis using that [of u] u(1) by (simp add: quiet_directories_def)
  qed
  have "listed w t t' tags c" if "c \<in> set (tree_configs T)" for c
    using member [OF that] t'(3) tree_rows_sub [of t pre] unfolding listed_def by fastforce
  moreover have "{w, t, t'} \<subseteq> insert u (set tr)" using w(1) e1(2) t(2) t'(1) by simp
  ultimately show ?thesis using t'(2) nodes by blast
qed

section \<open>The handler\<close>

lemma subtree_sound:
  "x \<in> set (tree_nodes t) \<Longrightarrow> set (tree_configs x) \<subseteq> set (tree_configs t) \<and> set (tree_nodes x) \<subseteq> set (tree_nodes t)"
proof (induction t rule: tree_nodes.induct)
  case (1 i n p ds cs acls)
  then show ?case by fastforce
qed

lemma findDirectory_sound:
  assumes "findDirectory i t = Some x"
  shows "set (tree_configs x) \<subseteq> set (tree_configs t)" and "set (tree_nodes x) \<subseteq> set (tree_nodes t)"
proof -
  have "x \<in> set (tree_nodes t)" using findDirectory_Some(1) [OF assms] by (cases t) auto
  from subtree_sound [OF this] show "set (tree_configs x) \<subseteq> set (tree_configs t)" "set (tree_nodes x) \<subseteq> set (tree_nodes t)" by blast+
qed

lemma List_execution:
  assumes exec: "execution quiet_directories (List_steps tags i) s tr (Inr (Some d)) u" and inv: "store_inv s"
  shows "\<exists>w t t'. {w, t, t'} \<subseteq> insert u (set tr) \<and> interference t t' \<and> (\<forall>c \<in> set (tree_configs d). listed w t t' tags c) \<and>
    (\<forall>x \<in> set (tree_nodes d). path_granted w tags (clean_parts (Directory_FullPath x)))"
proof -
  let ?find = "if i \<noteq> []
            then pbind (GetDirectoryByID_steps i) (\<lambda>res. case res of
                    Inl e \<Rightarrow> Done (Inl (store_failure Internal e))
                  | Inr None \<Rightarrow> Done (Inl (Status NotFound None))
                  | Inr (Some d) \<Rightarrow> Done (Inr (Some d)))
            else Done (Inr None)"
  obtain tr1 found s1 tr2 where e: "execution quiet_directories ?find s tr1 found s1" "tr = tr1 @ tr2"
    "execution quiet_directories (case found of
       Inl e \<Rightarrow> Done (Inl e)
     | Inr directory \<Rightarrow>
         pbind (TreeForACLTags_steps tags (case directory of None \<Rightarrow> [] | Some d \<Rightarrow> Directory_FullPath d)) (\<lambda>res. case res of
             Inl e \<Rightarrow> Done (Inl (store_failure Internal e))
           | Inr dir \<Rightarrow> Done (Inr (case directory of None \<Rightarrow> Some dir | Some d \<Rightarrow> findDirectory (d_id d) dir)))) s1 tr2 (Inr (Some d)) u"
    using exec unfolding List_steps_def execution_pbind by (elim exE conjE) (rule that)
  obtain directory where found: "found = Inr directory" using e(3) by (cases found) simp_all
  have "writes_by quiet_directories ?find"
    by (auto intro!: writes_by_pbind reads_write_nothing split: sum.split option.split)
  with e(1) have "\<forall>x \<in> insert s (insert s1 (set tr1)). quiet_directories x s1"
    using quiet_directories_trans quiet_directories_refl by (rule execution_ordered)
  then have inv1: "store_inv s1" using inv quiet_directories_inv by blast
  from e(3) [unfolded found sum.case execution_pbind] obtain tr3 res s2 tr4 where
    t: "execution quiet_directories (TreeForACLTags_steps tags (case directory of None \<Rightarrow> [] | Some d \<Rightarrow> Directory_FullPath d)) s1 tr3 res s2" "tr2 = tr3 @ tr4"
    "execution quiet_directories (case res of
             Inl e \<Rightarrow> Done (Inl (store_failure Internal e))
           | Inr dir \<Rightarrow> Done (Inr (case directory of None \<Rightarrow> Some dir | Some d \<Rightarrow> findDirectory (d_id d) dir))) s2 tr4 (Inr (Some d)) u" by blast
  obtain T where T: "res = Inr T" using t(3) by (cases res) simp_all
  have out: "(case directory of None \<Rightarrow> Some T | Some d \<Rightarrow> findDirectory (d_id d) T) = Some d" "u = s2"
    using t(3) by (simp_all add: T)
  have sub: "set (tree_configs d) \<subseteq> set (tree_configs T)" "set (tree_nodes d) \<subseteq> set (tree_nodes T)"
    using out(1) findDirectory_sound [of _ T d] by (auto split: option.splits)
  obtain w x y where y: "{w, x, y} \<subseteq> insert s2 (set tr3)" "interference x y" "\<forall>c \<in> set (tree_configs T). listed w x y tags c"
    "\<forall>x \<in> set (tree_nodes T). path_granted w tags (clean_parts (Directory_FullPath x))"
    using tree_execution [OF t(1) [unfolded T] inv1] by blast
  have "{w, x, y} \<subseteq> insert u (set tr)" using y(1) e(2) t(2) out(2) by auto
  moreover have "\<forall>c \<in> set (tree_configs d). listed w x y tags c" using y(3) sub(1) by blast
  moreover have "\<forall>x \<in> set (tree_nodes d). path_granted w tags (clean_parts (Directory_FullPath x))" using y(4) sub(2) by blast
  ultimately show ?thesis using y(2) by (intro exI [of _ w] exI [of _ x] exI [of _ y] conjI)
qed

text \<open>
  C14: While other requests write, but no directory is deleted, \<open>List\<close> hands out nothing that was not
  granted, although no database need have held the tree it answers with: there is one database of
  the time by which every listed directory, and the path of every listed config, was granted to the
  caller, and each listed config is a row of another with the entries of a later one, which grant
  READ.
\<close>

theorem list_granted_in_flight:
  assumes run: "(step_within keeps_directories q allowed)\<^sup>*\<^sup>* (s, ps) (s', ps')" and inv: "flight_inv (s, ps)"
    and j: "j < length ps" "ps ! j = request_steps q allowed tags now (ListRequest i)"
    and fin: "ps' ! j = Done (Inr (ListResponse (Some d)))"
  shows "\<exists>w t t'. list_all (on_the_way (server_step q allowed) (s, ps) (s', ps')) [w, t, t'] \<and> interference t t' \<and>
    (\<forall>c \<in> set (tree_configs d). listed w t t' tags c) \<and>
    (\<forall>x \<in> set (tree_nodes d). path_granted w tags (clean_parts (Directory_FullPath x)))"
proof -
  have sinv: "store_inv s" using inv by (simp add: flight_inv_def)
  obtain tr u where x: "execution quiet_directories (ps ! j) s tr (Inr (ListResponse (Some d))) u"
    and way: "\<And>t. t \<in> insert u (set tr) \<Longrightarrow> on_the_way (server_step q allowed) (s, ps) (s', ps') t"
    by (rule quiet_request [OF run inv j(1) fin]) (rule that)
  have "execution quiet_directories (List_steps tags i) s tr (Inr (Some d)) u"
    using x by (simp add: j(2) answer_execution)
  from List_execution [OF this sinv] obtain w t t' where y: "{w, t, t'} \<subseteq> insert u (set tr)" "interference t t'"
    "\<forall>c \<in> set (tree_configs d). listed w t t' tags c"
    "\<forall>x \<in> set (tree_nodes d). path_granted w tags (clean_parts (Directory_FullPath x))" by blast
  have "list_all (on_the_way (server_step q allowed) (s, ps) (s', ps')) [w, t, t']" using y(1) way by simp
  with y(2-) show ?thesis by blast
qed

definition is_list_answer :: "(db, api_error + response) proc \<Rightarrow> bool" where
  "is_list_answer p = (case p of Done (Inr (ListResponse (Some d))) \<Rightarrow> length (tree_configs d) = 1 | _ \<Rightarrow> False)"

lemma is_list_answerE: assumes "is_list_answer p" obtains d where "p = Done (Inr (ListResponse (Some d)))" "length (tree_configs d) = 1"
  using assms by (auto simp: is_list_answer_def split: proc.splits sum.splits response.splits option.splits)

text \<open>A listing during which another request creates a second config.\<close>

theorem list_granted_in_flight_witness:
  "\<exists>s' ps' d c w t t'. (server_step (\<lambda>x. x) [])\<^sup>*\<^sup>* (sample_db, [request_steps (\<lambda>x. x) [] [''tag:dev''] 0 (ListRequest [])]) (s', ps') \<and>
     ps' ! 0 = Done (Inr (ListResponse (Some d))) \<and> c \<in> set (tree_configs d) \<and> listed w t t' [''tag:dev''] c \<and>
     length (config_table s') = 2"
proof -
  let ?list = "request_steps (\<lambda>x. x) [] [''tag:dev''] 0 (ListRequest [])"
  let ?new = "sample_config\<lparr>c_name := ''new'', c_path := ''/team/docs''\<rparr>"
  let ?es = "[Run 0, Run 0, Run 0, Arrive [''tag:ops''] 7 (SetConfigRequest (Some ?new)), Run 1, Run 1, Run 1, Run 0]"
  let ?c = "play (\<lambda>x. x) [] ?es (sample_db, [?list])"
  have ok: "stays keeps_directories (\<lambda>x. x) [] ?es (sample_db, [?list])" by code_simp
  then have run: "(step_within keeps_directories (\<lambda>x. x) [])\<^sup>*\<^sup>* (sample_db, [?list]) (fst ?c, snd ?c)"
    unfolding prod.collapse by (rule play_stays)
  have inv: "flight_inv (sample_db, [?list])" by (rule request_in_flight [OF sample_inv])
  have "is_list_answer (snd ?c ! 0)" by code_simp
  then obtain d where fin: "snd ?c ! 0 = Done (Inr (ListResponse (Some d)))" and one_config: "length (tree_configs d) = 1" by (rule is_list_answerE)
  from one_config obtain c where c: "c \<in> set (tree_configs d)" by (cases "tree_configs d") auto
  have two: "length (config_table (fst ?c)) = 2" by code_simp
  have srv: "(server_step (\<lambda>x. x) [])\<^sup>*\<^sup>* (sample_db, [?list]) (fst ?c, snd ?c)" unfolding prod.collapse by (rule play_steps)
  have one: "0 < length [?list]" "[?list] ! 0 = ?list" by (simp, rule nth_Cons_0)
  from list_granted_in_flight [OF run inv one fin] obtain w t t' where "\<forall>c \<in> set (tree_configs d). listed w t t' [''tag:dev''] c"
    by (elim exE conjE) (rule that)
  with c have "listed w t t' [''tag:dev''] c" by blast
  with srv fin c two show ?thesis by (intro exI conjI)
qed

end
