(* ===== verification/FsInodes.thy ===== *)
theory FsInodes
  imports FsFiles
begin

text \<open>
  The inode numbers the mount of \<open>internal/fs/fs.go\<close> hands to the kernel: \<open>Attr\<close> of a directory and
  of a file, over everything a loaded snapshot shows.
\<close>

section \<open>Numbers of ids\<close>

lemma inode_of_shown: "0 < n \<Longrightarrow> n \<le> max_id \<Longrightarrow> inode_of_id (show_int n) = word_of_int n"
  using parse_uint64_show [of n] by (simp add: inode_of_id_def show_int_def max_id_def)

lemma word_of_id_eq:
  assumes "0 < m" "m \<le> max_id" "0 < n" "n \<le> max_id"
  shows "(word_of_int m = (word_of_int n :: 64 word)) = (m = n)" and "(word_of_int m :: 64 word) \<noteq> 0"
proof -
  have u: "uint (word_of_int k :: 64 word) = k" if "0 < k" "k \<le> max_id" for k
    using that by (simp add: uint_word_of_int max_id_def)
  from u assms show "(word_of_int m = (word_of_int n :: 64 word)) = (m = n)" by metis
  from u [of m] assms show "(word_of_int m :: 64 word) \<noteq> 0" by (metis less_irrefl uint_0_iff)
qed

lemma id_in_range:
  assumes "store_inv s"
  shows "r \<in> set (directory_table s) \<Longrightarrow> 0 < dr_id r \<and> dr_id r \<le> max_id" and "c \<in> set (config_table s) \<Longrightarrow> 0 < cr_id c \<and> cr_id c \<le> max_id"
  using assms by (auto simp: store_inv_def ids_bounded_def)

section \<open>The nodes of a loaded snapshot\<close>

definition node_inode :: "fs_options option \<Rightarrow> 's world \<Rightarrow> node \<Rightarrow> 64 word" where
  "node_inode opts w n = (case n of
     DirNode path \<Rightarrow> a_Inode (Dir_Attr opts w path zero_attr)
   | ConfigNode i \<Rightarrow> a_Inode (Config_Attr opts w i zero_attr))"

text \<open>A node the mount shows.\<close>

definition shown :: "'s world \<Rightarrow> node \<Rightarrow> bool" where
  "shown w n = (case n of
     DirNode path \<Rightarrow> (\<exists>ps. good_path ps \<and> path = abs_path ps) \<and> Snapshot_Directory (snap w) path \<noteq> None
   | ConfigNode i \<Rightarrow> Snapshot_Config (snap w) i \<noteq> None)"

lemma node_inode_eq:
  "node_inode opts w (DirNode p) = Directory_NumericalInode (Snapshot_Directory (snap w) p)"
  "node_inode opts w (ConfigNode i) = Config_NumericalInode (Snapshot_Config (snap w) i)"
  by (simp_all add: node_inode_def Dir_Attr_def Config_Attr_def Let_def split: option.split)

text \<open>What stands behind each node: the root, a directory row or a config row.\<close>

lemma shown_directory:
  assumes inv: "store_inv (server w)" and res: "Refresh (api_client q allowed tags now) w = (r, w')" and "shown w' (DirNode p)"
  shows "p = ''/'' \<and> node_inode opts w' (DirNode p) = 0 \<or>
    (\<exists>r \<in> set (directory_table (server w)). p = abs_path (row_parts r) \<and> node_inode opts w' (DirNode p) = word_of_int (dr_id r))"
proof -
  obtain t where t: "w' = w\<lparr>snap := snapshot_of t\<rparr>" "d_id t = ''0''"
    "populated (granted_directories (server w) tags) (visible_configs (server w) tags []) [] t"
    "\<forall>x \<in> set (tree_nodes t). x = t \<or> (\<exists>r \<in> set (granted_directories (server w) tags).
       node_of (server w) (granted_directories (server w) tags) (visible_configs (server w) tags []) r x)"
    using Refresh_view [OF inv res] by metis
  obtain ps z where ps: "good_path ps" "p = abs_path ps" and z: "Snapshot_Directory (snap w') p = Some z"
    using assms(3) by (auto simp: shown_def)
  have n: "node_inode opts w' (DirNode p) = inode_of_id (d_id z)"
    by (simp add: node_inode_eq z Directory_NumericalInode_def)
  have zt: "z \<in> set (tree_nodes t)" "Directory_FullPath z = p"
    using z by (auto simp: t(1) Snapshot_Directory_def snapshot_of_def find_Some_iff)
  from t(4) zt(1) show ?thesis
  proof (elim ballE disjE bexE)
    assume "z = t"
    moreover have "inode_of_id ''0'' = 0" by code_simp
    ultimately show ?thesis using n t(2,3) zt(2) by (simp add: populated_def)
  next
    fix y assume y: "y \<in> set (granted_directories (server w) tags)"
      "node_of (server w) (granted_directories (server w) tags) (visible_configs (server w) tags []) y z"
    then have "y \<in> set (directory_table (server w))" "d_id z = show_int (dr_id y)" "Directory_FullPath z = abs_path (row_parts y)"
      by (simp_all add: set_granted_directories node_of_def populated_def)
    then show ?thesis using n zt(2) inode_of_shown id_in_range(1) [OF inv] by metis
  qed simp
qed

lemma shown_config:
  assumes inv: "store_inv (server w)" and res: "Refresh (api_client q allowed tags now) w = (r, w')" and "shown w' (ConfigNode i)"
  shows "\<exists>c \<in> set (config_table (server w)). i = show_int (cr_id c) \<and> node_inode opts w' (ConfigNode i) = word_of_int (cr_id c)"
proof -
  from assms(3) obtain c where f: "find (\<lambda>r. show_int (cr_id r) = i \<and> config_visible (server w) tags r) (config_table (server w)) = Some c"
    unfolding shown_def Refresh_config [OF inv res] by auto
  then have c: "c \<in> set (config_table (server w))" "show_int (cr_id c) = i" by (auto simp: find_Some_iff)
  have "Snapshot_Config (snap w') i = Some (stored_config (server w) c)" using Refresh_config [OF inv res] f by simp
  then have "node_inode opts w' (ConfigNode i) = word_of_int (cr_id c)"
    using inode_of_shown id_in_range(2) [OF inv c(1)] by (simp add: node_inode_eq Config_NumericalInode_def stored_config_def)
  with c show ?thesis by blast
qed

text \<open>The numbers of a database and the node each stands for.\<close>

inductive numbered :: "db \<Rightarrow> int \<Rightarrow> node \<Rightarrow> bool" for s :: db where
  root: "numbered s 0 (DirNode ''/'')"
| directory: "a \<in> set (directory_table s) \<Longrightarrow> numbered s (dr_id a) (DirNode (abs_path (row_parts a)))"
| config: "c \<in> set (config_table s) \<Longrightarrow> numbered s (cr_id c) (ConfigNode (show_int (cr_id c)))"

lemma numbered_range: "numbered s n x \<Longrightarrow> store_inv s \<Longrightarrow> 0 \<le> n \<and> n \<le> max_id"
proof (induction rule: numbered.induct)
  case (directory a)
  then show ?case using id_in_range(1) [of s a] by simp
next
  case (config c)
  then show ?case using id_in_range(2) [of s c] by simp
qed (simp add: max_id_def)

definition node_numbered :: "db \<Rightarrow> int \<Rightarrow> node" where
  "node_numbered s n =
     (if n = 0 then DirNode ''/''
      else case find (\<lambda>a. dr_id a = n) (directory_table s) of
        Some a \<Rightarrow> DirNode (abs_path (row_parts a))
      | None \<Rightarrow> ConfigNode (show_int n))"

lemma numbered_node: "numbered s n x \<Longrightarrow> store_inv s \<Longrightarrow> x = node_numbered s n"
proof (induction rule: numbered.induct)
  case (directory a)
  then have "find (\<lambda>b. dr_id b = dr_id a) (directory_table s) = Some a" using find_dr_id [OF store_inv_dirs] by simp
  with directory id_in_range(1) [of s a] show ?case by (simp add: node_numbered_def)
next
  case (config c)
  then have "find (\<lambda>b. dr_id b = cr_id c) (directory_table s) = None"
    by (auto simp: store_inv_def find_None_iff)
  with config id_in_range(2) [of s c] show ?case by (simp add: node_numbered_def)
qed (simp add: node_numbered_def)

lemma numbered_root: "numbered s n x \<Longrightarrow> store_inv s \<Longrightarrow> n = 0 \<longleftrightarrow> x = DirNode ''/''"
proof (induction rule: numbered.induct)
  case (directory a)
  have "abs_path (row_parts a) \<noteq> abs_path []"
    using good_row_parts [OF store_inv_dirs [OF directory(2)] directory(1)] by simp
  then show ?case using id_in_range(1) [OF directory(2,1)] by simp
next
  case (config c)
  then show ?case using id_in_range(2) [of s c] by simp
qed simp

lemma shown_numbered:
  assumes inv: "store_inv (server w)" and res: "Refresh (api_client q allowed tags now) w = (r, w')" and x: "shown w' x"
  shows "\<exists>n. numbered (server w) n x \<and> node_inode opts w' x = word_of_int n"
proof (cases x)
  case (DirNode p)
  from shown_directory [OF inv res x [unfolded DirNode], of opts] show ?thesis
  proof
    assume "p = ''/'' \<and> node_inode opts w' (DirNode p) = 0"
    then show ?thesis using numbered.root [of "server w"] by (auto simp: DirNode intro: exI [of _ 0])
  qed (use DirNode numbered.directory in blast)
next
  case (ConfigNode i)
  from shown_config [OF inv res x [unfolded ConfigNode], of opts] show ?thesis
    using ConfigNode numbered.config by blast
qed

lemma id_of_inode: "0 \<le> n \<Longrightarrow> n \<le> max_id \<Longrightarrow> uint (word_of_int n :: 64 word) = n"
  by (simp add: uint_word_of_int max_id_def)

text \<open>
  C26: Every node of a freshly loaded mount has an inode number of its own: two nodes, directories
  or files, never share one, the number of the root alone is zero, and every other is the stored
  id, which fits in 63 bits.
\<close>

theorem mount_inodes_unique:
  assumes inv: "store_inv (server w)" and res: "Refresh (api_client q allowed tags now) w = (r, w')"
    and x: "shown w' x" and y: "shown w' y"
  shows "(node_inode opts w' x = node_inode opts w' y \<longleftrightarrow> x = y) \<and>
    (node_inode opts w' x = 0 \<longleftrightarrow> x = DirNode ''/'') \<and> uint (node_inode opts w' x) < 2 ^ 63"
proof -
  obtain m n where m: "numbered (server w) m x" "node_inode opts w' x = word_of_int m"
    and n: "numbered (server w) n y" "node_inode opts w' y = word_of_int n"
    using shown_numbered [OF inv res x, of opts] shown_numbered [OF inv res y, of opts] by (elim exE conjE) (rule that)
  have um: "uint (node_inode opts w' x) = m" and un: "uint (node_inode opts w' y) = n"
    using id_of_inode numbered_range [OF _ inv] m n by simp_all
  have "node_inode opts w' x = node_inode opts w' y \<longleftrightarrow> x = y"
    using um un numbered_node [OF m(1) inv] numbered_node [OF n(1) inv] m(2) n(2) id_of_inode by metis
  moreover have "node_inode opts w' x = 0 \<longleftrightarrow> x = DirNode ''/''"
    using numbered_root [OF m(1) inv] um by (metis uint_0_iff)
  moreover have "uint (node_inode opts w' x) < 2 ^ 63"
    unfolding um using numbered_range [OF m(1) inv] by (simp add: max_id_def)
  ultimately show ?thesis by blast
qed

text \<open>
  A node that is gone from the snapshot answers with the number 1, which is the stored id of the
  first object created.
\<close>

lemma stale_inode: "Snapshot_Directory (snap w) p = None \<Longrightarrow> node_inode opts w (DirNode p) = 1"
  "Snapshot_Config (snap w) i = None \<Longrightarrow> node_inode opts w (ConfigNode i) = 1"
  by (simp_all add: node_inode_eq Directory_NumericalInode_def Config_NumericalInode_def)

theorem mount_inodes_unique_witness:
  "\<exists>w'. Refresh (api_client id [] [''tag:dev''] 7) sample_world = (Inr (), w') \<and>
     shown w' (DirNode ''/team'') \<and> shown w' (ConfigNode ''3'') \<and>
     node_inode None w' (DirNode ''/team'') \<noteq> node_inode None w' (ConfigNode ''3'') \<and> node_inode None w' (ConfigNode ''3'') \<noteq> 0"
proof -
  obtain r w' where w': "Refresh (api_client id [] [''tag:dev''] 7) sample_world = (r, w')" by fastforce
  have ok: "r = Inr ()" using Refresh_ok [OF sample_world_inv w'] by simp
  have team: "''/team'' = abs_path [''team'']" "good_path [''team'']" by code_simp+
  have "path_granted sample_db [''tag:dev''] [''team'']" by code_simp
  then have x: "shown w' (DirNode ''/team'')"
    using Refresh_directory [OF sample_world_inv w' team(2)] team(2) unfolding team(1)
    by (auto simp only: shown_def sample_world_def world.simps node.case split: option.splits)
  have "find (\<lambda>r. show_int (cr_id r) = ''3'' \<and> config_visible sample_db [''tag:dev''] r) (config_table sample_db) \<noteq> None" by code_simp
  then have y: "shown w' (ConfigNode ''3'')"
    using Refresh_config [OF sample_world_inv w', of "''3''"] by (auto simp: shown_def sample_world_def)
  from mount_inodes_unique [OF sample_world_inv w' x y, of None] mount_inodes_unique [OF sample_world_inv w' y y, of None] x y w' ok
  show ?thesis by blast
qed

end
