(* ===== verification/FsRaces.thy ===== *)
theory FsRaces
  imports FsFiles
begin

text \<open>
  \<open>Write\<close> of \<open>internal/fs/fs.go\<close> is a read, an edit and a write of the whole config, in separate calls:
  what another client does to the config between the two calls is undone.
\<close>

text \<open>\<open>Snapshot_Write\<close> with what others do to the server between its two calls.\<close>

definition Snapshot_Write_interrupted ::
    "('s \<Rightarrow> 's) \<Rightarrow> 's client \<Rightarrow> config option \<Rightarrow> (config \<Rightarrow> fs_error + config) \<Rightarrow> ('s, unit) fs_op" where
  "Snapshot_Write_interrupted others cl c h =
     io_bind (FullConfig cl c)
       (\<lambda>full. case full of
          None \<Rightarrow> io_fail FsPanic
        | Some f \<Rightarrow>
            (case h f of
               Inl e \<Rightarrow> io_fail e
             | Inr edited \<Rightarrow>
                 io_bind (\<lambda>w. call (rpc_SetConfig cl edited) WritingContent (w\<lparr>server := others (server w)\<rparr>)) (\<lambda>_. Refresh cl)))"

lemma interrupted_by_nobody: "Snapshot_Write_interrupted id cl c h = Snapshot_Write cl c h"
  by (simp add: Snapshot_Write_interrupted_def Snapshot_Write_def cong: option.case_cong sum.case_cong)

text \<open>
  Another writer makes the config private and replaces its content between the two calls: the mount's
  write restores the entries it had read, READ for everyone included, and the content it had read
  with its own edit in it.
\<close>

definition make_private :: "db \<Rightarrow> db" where
  "make_private s = snd (handle id [] [''tag:ops''] 8 (SetConfigRequest (Some (sample_change\<lparr>
     c_content := Some [9, 9, 9, 9], c_content_size := 4,
     c_acls := [\<lparr>acl_level = Acl_WRITE, acl_tag = ''tag:ops'', acl_everyone = False\<rparr>]\<rparr>))) s)"

definition written_world :: "(db \<Rightarrow> db) \<Rightarrow> db" where
  "written_world others = server (snd (Snapshot_Write_interrupted others (api_client id [] [''tag:ops''] 7)
     (Some (sample_change)) (write_handler 0 [7]) sample_world))"

theorem write_undoes_concurrent_changes:
  "aclsForOwner Config_acl (make_private sample_db) 3 = [\<lparr>acl_level = Acl_WRITE, acl_tag = ''tag:ops'', acl_everyone = False\<rparr>]"
  "aclsForOwner Config_acl (written_world make_private) 3 = aclsForOwner Config_acl sample_db 3"
  "acls_grant (aclsForOwner Config_acl (written_world make_private) 3) [] Acl_READ"
  "map_option c_content (projr (GetConfigByID (written_world make_private) ''3'' True [])) = Some (Some [7, 105])"
  by code_simp+

end
