(* ===== verification/FsTasks.thy ===== *)
theory FsTasks
  imports FsInodes ApiInterference
begin

text \<open>
  The operations of \<open>internal/fs/fs.go\<close> at the grain at which they interleave: \<open>fs.Serve\<close> runs every
  kernel request in a goroutine of its own beside the refresh loop, and what they share is the
  snapshot behind a \<open>sync.RWMutex\<close>, the access times behind a \<open>sync.Mutex\<close>, and the service.  A task is
  what an operation still has to do, one constructor per critical section or call.  A task that
  nothing disturbs is the operation of \<open>FsNodes\<close>.
\<close>

section \<open>Tasks\<close>

type_synonym tracker = "(string \<rightharpoonup> timestamp) option"

text \<open>
  \<open>ReadSnapshot\<close> is a read-locked look into the snapshot, \<open>ReadTracker\<close> and \<open>WriteTracker\<close> are the two
  methods of the access times, \<open>CallService\<close> is one call of the service (what it does there, and how
  to go on from the state it met), \<open>Reload\<close> is \<open>Refresh\<close>, which holds the write lock all along.
\<close>

datatype ('s, 'a) task =
    Finished 'a
  | ReadSnapshot "snapshot \<Rightarrow> ('s, 'a) task"
  | ReadTracker "tracker \<Rightarrow> ('s, 'a) task"
  | WriteTracker "tracker \<Rightarrow> tracker" "('s, 'a) task"
  | CallService "'s \<Rightarrow> 's" "'s \<Rightarrow> ('s, 'a) task"
  | Reload "fs_error option \<Rightarrow> ('s, 'a) task"

primrec tbind :: "('s, 'a) task \<Rightarrow> ('a \<Rightarrow> ('s, 'b) task) \<Rightarrow> ('s, 'b) task" where
  "tbind (Finished a) g = g a"
| "tbind (ReadSnapshot k) g = ReadSnapshot (\<lambda>sn. tbind (k sn) g)"
| "tbind (ReadTracker k) g = ReadTracker (\<lambda>t. tbind (k t) g)"
| "tbind (WriteTracker f p) g = WriteTracker f (tbind p g)"
| "tbind (CallService f k) g = CallService f (\<lambda>s. tbind (k s) g)"
| "tbind (Reload k) g = Reload (\<lambda>e. tbind (k e) g)"

text \<open>Going on after a success; an error ends the task.\<close>

definition and_then :: "('s, 'e + 'a) task \<Rightarrow> ('a \<Rightarrow> ('s, 'e + 'b) task) \<Rightarrow> ('s, 'e + 'b) task" where
  "and_then p g = tbind p (\<lambda>r. case r of Inl e \<Rightarrow> Finished (Inl e) | Inr a \<Rightarrow> g a)"

definition rpc :: "('s, rpc_error, 'a) io \<Rightarrow> (rpc_error \<Rightarrow> fs_error) \<Rightarrow> ('s, fs_error + 'a) task" where
  "rpc m f = CallService (\<lambda>s. snd (m s)) (\<lambda>s. Finished (case fst (m s) of Inl e \<Rightarrow> Inl (f e) | Inr a \<Rightarrow> Inr a))"

text \<open>A task that nothing disturbs.\<close>

definition refresh_error :: "fs_error + unit \<Rightarrow> fs_error option" where
  "refresh_error r = (case r of Inl e \<Rightarrow> Some e | Inr _ \<Rightarrow> None)"

primrec run_task :: "'s client \<Rightarrow> ('s, 'a) task \<Rightarrow> 's world \<Rightarrow> 'a \<times> 's world" where
  "run_task cl (Finished a) = (\<lambda>w. (a, w))"
| "run_task cl (ReadSnapshot k) = (\<lambda>w. run_task cl (k (snap w)) w)"
| "run_task cl (ReadTracker k) = (\<lambda>w. run_task cl (k (accessed w)) w)"
| "run_task cl (WriteTracker f p) = (\<lambda>w. run_task cl p (w\<lparr>accessed := f (accessed w)\<rparr>))"
| "run_task cl (CallService f k) = (\<lambda>w. run_task cl (k (server w)) (w\<lparr>server := f (server w)\<rparr>))"
| "run_task cl (Reload k) = (\<lambda>w. case Refresh cl w of (r, w') \<Rightarrow> run_task cl (k (refresh_error r)) w')"

named_theorems task_simps

lemma run_task_tbind [task_simps]: "run_task cl (tbind p g) = (\<lambda>w. case run_task cl p w of (a, w') \<Rightarrow> run_task cl (g a) w')"
  by (induction p) (simp_all add: fun_eq_iff split: prod.split)

lemma run_task_and_then [task_simps]: "run_task cl (and_then p g) = io_bind (run_task cl p) (\<lambda>a. run_task cl (g a))"
  by (rule ext) (simp add: and_then_def io_bind_def task_simps split: prod.split sum.split)

lemma run_task_rpc [task_simps]: "run_task cl (rpc m f) = call m f"
  by (rule ext) (simp add: rpc_def call_def split: prod.split sum.split)

section \<open>The operations on the snapshot\<close>

definition Refresh_task :: "('s, fs_error + unit) task" where
  "Refresh_task = Reload (\<lambda>err. Finished (case err of None \<Rightarrow> Inr () | Some e \<Rightarrow> Inl e))"

definition FullConfig_task :: "'s client \<Rightarrow> config option \<Rightarrow> ('s, fs_error + config option) task" where
  "FullConfig_task cl c = rpc (rpc_GetConfig cl (GetId c) None) FetchingContent"

definition Snapshot_Remove_task :: "'s client \<Rightarrow> string \<Rightarrow> ('s, fs_error + unit) task" where
  "Snapshot_Remove_task cl path =
     ReadSnapshot (\<lambda>sn. case ConfigByPath sn path of
         None \<Rightarrow> Finished (Inl ENOENT)
       | Some config \<Rightarrow> and_then (rpc (rpc_DeleteConfig cl (c_id config)) Remote) (\<lambda>_. Refresh_task))"

definition Snapshot_Create_task :: "'s client \<Rightarrow> config \<Rightarrow> ('s, fs_error + config option) task" where
  "Snapshot_Create_task cl c =
     and_then (rpc (rpc_SetConfig cl c) Remote) (\<lambda>created.
     and_then Refresh_task (\<lambda>_.
       ReadSnapshot (\<lambda>sn. Finished (Inr (Snapshot_Config sn (GetId created))))))"

definition Snapshot_Mkdir_task :: "'s client \<Rightarrow> string \<Rightarrow> string \<Rightarrow> config_acl list \<Rightarrow> ('s, fs_error + directory option) task" where
  "Snapshot_Mkdir_task cl parentPath name acls =
     and_then (rpc (rpc_CreateDirectory cl (Directory [] name parentPath [] [] acls)) Remote) (\<lambda>created.
     and_then Refresh_task (\<lambda>_. Finished (Inr created)))"

definition Rmdir_task :: "'s client \<Rightarrow> string \<Rightarrow> string \<Rightarrow> ('s, fs_error + unit) task" where
  "Rmdir_task cl parentPath name =
     ReadSnapshot (\<lambda>sn. case Snapshot_Directory sn parentPath of
         None \<Rightarrow> Finished (Inl ENOENT)
       | Some parent \<Rightarrow>
           (case find (\<lambda>child. d_name child = name) (d_directories parent) of
              None \<Rightarrow> Finished (Inl ENOENT)
            | Some target \<Rightarrow> and_then (rpc (rpc_DeleteDirectory cl (d_id target)) Remote) (\<lambda>_. Refresh_task)))"

definition Snapshot_Write_task :: "'s client \<Rightarrow> config option \<Rightarrow> (config \<Rightarrow> fs_error + config) \<Rightarrow> ('s, fs_error + unit) task" where
  "Snapshot_Write_task cl c h =
     and_then (FullConfig_task cl c) (\<lambda>full. case full of
         None \<Rightarrow> Finished (Inl FsPanic)
       | Some f \<Rightarrow>
           (case h f of
              Inl e \<Rightarrow> Finished (Inl e)
            | Inr edited \<Rightarrow> and_then (rpc (rpc_SetConfig cl edited) WritingContent) (\<lambda>_. Refresh_task)))"

lemma Refresh_error [task_simps]:
  "(case Refresh cl w of (r, w') \<Rightarrow> (case refresh_error r of None \<Rightarrow> Inr () | Some e \<Rightarrow> Inl e, w')) = Refresh cl w"
  by (cases "Refresh cl w") (auto simp: refresh_error_def split: sum.split)

lemma run_Refresh_task [task_simps]: "run_task cl Refresh_task = Refresh cl"
proof
  fix w show "run_task cl Refresh_task w = Refresh cl w"
    unfolding Refresh_task_def run_task.simps by (rule Refresh_error)
qed

lemma run_FullConfig_task [task_simps]: "run_task cl (FullConfig_task cl c) = FullConfig cl c"
  by (simp add: FullConfig_task_def FullConfig_def task_simps)

lemma run_snapshot_tasks [task_simps]:
  "run_task cl (Snapshot_Remove_task cl path) = Snapshot_Remove cl path"
  "run_task cl (Snapshot_Create_task cl c) = Snapshot_Create cl c"
  "run_task cl (Snapshot_Mkdir_task cl pp name acls) = Snapshot_Mkdir cl pp name acls"
  "run_task cl (Rmdir_task cl pp name) = Rmdir cl pp name"
  "run_task cl (Snapshot_Write_task cl x h) = Snapshot_Write cl x h"
proof -
  show "run_task cl (Snapshot_Remove_task cl path) = Snapshot_Remove cl path"
    by (rule ext) (simp add: Snapshot_Remove_task_def Snapshot_Remove_def task_simps split: option.split)
  show "run_task cl (Snapshot_Create_task cl c) = Snapshot_Create cl c"
    by (simp add: Snapshot_Create_task_def Snapshot_Create_def task_simps)
  show "run_task cl (Snapshot_Mkdir_task cl pp name acls) = Snapshot_Mkdir cl pp name acls"
    by (simp add: Snapshot_Mkdir_task_def Snapshot_Mkdir_def task_simps io_return_def)
  show "run_task cl (Rmdir_task cl pp name) = Rmdir cl pp name"
    by (rule ext) (simp add: Rmdir_task_def Rmdir_def task_simps split: option.split)
  have "run_task cl (case full of None \<Rightarrow> Finished (Inl FsPanic)
       | Some f \<Rightarrow> (case h f of Inl e \<Rightarrow> Finished (Inl e)
            | Inr edited \<Rightarrow> and_then (rpc (rpc_SetConfig cl edited) WritingContent) (\<lambda>_. Refresh_task))) =
     (case full of None \<Rightarrow> io_fail FsPanic
       | Some f \<Rightarrow> (case h f of Inl e \<Rightarrow> io_fail e
            | Inr edited \<Rightarrow> io_bind (call (rpc_SetConfig cl edited) WritingContent) (\<lambda>_. Refresh cl)))" for full
    by (auto simp: task_simps io_fail_def split: option.split sum.split)
  then show "run_task cl (Snapshot_Write_task cl x h) = Snapshot_Write cl x h"
    by (simp add: Snapshot_Write_task_def Snapshot_Write_def task_simps)
qed

section \<open>The kernel's requests\<close>

datatype kernel_request =
    GetattrDir string
  | GetattrFile string
  | LookupRequest string string
  | ReadDirRequest string
  | RemoveRequest string string bool
  | MkdirRequest string string
  | CreateRequest string string
  | ReadRequest string
  | WriteRequest string int bytes

datatype kernel_reply =
    AttrReply attr
  | NodeReply node
  | EntriesReply "dirent list"
  | CreatedReply node attr
  | DataReply bytes
  | SizeReply nat
  | EmptyReply

text \<open>What a node sees of the mount: a snapshot and the access times.\<close>

definition seen :: "snapshot \<Rightarrow> tracker \<Rightarrow> unit world" where
  "seen sn t = \<lparr>server = (), snap = sn, accessed = t\<rparr>"

definition Config_Attr_task :: "fs_options option \<Rightarrow> string \<Rightarrow> ('s, attr) task" where
  "Config_Attr_task opts i = ReadSnapshot (\<lambda>sn. ReadTracker (\<lambda>t. Finished (Config_Attr opts (seen sn t) i zero_attr)))"

definition Dir_Remove_task :: "'s client \<Rightarrow> string \<Rightarrow> string \<Rightarrow> bool \<Rightarrow> ('s, fs_error + unit) task" where
  "Dir_Remove_task cl path name is_dir =
     (if is_dir then Rmdir_task cl path name else Snapshot_Remove_task cl (path @ ''/'' @ name))"

definition Dir_Mkdir_task :: "'s client \<Rightarrow> string \<Rightarrow> string \<Rightarrow> ('s, fs_error + node) task" where
  "Dir_Mkdir_task cl path name =
     ReadSnapshot (\<lambda>sn. let acls = (case Snapshot_Directory sn path of None \<Rightarrow> [] | Some parent \<Rightarrow> d_acls parent)
       in and_then (Snapshot_Mkdir_task cl path name acls) (\<lambda>created.
            Finished (Inr (DirNode (case created of None \<Rightarrow> ''/'' | Some d \<Rightarrow> Directory_FullPath d)))))"

definition Dir_Create_task :: "'s client \<Rightarrow> fs_options option \<Rightarrow> string \<Rightarrow> string \<Rightarrow> ('s, fs_error + node \<times> attr) task" where
  "Dir_Create_task cl opts path name =
     and_then (Snapshot_Create_task cl (created_config path name)) (\<lambda>created.
       tbind (Config_Attr_task opts (GetId created)) (\<lambda>a. Finished (Inr (ConfigNode (GetId created), a))))"

definition ReadAll_task :: "'s client \<Rightarrow> timestamp \<Rightarrow> string \<Rightarrow> ('s, fs_error + bytes) task" where
  "ReadAll_task cl now i =
     ReadSnapshot (\<lambda>sn. and_then (FullConfig_task cl (Snapshot_Config sn i)) (\<lambda>full.
       WriteTracker (\<lambda>t. touch t now i)
         (Finished (Inr (case full of None \<Rightarrow> [] | Some c \<Rightarrow> (case c_content c of None \<Rightarrow> [] | Some b \<Rightarrow> b))))))"

definition Config_Write_task :: "'s client \<Rightarrow> string \<Rightarrow> int \<Rightarrow> bytes \<Rightarrow> ('s, fs_error + nat) task" where
  "Config_Write_task cl i offset data =
     ReadSnapshot (\<lambda>sn. and_then (Snapshot_Write_task cl (Snapshot_Config sn i) (write_handler offset data))
       (\<lambda>_. Finished (Inr (length data))))"

definition reply :: "('a \<Rightarrow> kernel_reply) \<Rightarrow> ('s, fs_error + 'a) task \<Rightarrow> ('s, fs_error + kernel_reply) task" where
  "reply f p = and_then p (\<lambda>a. Finished (Inr (f a)))"

text \<open>A request as a task; each of the first four looks at the snapshot once.\<close>

fun kernel_task :: "'s client \<Rightarrow> fs_options option \<Rightarrow> timestamp \<Rightarrow> kernel_request \<Rightarrow> ('s, fs_error + kernel_reply) task" where
  "kernel_task cl opts now (GetattrDir path) =
     ReadSnapshot (\<lambda>sn. Finished (Inr (AttrReply (Dir_Attr opts (seen sn None) path zero_attr))))"
| "kernel_task cl opts now (GetattrFile i) = tbind (Config_Attr_task opts i) (\<lambda>a. Finished (Inr (AttrReply a)))"
| "kernel_task cl opts now (LookupRequest path name) =
     ReadSnapshot (\<lambda>sn. Finished (map_sum id NodeReply (Lookup (seen sn None) path name)))"
| "kernel_task cl opts now (ReadDirRequest path) =
     ReadSnapshot (\<lambda>sn. Finished (Inr (EntriesReply (ReadDirAll (seen sn None) path))))"
| "kernel_task cl opts now (RemoveRequest path name is_dir) = reply (\<lambda>_. EmptyReply) (Dir_Remove_task cl path name is_dir)"
| "kernel_task cl opts now (MkdirRequest path name) = reply NodeReply (Dir_Mkdir_task cl path name)"
| "kernel_task cl opts now (CreateRequest path name) = reply (\<lambda>(n, a). CreatedReply n a) (Dir_Create_task cl opts path name)"
| "kernel_task cl opts now (ReadRequest i) = reply DataReply (ReadAll_task cl now i)"
| "kernel_task cl opts now (WriteRequest i offset data) = reply SizeReply (Config_Write_task cl i offset data)"

text \<open>The same request as one operation of \<open>FsNodes\<close>.\<close>

definition replying :: "('a \<Rightarrow> kernel_reply) \<Rightarrow> ('s, 'a) fs_op \<Rightarrow> ('s, kernel_reply) fs_op" where
  "replying f m = io_bind m (\<lambda>a. io_return (f a))"

fun kernel_op :: "'s client \<Rightarrow> fs_options option \<Rightarrow> timestamp \<Rightarrow> kernel_request \<Rightarrow> ('s, kernel_reply) fs_op" where
  "kernel_op cl opts now (GetattrDir path) = (\<lambda>w. (Inr (AttrReply (Dir_Attr opts w path zero_attr)), w))"
| "kernel_op cl opts now (GetattrFile i) = (\<lambda>w. (Inr (AttrReply (Config_Attr opts w i zero_attr)), w))"
| "kernel_op cl opts now (LookupRequest path name) = (\<lambda>w. (map_sum id NodeReply (Lookup w path name), w))"
| "kernel_op cl opts now (ReadDirRequest path) = (\<lambda>w. (Inr (EntriesReply (ReadDirAll w path)), w))"
| "kernel_op cl opts now (RemoveRequest path name is_dir) = replying (\<lambda>_. EmptyReply) (Dir_Remove cl path name is_dir)"
| "kernel_op cl opts now (MkdirRequest path name) = replying NodeReply (Dir_Mkdir cl path name)"
| "kernel_op cl opts now (CreateRequest path name) = replying (\<lambda>(n, a). CreatedReply n a) (Dir_Create cl opts path name zero_attr)"
| "kernel_op cl opts now (ReadRequest i) = replying DataReply (ReadAll cl now i)"
| "kernel_op cl opts now (WriteRequest i offset data) = replying SizeReply (Config_Write cl i offset data)"

lemma seen_nodes [task_simps]:
  "Dir_Attr opts (seen (snap w) t) path a = Dir_Attr opts w path a"
  "Config_Attr opts (seen (snap w) (accessed w)) i a = Config_Attr opts w i a"
  "Lookup (seen (snap w) t) path name = Lookup w path name" "ReadDirAll (seen (snap w) t) path = ReadDirAll w path"
  by (simp_all add: seen_def Dir_Attr_def Config_Attr_def Lookup_def ReadDirAll_def)

lemma run_reply [task_simps]: "run_task cl (reply f p) = replying f (run_task cl p)"
  by (simp add: reply_def replying_def task_simps io_return_def)

lemma run_node_tasks [task_simps]:
  "run_task cl (Config_Attr_task opts i) = (\<lambda>w. (Config_Attr opts w i zero_attr, w))"
  "run_task cl (Dir_Remove_task cl path name is_dir) = Dir_Remove cl path name is_dir"
  "run_task cl (Dir_Mkdir_task cl path name) = Dir_Mkdir cl path name"
  "run_task cl (Dir_Create_task cl opts path name) = Dir_Create cl opts path name zero_attr"
  "run_task cl (ReadAll_task cl now i) = ReadAll cl now i"
  "run_task cl (Config_Write_task cl i off data) = Config_Write cl i off data"
proof -
  show attr: "run_task cl (Config_Attr_task opts i) = (\<lambda>w. (Config_Attr opts w i zero_attr, w))" for i
    by (rule ext) (simp add: Config_Attr_task_def task_simps)
  show "run_task cl (Dir_Remove_task cl path name is_dir) = Dir_Remove cl path name is_dir"
    by (simp add: Dir_Remove_task_def Dir_Remove_def task_simps)
  show "run_task cl (Dir_Mkdir_task cl path name) = Dir_Mkdir cl path name"
    by (rule ext) (simp add: Dir_Mkdir_task_def Dir_Mkdir_def task_simps io_return_def)
  show "run_task cl (Dir_Create_task cl opts path name) = Dir_Create cl opts path name zero_attr"
    by (simp add: Dir_Create_task_def Dir_Create_def task_simps attr)
  show "run_task cl (ReadAll_task cl now i) = ReadAll cl now i"
    by (rule ext) (simp add: ReadAll_task_def ReadAll_def task_simps)
  show "run_task cl (Config_Write_task cl i off data) = Config_Write cl i off data"
    by (rule ext) (simp add: Config_Write_task_def Config_Write_def task_simps io_return_def)
qed


end
