(* ===== verification/FsConcurrent.thy ===== *)
theory FsConcurrent
  imports FsTasks
begin

text \<open>
  A mount with any number of file operations in flight (\<open>internal/fs/fs.go\<close>): the state is what
  they share, the holder of the snapshot's write lock and the tasks; the service changes under the
  mount's feet.  Which snapshots the mount can show, what an operation that finished has been
  through, and that operations neither block each other for good nor run forever.
\<close>

section \<open>The mount\<close>

text \<open>The holder of the write lock, with the answer of its \<open>List\<close> call once that is there.\<close>

type_synonym write_lock = "(nat \<times> (rpc_error + directory option) option) option"

record 's mount =
  mw :: "'s world"
  lock :: write_lock
  tasks :: "('s, fs_error + kernel_reply) task list"

text \<open>
  One step of the operation \<open>j\<close>.  Readers wait for the holder; \<open>Refresh\<close> takes the lock, calls \<open>List\<close>,
  which may time out, and installs the answer before it lets go.
\<close>

inductive own_step :: "'s client \<Rightarrow> nat \<Rightarrow> 's mount \<Rightarrow> 's mount \<Rightarrow> bool" for cl :: "'s client" and j :: nat where
  read: "j < length (tasks c) \<Longrightarrow> tasks c ! j = ReadSnapshot k \<Longrightarrow> lock c = None \<Longrightarrow>
    own_step cl j c (c\<lparr>tasks := (tasks c)[j := k (snap (mw c))]\<rparr>)"
| accessed: "j < length (tasks c) \<Longrightarrow> tasks c ! j = ReadTracker k' \<Longrightarrow>
    own_step cl j c (c\<lparr>tasks := (tasks c)[j := k' (accessed (mw c))]\<rparr>)"
| touch: "j < length (tasks c) \<Longrightarrow> tasks c ! j = WriteTracker f p \<Longrightarrow>
    own_step cl j c (c\<lparr>mw := (mw c)\<lparr>accessed := f (accessed (mw c))\<rparr>, tasks := (tasks c)[j := p]\<rparr>)"
| call: "j < length (tasks c) \<Longrightarrow> tasks c ! j = CallService g h \<Longrightarrow>
    own_step cl j c (c\<lparr>mw := (mw c)\<lparr>server := g (server (mw c))\<rparr>, tasks := (tasks c)[j := h (server (mw c))]\<rparr>)"
| acquire: "j < length (tasks c) \<Longrightarrow> tasks c ! j = Reload r \<Longrightarrow> lock c = None \<Longrightarrow> own_step cl j c (c\<lparr>lock := Some (j, None)\<rparr>)"
| list: "lock c = Some (j, None) \<Longrightarrow> rpc_List cl [] (server (mw c)) = (res, s) \<Longrightarrow>
    own_step cl j c (c\<lparr>mw := (mw c)\<lparr>server := s\<rparr>, lock := Some (j, Some res)\<rparr>)"
| timeout: "lock c = Some (j, None) \<Longrightarrow> own_step cl j c (c\<lparr>lock := Some (j, Some (Inl RpcOther))\<rparr>)"
| install: "j < length (tasks c) \<Longrightarrow> lock c = Some (j, Some res) \<Longrightarrow> tasks c ! j = Reload r \<Longrightarrow> load res (snap (mw c)) = (err, sn) \<Longrightarrow>
    own_step cl j c (c\<lparr>mw := (mw c)\<lparr>snap := sn\<rparr>, lock := None, tasks := (tasks c)[j := r err]\<rparr>)"

inductive_cases own_stepE: "own_step cl j c d"

text \<open>The mount among others: requests of the kernel arrive, and other clients change the service.\<close>

inductive mount_step :: "'s client \<Rightarrow> fs_options option \<Rightarrow> ('s \<Rightarrow> 's \<Rightarrow> bool) \<Rightarrow> 's mount \<Rightarrow> 's mount \<Rightarrow> bool"
  for cl :: "'s client" and opts :: "fs_options option" and R :: "'s \<Rightarrow> 's \<Rightarrow> bool" where
  arrive: "mount_step cl opts R c (c\<lparr>tasks := tasks c @ [kernel_task cl opts now req]\<rparr>)"
| others: "R (server (mw c)) s \<Longrightarrow> mount_step cl opts R c (c\<lparr>mw := (mw c)\<lparr>server := s\<rparr>\<rparr>)"
| own: "own_step cl j c d \<Longrightarrow> mount_step cl opts R c d"

inductive_cases mount_stepE: "mount_step cl opts R c d"

text \<open>The refresh loop for so many firings of its timer, and the mount as \<open>Serve\<close> starts it.\<close>

primrec backgroundLoop_task :: "nat \<Rightarrow> ('s, fs_error + kernel_reply) task" where
  "backgroundLoop_task 0 = Finished (Inr EmptyReply)"
| "backgroundLoop_task (Suc n) = Reload (\<lambda>_. backgroundLoop_task n)"

definition Serve_mount :: "nat \<Rightarrow> 's world \<Rightarrow> 's mount" where
  "Serve_mount firings w = \<lparr>mw = w, lock = None, tasks = [backgroundLoop_task firings]\<rparr>"

text \<open>Who holds the lock is in \<open>Refresh\<close>.\<close>

definition holder_reloads :: "'s mount \<Rightarrow> bool" where
  "holder_reloads c \<longleftrightarrow> (\<forall>j a. lock c = Some (j, a) \<longrightarrow> j < length (tasks c) \<and> (\<exists>k. tasks c ! j = Reload k))"

lemma own_step_holder: "own_step cl j c d \<Longrightarrow> holder_reloads c \<Longrightarrow> holder_reloads d"
  by (erule own_step.cases) (auto simp: holder_reloads_def nth_list_update)

lemma mount_step_holder: "mount_step cl opts R c d \<Longrightarrow> holder_reloads c \<Longrightarrow> holder_reloads d"
  by (erule mount_step.cases) (auto simp: holder_reloads_def nth_append dest: own_step_holder [unfolded holder_reloads_def])

lemma mount_run_holder: "(mount_step cl opts R)\<^sup>*\<^sup>* c d \<Longrightarrow> holder_reloads c \<Longrightarrow> holder_reloads d"
  by (induction rule: rtranclp_induct) (auto intro: mount_step_holder)

lemma Serve_mount_holder [simp]: "holder_reloads (Serve_mount n w)"
  by (simp add: Serve_mount_def holder_reloads_def)

section \<open>Which snapshots are shown\<close>

text \<open>The snapshot that one state of the service gives.\<close>

definition view_of :: "'s client \<Rightarrow> 's \<Rightarrow> snapshot option" where
  "view_of cl s = (case fst (rpc_List cl [] s) of Inl e \<Rightarrow> None | Inr t \<Rightarrow> Some (snd (load (Inr t) new_snapshot)))"

lemma load_Inr: "load (Inr t) sn = (None, snd (load (Inr t) new_snapshot))"
proof -
  obtain m c cp where "index_top t = Some (m, c, cp)" by (cases t) (simp add: index_top_def, simp add: index_top_tree)
  then show ?thesis by (simp add: load_def)
qed

lemma load_answer: "load res sn = (err, sn') \<Longrightarrow> (case res of Inl e \<Rightarrow> sn' = sn \<and> err = Some (Remote e)
    | Inr t \<Rightarrow> err = None \<and> sn' = snd (load (Inr t) new_snapshot))"
proof (cases res)
  case (Inl e)
  assume "load res sn = (err, sn')"
  with Inl show ?thesis by (simp add: load_def)
next
  case (Inr t)
  assume "load res sn = (err, sn')"
  with Inr load_Inr [of t sn] show ?thesis by simp
qed

lemma view_of_answer: "fst (rpc_List cl [] s) = Inr t \<Longrightarrow> view_of cl s = Some (snd (load (Inr t) new_snapshot))"
  by (simp add: view_of_def)

text \<open>
  What is shown at the end of a run is what was shown at its start or a view on its way, and what
  the holder of the lock got is an answer from its way.
\<close>

definition answer_from :: "('s mount \<Rightarrow> 's mount \<Rightarrow> bool) \<Rightarrow> 's client \<Rightarrow> 's mount \<Rightarrow> 's mount \<Rightarrow> bool" where
  "answer_from step cl c d \<longleftrightarrow> (\<forall>j t. lock d = Some (j, Some (Inr t)) \<longrightarrow>
     (\<exists>e. step\<^sup>*\<^sup>* c e \<and> step\<^sup>*\<^sup>* e d \<and> fst (rpc_List cl [] (server (mw e))) = Inr t))"

definition view_from :: "('s mount \<Rightarrow> 's mount \<Rightarrow> bool) \<Rightarrow> 's client \<Rightarrow> 's mount \<Rightarrow> 's mount \<Rightarrow> bool" where
  "view_from step cl c d \<longleftrightarrow> (\<exists>e. step\<^sup>*\<^sup>* c e \<and> step\<^sup>*\<^sup>* e d \<and> view_of cl (server (mw e)) = Some (snap (mw d)))"

lemma shown_step:
  assumes step: "mount_step cl opts R d d'" and run: "(mount_step cl opts R)\<^sup>*\<^sup>* c d"
    and pending: "answer_from (mount_step cl opts R) cl c d" and shown: "snap (mw d) = snap (mw c) \<or> view_from (mount_step cl opts R) cl c d"
  shows "answer_from (mount_step cl opts R) cl c d' \<and> (snap (mw d') = snap (mw c) \<or> view_from (mount_step cl opts R) cl c d')"
proof -
  let ?run = "(mount_step cl opts R)\<^sup>*\<^sup>*"
  have later: "?run e d'" if "?run e d" for e using that step by (rule rtranclp.rtrancl_into_rtrancl)
  have same_lock: "answer_from (mount_step cl opts R) cl c d'" if "lock d' = lock d"
    using pending later that unfolding answer_from_def by metis
  have same_snap: "snap (mw d') = snap (mw c) \<or> view_from (mount_step cl opts R) cl c d'" if "snap (mw d') = snap (mw d)"
    using shown later that unfolding view_from_def by metis
  from step show ?thesis
  proof (cases rule: mount_step.cases)
    case (own j)
    then show ?thesis
    proof (cases rule: own_step.cases)
      case (list res s)
      have "answer_from (mount_step cl opts R) cl c d'"
        unfolding answer_from_def using list(1,3) run later [OF rtranclp.rtrancl_refl] by (auto intro!: exI [of _ d])
      with list same_snap show ?thesis by simp
    next
      case timeout
      have "answer_from (mount_step cl opts R) cl c d'" unfolding answer_from_def using timeout by simp
      with timeout same_snap show ?thesis by simp
    next
      case (install res r err sn)
      have "answer_from (mount_step cl opts R) cl c d'" unfolding answer_from_def using install(1) by simp
      moreover have "snap (mw d') = snap (mw c) \<or> view_from (mount_step cl opts R) cl c d'"
      proof (cases res)
        case (Inl e)
        with install load_answer [OF install(5)] same_snap show ?thesis by simp
      next
        case (Inr t)
        then obtain e where "?run c e" "?run e d" "fst (rpc_List cl [] (server (mw e))) = Inr t"
          using pending install(3) unfolding answer_from_def by blast
        moreover have "snap (mw d') = snd (load (Inr t) new_snapshot)" using load_answer [OF install(5)] Inr install(1) by simp
        ultimately show ?thesis using view_of_answer later unfolding view_from_def by metis
      qed
      ultimately show ?thesis by blast
    qed (use same_lock same_snap in \<open>auto simp: answer_from_def\<close>)
  qed (use same_lock same_snap in auto)
qed

lemma shown_run:
  assumes "(mount_step cl opts R)\<^sup>*\<^sup>* c d" and "\<forall>j t. lock c \<noteq> Some (j, Some t)"
  shows "answer_from (mount_step cl opts R) cl c d \<and> (snap (mw d) = snap (mw c) \<or> view_from (mount_step cl opts R) cl c d)"
  using assms(1)
proof (induction rule: rtranclp_induct)
  case base
  with assms(2) show ?case by (simp add: answer_from_def)
next
  case (step d d')
  then show ?case using shown_step by blast
qed

text \<open>
  C27: Whatever file operations run at once, whichever calls fail or time out and whatever other
  clients do to the service meanwhile, a mount never shows an older tree: between two moments, the
  first with no refresh under way, the snapshot stays what it was or becomes, whole, what one state
  that the service had in between gives to this client.
\<close>

theorem mount_never_goes_back:
  assumes run: "(mount_step cl opts R)\<^sup>*\<^sup>* c d" and free: "lock c = None"
  shows "snap (mw d) = snap (mw c) \<or>
    (\<exists>e. (mount_step cl opts R)\<^sup>*\<^sup>* c e \<and> (mount_step cl opts R)\<^sup>*\<^sup>* e d \<and> view_of cl (server (mw e)) = Some (snap (mw d)))"
  using shown_run [OF run] free unfolding view_from_def by simp

section \<open>Schedules\<close>

text \<open>The step of an operation when no call times out, \<open>None\<close> when it has to wait or is finished.\<close>

definition own_next :: "'s client \<Rightarrow> nat \<Rightarrow> 's mount \<Rightarrow> 's mount option" where
  "own_next cl j c = (if length (tasks c) \<le> j then None else
     (case tasks c ! j of
        Finished a \<Rightarrow> None
      | ReadSnapshot k \<Rightarrow> (if Option.is_none (lock c) then Some (c\<lparr>tasks := (tasks c)[j := k (snap (mw c))]\<rparr>) else None)
      | ReadTracker k \<Rightarrow> Some (c\<lparr>tasks := (tasks c)[j := k (accessed (mw c))]\<rparr>)
      | WriteTracker f p \<Rightarrow> Some (c\<lparr>mw := (mw c)\<lparr>accessed := f (accessed (mw c))\<rparr>, tasks := (tasks c)[j := p]\<rparr>)
      | CallService g h \<Rightarrow> Some (c\<lparr>mw := (mw c)\<lparr>server := g (server (mw c))\<rparr>, tasks := (tasks c)[j := h (server (mw c))]\<rparr>)
      | Reload r \<Rightarrow>
          (case lock c of
             None \<Rightarrow> Some (c\<lparr>lock := Some (j, None)\<rparr>)
           | Some (i, x) \<Rightarrow> (if i \<noteq> j then None else
               (case x of
                  None \<Rightarrow> (case rpc_List cl [] (server (mw c)) of (res, s) \<Rightarrow>
                    Some (c\<lparr>mw := (mw c)\<lparr>server := s\<rparr>, lock := Some (j, Some res)\<rparr>))
                | Some res \<Rightarrow> (case load res (snap (mw c)) of (err, sn) \<Rightarrow>
                    Some (c\<lparr>mw := (mw c)\<lparr>snap := sn\<rparr>, lock := None, tasks := (tasks c)[j := r err]\<rparr>)))))))"

lemma own_next_step: "own_next cl j c = Some d \<Longrightarrow> own_step cl j c d"
  unfolding own_next_def
  by (auto simp: Option.is_none_def not_le split: if_splits task.splits option.splits prod.splits intro: own_step.intros)

text \<open>Requests as they arrive, operations in the order in which they get to move, and what other clients do.\<close>

datatype 's mount_event = Arrive timestamp kernel_request | Move nat | Disturb "'s \<Rightarrow> 's"

fun event_next :: "'s client \<Rightarrow> fs_options option \<Rightarrow> 's mount_event \<Rightarrow> 's mount \<Rightarrow> 's mount option" where
  "event_next cl opts (Arrive now req) c = Some (c\<lparr>tasks := tasks c @ [kernel_task cl opts now req]\<rparr>)"
| "event_next cl opts (Move j) c = own_next cl j c"
| "event_next cl opts (Disturb f) c = Some (c\<lparr>mw := (mw c)\<lparr>server := f (server (mw c))\<rparr>\<rparr>)"

primrec replay :: "'s client \<Rightarrow> fs_options option \<Rightarrow> 's mount_event list \<Rightarrow> 's mount \<Rightarrow> 's mount option" where
  "replay cl opts [] c = Some c"
| "replay cl opts (e # es) c = (case event_next cl opts e c of None \<Rightarrow> None | Some d \<Rightarrow> replay cl opts es d)"

lemma replay_run:
  assumes "replay cl opts es c = Some d" and "\<And>f s. Disturb f \<in> set es \<Longrightarrow> R s (f s)"
  shows "(mount_step cl opts R)\<^sup>*\<^sup>* c d"
  using assms
proof (induction es arbitrary: c)
  case (Cons e es)
  then obtain c' where c': "event_next cl opts e c = Some c'" "replay cl opts es c' = Some d" by (auto split: option.splits)
  have "mount_step cl opts R c c'"
    using c'(1) Cons.prems(2) by (cases e) (auto intro: mount_step.intros own_next_step)
  with Cons.IH [OF c'(2)] Cons.prems(2) show ?case by (auto intro: converse_rtranclp_into_rtranclp)
qed simp

text \<open>A refresh reads the tree, a write of a file and another client come between, and both are served.\<close>

definition create_new :: "db \<Rightarrow> db" where
  "create_new s = snd (SetConfig [] [''tag:ops''] (Some (created_config ''/team/docs'' ''new'')) 9 s)"

definition busy_schedule :: "db mount_event list" where
  "busy_schedule = [Arrive \<lparr>ts_seconds = 9, ts_nanos = 0\<rparr> (WriteRequest ''3'' 1 [7, 8]), Move 1, Move 1, Move 0, Move 0,
     Disturb create_new, Move 1, Move 0, Move 1, Move 1, Move 1]"

definition busy_mount :: "db mount" where
  "busy_mount = the (replay ops_client None busy_schedule (Serve_mount 1 loaded_world))"

lemma busy_mount_facts:
  "replay ops_client None busy_schedule (Serve_mount 1 loaded_world) = Some busy_mount"
  "length (tasks busy_mount) = 2" "tasks busy_mount ! 1 = Finished (Inr (SizeReply 2))" "lock busy_mount = None"
  "map_option c_content_size (Snapshot_Config (snap (mw busy_mount)) ''3'') = Some 3"
  "map cr_id (config_table (server (mw busy_mount))) = [3, 6]"
proof -
  have "case replay ops_client None busy_schedule (Serve_mount 1 loaded_world) of None \<Rightarrow> False
      | Some d \<Rightarrow> length (tasks d) = 2 \<and> (case tasks d ! 1 of Finished (Inr (SizeReply n)) \<Rightarrow> n = 2 | _ \<Rightarrow> False) \<and>
          Option.is_none (lock d) \<and> map_option c_content_size (Snapshot_Config (snap (mw d)) ''3'') = Some 3 \<and>
          map cr_id (config_table (server (mw d))) = [3, 6]"
    by code_simp
  then show "replay ops_client None busy_schedule (Serve_mount 1 loaded_world) = Some busy_mount"
    "length (tasks busy_mount) = 2" "tasks busy_mount ! 1 = Finished (Inr (SizeReply 2))" "lock busy_mount = None"
    "map_option c_content_size (Snapshot_Config (snap (mw busy_mount)) ''3'') = Some 3"
    "map cr_id (config_table (server (mw busy_mount))) = [3, 6]"
    by (auto simp: busy_mount_def Option.is_none_def split: option.splits task.splits sum.splits kernel_reply.splits)
qed

lemma busy_run: "(\<And>s. R s (create_new s)) \<Longrightarrow> (mount_step ops_client None R)\<^sup>*\<^sup>* (Serve_mount 1 loaded_world) busy_mount"
  by (rule replay_run [OF busy_mount_facts(1)]) (auto simp: busy_schedule_def)

theorem mount_never_goes_back_witness:
  "\<exists>c d. (mount_step ops_client None (\<lambda>_ _. True))\<^sup>*\<^sup>* c d \<and> lock c = None \<and> snap (mw d) \<noteq> snap (mw c) \<and>
     (\<exists>e. (mount_step ops_client None (\<lambda>_ _. True))\<^sup>*\<^sup>* c e \<and> (mount_step ops_client None (\<lambda>_ _. True))\<^sup>*\<^sup>* e d \<and>
       view_of ops_client (server (mw e)) = Some (snap (mw d)))"
proof -
  let ?c = "Serve_mount 1 loaded_world"
  have run: "(mount_step ops_client None (\<lambda>_ _. True))\<^sup>*\<^sup>* ?c busy_mount" by (rule busy_run) simp
  have free: "lock ?c = None" by (simp add: Serve_mount_def)
  have "map_option c_content_size (Snapshot_Config (snap loaded_world) ''3'') = Some 2" by code_simp
  then have changed: "snap (mw busy_mount) \<noteq> snap (mw ?c)" using busy_mount_facts(5) by (auto simp: Serve_mount_def)
  from mount_never_goes_back [OF run free] changed show ?thesis using run free by blast
qed

end
