(* ===== verification/FsHistories.thy ===== *)
theory FsHistories
  imports FsConcurrent
begin

text \<open>
  What one file operation goes through while others run: its task executes along the run of the
  mount, section by section.  A change made through the mount has reached the service before its
  answer is given, and a tree loaded after the change is on show by then and from then on.  No
  operation takes more than seven steps, and operations never wait for each other in a circle.
\<close>

section \<open>A task along a run\<close>

definition answered :: "'s client \<Rightarrow> 's mount \<Rightarrow> rpc_error + directory option \<Rightarrow> bool" where
  "answered cl c res \<longleftrightarrow> res = fst (rpc_List cl [] (server (mw c))) \<or> res = Inl RpcOther"

inductive task_run :: "'s client \<Rightarrow> ('s mount \<Rightarrow> 's mount \<Rightarrow> bool) \<Rightarrow> ('s, 'a) task \<Rightarrow> 's mount \<Rightarrow> 'a \<Rightarrow> 's mount \<Rightarrow> bool"
  for cl :: "'s client" and step :: "'s mount \<Rightarrow> 's mount \<Rightarrow> bool" where
  finished: "step\<^sup>*\<^sup>* c e \<Longrightarrow> task_run cl step (Finished a) c a e"
| read: "step\<^sup>*\<^sup>* c d \<Longrightarrow> task_run cl step (k (snap (mw d))) d a e \<Longrightarrow> task_run cl step (ReadSnapshot k) c a e"
| accessed: "step\<^sup>*\<^sup>* c d \<Longrightarrow> task_run cl step (k' (accessed (mw d))) d a e \<Longrightarrow> task_run cl step (ReadTracker k') c a e"
| touch: "step\<^sup>*\<^sup>* c d \<Longrightarrow> task_run cl step p d a e \<Longrightarrow> task_run cl step (WriteTracker f p) c a e"
| call: "step\<^sup>*\<^sup>* c d \<Longrightarrow> step d d' \<Longrightarrow> server (mw d') = g (server (mw d)) \<Longrightarrow>
    task_run cl step (h (server (mw d))) d' a e \<Longrightarrow> task_run cl step (CallService g h) c a e"
| reload: "step\<^sup>*\<^sup>* c d \<Longrightarrow> answered cl d res \<Longrightarrow> step\<^sup>*\<^sup>* d u \<Longrightarrow> step u v \<Longrightarrow> load res (snap (mw u)) = (err, snap (mw v)) \<Longrightarrow>
    lock v = None \<Longrightarrow> task_run cl step (r err) v a e \<Longrightarrow> task_run cl step (Reload r) c a e"

inductive_simps task_run_Finished [simp]: "task_run cl step (Finished b) c a e"
inductive_simps task_run_ReadSnapshot: "task_run cl step (ReadSnapshot k) c a e"
inductive_simps task_run_ReadTracker: "task_run cl step (ReadTracker k') c a e"
inductive_simps task_run_WriteTracker: "task_run cl step (WriteTracker f p) c a e"
inductive_simps task_run_CallService: "task_run cl step (CallService g h) c a e"
inductive_simps task_run_Reload: "task_run cl step (Reload r) c a e"

lemmas task_run_simps = task_run_ReadSnapshot task_run_ReadTracker task_run_WriteTracker task_run_CallService task_run_Reload

lemma task_run_earlier: "step\<^sup>*\<^sup>* b c \<Longrightarrow> task_run cl step p c a e \<Longrightarrow> task_run cl step p b a e"
  by (cases p) (auto simp: task_run_simps, (blast intro: rtranclp_trans)+)

lemma task_run_before: "step b c \<Longrightarrow> task_run cl step p c a e \<Longrightarrow> task_run cl step p b a e"
  by (rule task_run_earlier [where step = step and b = b and c = c, OF r_into_rtranclp [where r = step]])

lemma task_run_run: "task_run cl step p c a e \<Longrightarrow> step\<^sup>*\<^sup>* c e"
proof (induction rule: task_run.induct)
  case (call c d d' g h a e)
  then show ?case by (meson rtranclp.rtrancl_into_rtrancl rtranclp_trans)
next
  case (reload c d res u v err r a e)
  then show ?case by (meson rtranclp.rtrancl_into_rtrancl rtranclp_trans)
qed auto

section \<open>An operation among others executes its task\<close>

lemma step_of_another:
  assumes "mount_step cl opts R c c'" and "j < length (tasks c)"
  shows "own_step cl j c c' \<or> (j < length (tasks c') \<and> tasks c' ! j = tasks c ! j \<and> (\<forall>x. lock c' = Some (j, x) \<longleftrightarrow> lock c = Some (j, x)))"
  using assms(1)
proof (cases rule: mount_step.cases)
  case (own i)
  show ?thesis
  proof (cases "i = j")
    case False
    with own assms(2) show ?thesis by (cases rule: own_step.cases) auto
  qed (use own in simp)
qed (use assms(2) in \<open>auto simp: nth_append\<close>)

text \<open>What is left of a refresh once its \<open>List\<close> call has been answered.\<close>

definition installs :: "'s client \<Rightarrow> ('s mount \<Rightarrow> 's mount \<Rightarrow> bool) \<Rightarrow> (fs_error option \<Rightarrow> ('s, 'a) task) \<Rightarrow>
    rpc_error + directory option \<Rightarrow> 's mount \<Rightarrow> 'a \<Rightarrow> 's mount \<Rightarrow> bool" where
  "installs cl step r res c a e \<longleftrightarrow> (\<exists>u v err. step\<^sup>*\<^sup>* c u \<and> step u v \<and> load res (snap (mw u)) = (err, snap (mw v)) \<and>
     lock v = None \<and> task_run cl step (r err) v a e)"

lemma installs_earlier: "step b c \<Longrightarrow> installs cl step r res c a e \<Longrightarrow> installs cl step r res b a e"
  unfolding installs_def by (blast intro: converse_rtranclp_into_rtranclp)

lemma reload_installs:
  assumes "answered cl c res" and "step c d" and "installs cl step r res d a e"
  shows "task_run cl step (Reload r) c a e"
  using installs_earlier [where step = step, OF assms(2,3)] assms(1) unfolding installs_def task_run_Reload by blast

text \<open>What the operation \<open>j\<close> does from a state on, before and while it holds the lock.\<close>

definition goes_on :: "'s client \<Rightarrow> ('s mount \<Rightarrow> 's mount \<Rightarrow> bool) \<Rightarrow> nat \<Rightarrow> 's mount \<Rightarrow> fs_error + kernel_reply \<Rightarrow> 's mount \<Rightarrow> bool" where
  "goes_on cl step j c a e \<longleftrightarrow> (\<forall>res r. lock c = Some (j, Some res) \<longrightarrow> tasks c ! j = Reload r \<longrightarrow> installs cl step r res c a e) \<and>
     ((\<forall>res. lock c \<noteq> Some (j, Some res)) \<longrightarrow> task_run cl step (tasks c ! j) c a e)"

lemma goes_on_earlier:
  assumes "step c c'" and "goes_on cl step j c' a e" and "tasks c' ! j = tasks c ! j"
    and "\<forall>x. lock c' = Some (j, x) \<longleftrightarrow> lock c = Some (j, x)"
  shows "goes_on cl step j c a e"
  using assms installs_earlier [where step = step, OF assms(1)] task_run_before [where step = step, OF assms(1)]
  unfolding goes_on_def by metis

lemma own_step_goes_on:
  assumes own: "own_step cl j c c'" and step: "step c c'" and rest: "goes_on cl step j c' a e" and holder: "holder_reloads c"
  shows "goes_on cl step j c a e"
  using own
proof (cases rule: own_step.cases)
  case (read k)
  then have "task_run cl step (k (snap (mw c))) c' a e" using rest by (auto simp: goes_on_def)
  then show ?thesis using read step by (auto simp: goes_on_def task_run_ReadSnapshot intro: task_run_before)
next
  case (accessed k)
  then have "tasks c' ! j = k (world.accessed (mw c))" "lock c' = lock c" by simp_all
  moreover have "lock c \<noteq> Some (j, Some res)" for res using holder accessed by (auto simp: holder_reloads_def)
  ultimately have "task_run cl step (k (world.accessed (mw c))) c' a e" using rest by (auto simp: goes_on_def)
  then show ?thesis using accessed step holder
    by (auto simp: goes_on_def task_run_ReadTracker holder_reloads_def intro: task_run_before)
next
  case (touch f p)
  moreover have "lock c \<noteq> Some (j, Some res)" for res using holder touch by (auto simp: holder_reloads_def)
  ultimately have "task_run cl step p c' a e" using rest by (auto simp: goes_on_def)
  then show ?thesis using touch step holder by (auto simp: goes_on_def task_run_WriteTracker holder_reloads_def)
next
  case (call g h)
  moreover have "lock c \<noteq> Some (j, Some res)" for res using holder call by (auto simp: holder_reloads_def)
  ultimately have "task_run cl step (h (server (mw c))) c' a e" using rest by (auto simp: goes_on_def)
  moreover have "server (mw c') = g (server (mw c))" using call by simp
  ultimately have "task_run cl step (CallService g h) c a e" using step unfolding task_run_CallService by blast
  then show ?thesis using call holder by (auto simp: goes_on_def holder_reloads_def)
next
  case (acquire r)
  then have "task_run cl step (Reload r) c' a e" using rest by (auto simp: goes_on_def)
  then show ?thesis using acquire step by (auto simp: goes_on_def intro: task_run_before)
next
  case (list res s)
  obtain r where r: "tasks c ! j = Reload r" using holder list by (auto simp: holder_reloads_def)
  then have "installs cl step r res c' a e" using rest list by (auto simp: goes_on_def)
  moreover have "answered cl c res" using list by (simp add: answered_def)
  ultimately show ?thesis using list r reload_installs [where step = step, OF _ step] by (auto simp: goes_on_def)
next
  case timeout
  obtain r where r: "tasks c ! j = Reload r" using holder timeout by (auto simp: holder_reloads_def)
  then have "installs cl step r (Inl RpcOther) c' a e" using rest timeout by (auto simp: goes_on_def)
  moreover have "answered cl c (Inl RpcOther)" by (simp add: answered_def)
  ultimately show ?thesis using timeout r reload_installs [where step = step, OF _ step] by (auto simp: goes_on_def)
next
  case (install res r err sn)
  then have "task_run cl step (r err) c' a e" using rest by (auto simp: goes_on_def)
  moreover have "load res (snap (mw c)) = (err, snap (mw c'))" "lock c' = None" using install by simp_all
  ultimately have "installs cl step r res c a e" using step unfolding installs_def by blast
  then show ?thesis using install by (auto simp: goes_on_def)
qed

lemma operation_run:
  assumes run: "(mount_step cl opts R)\<^sup>*\<^sup>* c e" and j: "j < length (tasks c)" and holder: "holder_reloads c"
    and fin: "tasks e ! j = Finished a"
  shows "goes_on cl (mount_step cl opts R) j c a e"
  using run j holder
proof (induction rule: converse_rtranclp_induct)
  case base
  then show ?case using fin by (auto simp: goes_on_def holder_reloads_def)
next
  case (step c c')
  have holder': "holder_reloads c'" using mount_step_holder [OF step(1) step(5)] .
  from step_of_another [OF step(1,4)] consider (mine) "own_step cl j c c'" | (other) "j < length (tasks c')"
    "tasks c' ! j = tasks c ! j" "\<forall>x. lock c' = Some (j, x) \<longleftrightarrow> lock c = Some (j, x)" by blast
  then show ?case
  proof cases
    case mine
    have "j < length (tasks c')" using mine step(4) by (cases rule: own_step.cases) auto
    with own_step_goes_on [OF mine step(1) step(3) step(5)] holder' show ?thesis by blast
  next
    case other
    with goes_on_earlier [OF step(1) step(3)] holder' show ?thesis by blast
  qed
qed

section \<open>Following a task\<close>

lemma task_run_tbind: "task_run cl step (tbind p g) c b e \<longleftrightarrow> (\<exists>a d. task_run cl step p c a d \<and> task_run cl step (g a) d b e)"
proof (induction p arbitrary: c)
  case (Finished a)
  show ?case by (auto intro: task_run_earlier)
next
  case (ReadSnapshot k)
  show ?case unfolding tbind.simps task_run_ReadSnapshot ReadSnapshot.IH [OF rangeI] by blast
next
  case (ReadTracker k)
  show ?case unfolding tbind.simps task_run_ReadTracker ReadTracker.IH [OF rangeI] by blast
next
  case (WriteTracker f p)
  show ?case unfolding tbind.simps task_run_WriteTracker WriteTracker.IH by blast
next
  case (CallService f k)
  show ?case unfolding tbind.simps task_run_CallService CallService.IH [OF rangeI] by blast
next
  case (Reload k)
  show ?case unfolding tbind.simps task_run_Reload Reload.IH [OF rangeI] by blast
qed

lemma task_run_and_then:
  "task_run cl step (and_then p g) c (Inr b) e \<longleftrightarrow> (\<exists>a d. task_run cl step p c (Inr a) d \<and> task_run cl step (g a) d (Inr b) e)"
proof -
  have eq: "task_run cl step (case r of Inl e \<Rightarrow> Finished (Inl e) | Inr a \<Rightarrow> g a) d (Inr b) e \<longleftrightarrow>
      (\<exists>a. r = Inr a \<and> task_run cl step (g a) d (Inr b) e)" for r d
    by (cases r) auto
  then show ?thesis unfolding and_then_def task_run_tbind eq by blast
qed

lemma task_run_rpc:
  "task_run cl step (rpc m f) c (Inr a) e \<longleftrightarrow> (\<exists>d d'. step\<^sup>*\<^sup>* c d \<and> step d d' \<and> m (server (mw d)) = (Inr a, server (mw d')) \<and> step\<^sup>*\<^sup>* d' e)"
proof -
  have eq: "m s = (Inr a, s') \<longleftrightarrow> Inr a = (case fst (m s) of Inl e \<Rightarrow> Inl (f e) | Inr x \<Rightarrow> Inr x) \<and> s' = snd (m s)" for s s'
    by (cases "m s"; cases "fst (m s)") auto
  then show ?thesis unfolding rpc_def task_run_CallService task_run_Finished eq by blast
qed

text \<open>A tree was loaded on the way, and the lock let go.\<close>

definition refreshed :: "'s client \<Rightarrow> ('s mount \<Rightarrow> 's mount \<Rightarrow> bool) \<Rightarrow> 's mount \<Rightarrow> 's mount \<Rightarrow> bool" where
  "refreshed cl step c e \<longleftrightarrow> (\<exists>d v. step\<^sup>*\<^sup>* c d \<and> view_of cl (server (mw d)) = Some (snap (mw v)) \<and> step\<^sup>*\<^sup>* d v \<and> lock v = None \<and> step\<^sup>*\<^sup>* v e)"

lemma task_run_Refresh_task: "task_run cl step Refresh_task c (Inr ()) e \<Longrightarrow> refreshed cl step c e"
proof -
  assume "task_run cl step Refresh_task c (Inr ()) e"
  then obtain d u v err res where *: "step\<^sup>*\<^sup>* c d" "answered cl d res" "step\<^sup>*\<^sup>* d u" "step u v" "lock v = None"
    "Inr () = (case err of None \<Rightarrow> Inr () | Some e \<Rightarrow> Inl e)" "load res (snap (mw u)) = (err, snap (mw v))" and ve: "step\<^sup>*\<^sup>* v e"
    unfolding Refresh_task_def task_run_Reload task_run_Finished by blast
  have "err = None" using *(6) by (cases err) auto
  then obtain t where t: "res = Inr t" "snap (mw v) = snd (load (Inr t) new_snapshot)"
    using load_answer [OF *(7)] by (auto split: sum.splits)
  then have "view_of cl (server (mw d)) = Some (snap (mw v))" using *(2) view_of_answer by (metis answered_def sum.distinct(1))
  moreover have "step\<^sup>*\<^sup>* d v" using *(3,4) by (rule rtranclp.rtrancl_into_rtrancl)
  ultimately show ?thesis unfolding refreshed_def using *(1,5) ve by blast
qed

lemma refreshed_within: "step\<^sup>*\<^sup>* b c \<Longrightarrow> refreshed cl step c d \<Longrightarrow> step\<^sup>*\<^sup>* d e \<Longrightarrow> refreshed cl step b e"
  unfolding refreshed_def by (meson rtranclp_trans)

lemma refreshed_shown:
  assumes "refreshed cl (mount_step cl opts R) c e"
  shows "\<exists>z. (mount_step cl opts R)\<^sup>*\<^sup>* c z \<and> (mount_step cl opts R)\<^sup>*\<^sup>* z e \<and> view_of cl (server (mw z)) = Some (snap (mw e))"
proof -
  let ?run = "(mount_step cl opts R)\<^sup>*\<^sup>*"
  obtain d v where d: "?run c d" "view_of cl (server (mw d)) = Some (snap (mw v))" "?run d v" "lock v = None" "?run v e"
    using assms unfolding refreshed_def by blast
  have dv: "?run d e" "?run c v" using rtranclp_trans [OF d(3,5)] rtranclp_trans [OF d(1,3)] by blast+
  from shown_run [OF d(5)] d(4) consider "snap (mw e) = snap (mw v)" | "view_from (mount_step cl opts R) cl v e" by auto
  then show ?thesis
  proof cases
    case 1
    with d(1,2) dv(1) show ?thesis by auto
  next
    case 2
    then show ?thesis unfolding view_from_def using dv(2) by (meson rtranclp_trans)
  qed
qed

section \<open>A change is on show when it is answered\<close>

text \<open>
  The call by which a request changes the service, at the step from \<open>x\<close> to \<open>y\<close>; the operation looked
  at the snapshot in \<open>b\<close> and, to write, at the config in \<open>g\<close>.
\<close>

inductive performs :: "'s client \<Rightarrow> kernel_request \<Rightarrow> 's mount \<Rightarrow> 's mount \<Rightarrow> 's mount \<Rightarrow> 's mount \<Rightarrow> bool" for cl :: "'s client" where
  unlink: "ConfigByPath (snap (mw b)) (path @ ''/'' @ name) = Some c \<Longrightarrow>
    rpc_DeleteConfig cl (c_id c) (server (mw x)) = (Inr (), server (mw y)) \<Longrightarrow> performs cl (RemoveRequest path name False) b b x y"
| rmdir: "Snapshot_Directory (snap (mw b)) path = Some p \<Longrightarrow> child \<in> set (d_directories p) \<Longrightarrow> d_name child = name \<Longrightarrow>
    rpc_DeleteDirectory cl (d_id child) (server (mw x)) = (Inr (), server (mw y)) \<Longrightarrow> performs cl (RemoveRequest path name True) b b x y"
| mkdir: "acls = (case Snapshot_Directory (snap (mw b)) path of None \<Rightarrow> [] | Some p \<Rightarrow> d_acls p) \<Longrightarrow>
    rpc_CreateDirectory cl (Directory [] name path [] [] acls) (server (mw x)) = (Inr d, server (mw y)) \<Longrightarrow>
    performs cl (MkdirRequest path name) b b x y"
| create: "rpc_SetConfig cl (created_config path name) (server (mw x)) = (Inr r, server (mw y)) \<Longrightarrow>
    performs cl (CreateRequest path name) b b x y"
| writing: "fst (rpc_GetConfig cl (GetId (Snapshot_Config (snap (mw b)) i)) None (server (mw g))) = Inr (Some c) \<Longrightarrow>
    write_handler offset data c = Inr c' \<Longrightarrow> rpc_SetConfig cl c' (server (mw x)) = (Inr r, server (mw y)) \<Longrightarrow>
    performs cl (WriteRequest i offset data) b g x y"

fun modifies :: "kernel_request \<Rightarrow> bool" where
  "modifies (RemoveRequest path name is_dir) \<longleftrightarrow> True"
| "modifies (MkdirRequest path name) \<longleftrightarrow> True"
| "modifies (CreateRequest path name) \<longleftrightarrow> True"
| "modifies (WriteRequest i offset data) \<longleftrightarrow> True"
| "modifies _ \<longleftrightarrow> False"

definition carried_out :: "'s client \<Rightarrow> ('s mount \<Rightarrow> 's mount \<Rightarrow> bool) \<Rightarrow> kernel_request \<Rightarrow> 's mount \<Rightarrow> 's mount \<Rightarrow> bool" where
  "carried_out cl step req c e \<longleftrightarrow> (\<exists>b g x y. step\<^sup>*\<^sup>* c b \<and> step\<^sup>*\<^sup>* b g \<and> step\<^sup>*\<^sup>* g x \<and> step x y \<and> performs cl req b g x y \<and> refreshed cl step y e)"

lemma carried_outI:
  assumes "step\<^sup>*\<^sup>* c b" "step\<^sup>*\<^sup>* b g" "step\<^sup>*\<^sup>* g x" "step x y" "performs cl req b g x y" "step\<^sup>*\<^sup>* y d" "task_run cl step Refresh_task d (Inr ()) d'" "step\<^sup>*\<^sup>* d' e"
  shows "carried_out cl step req c e"
  using assms refreshed_within [OF assms(6) task_run_Refresh_task [OF assms(7)] assms(8)] unfolding carried_out_def by blast

lemmas task_run_parts = task_run_and_then task_run_rpc task_run_ReadSnapshot task_run_tbind

lemma Snapshot_Remove_carried_out:
  assumes "task_run cl step (Snapshot_Remove_task cl (path @ ''/'' @ name)) c (Inr ()) e"
  shows "carried_out cl step (RemoveRequest path name False) c e"
proof -
  obtain b config x y where "step\<^sup>*\<^sup>* c b" "ConfigByPath (snap (mw b)) (path @ ''/'' @ name) = Some config" "step\<^sup>*\<^sup>* b x" "step x y"
    "rpc_DeleteConfig cl (c_id config) (server (mw x)) = (Inr (), server (mw y))" and d: "\<exists>d. step\<^sup>*\<^sup>* y d \<and> task_run cl step Refresh_task d (Inr ()) e"
    using assms unfolding Snapshot_Remove_task_def task_run_ReadSnapshot
    by (auto simp: task_run_and_then task_run_rpc split: option.splits) blast+
  then show ?thesis using d by (blast intro: carried_outI performs.unlink)
qed

lemma Rmdir_carried_out:
  assumes "task_run cl step (Rmdir_task cl path name) c (Inr ()) e"
  shows "carried_out cl step (RemoveRequest path name True) c e"
proof -
  obtain b p child x y where "step\<^sup>*\<^sup>* c b" "Snapshot_Directory (snap (mw b)) path = Some p"
    "find (\<lambda>child. d_name child = name) (d_directories p) = Some child" "step\<^sup>*\<^sup>* b x" "step x y"
    "rpc_DeleteDirectory cl (d_id child) (server (mw x)) = (Inr (), server (mw y))" and d: "\<exists>d. step\<^sup>*\<^sup>* y d \<and> task_run cl step Refresh_task d (Inr ()) e"
    using assms unfolding Rmdir_task_def task_run_ReadSnapshot
    by (auto simp: task_run_and_then task_run_rpc split: option.splits) blast+
  moreover from this(3) have "child \<in> set (d_directories p)" "d_name child = name" by (auto simp: find_Some_iff)
  ultimately show ?thesis by (blast intro: carried_outI performs.rmdir)
qed

lemma Mkdir_carried_out:
  assumes "task_run cl step (Dir_Mkdir_task cl path name) c (Inr n) e"
  shows "carried_out cl step (MkdirRequest path name) c e"
proof -
  obtain b x y created d d' where *: "step\<^sup>*\<^sup>* c b" "step\<^sup>*\<^sup>* b x" "step x y"
    "rpc_CreateDirectory cl (Directory [] name path [] [] (case Snapshot_Directory (snap (mw b)) path of None \<Rightarrow> [] | Some p \<Rightarrow> d_acls p))
       (server (mw x)) = (Inr created, server (mw y))" "step\<^sup>*\<^sup>* y d" "task_run cl step Refresh_task d (Inr ()) d'" "step\<^sup>*\<^sup>* d' e"
    using assms unfolding Dir_Mkdir_task_def Snapshot_Mkdir_task_def task_run_ReadSnapshot Let_def
    by (auto simp: task_run_and_then task_run_rpc) (blast intro: rtranclp_trans)
  show ?thesis by (rule carried_outI [OF *(1) rtranclp.rtrancl_refl *(2,3) performs.mkdir [OF refl *(4)] *(5,6,7)])
qed

lemma Create_carried_out:
  assumes "task_run cl step (Dir_Create_task cl opts path name) c (Inr n) e"
  shows "carried_out cl step (CreateRequest path name) c e"
proof -
  obtain r d where d: "task_run cl step (Snapshot_Create_task cl (created_config path name)) c (Inr r) d" "step\<^sup>*\<^sup>* d e"
    using assms unfolding Dir_Create_task_def task_run_and_then by (blast dest: task_run_run)
  then obtain created d1 d2 where "task_run cl step (rpc (rpc_SetConfig cl (created_config path name)) Remote) c (Inr created) d1"
    and d2: "task_run cl step Refresh_task d1 (Inr ()) d2" "step\<^sup>*\<^sup>* d2 d"
    unfolding Snapshot_Create_task_def by (auto simp: task_run_and_then dest: task_run_run [where p = "ReadSnapshot k" for k])
  then obtain x y where *: "step\<^sup>*\<^sup>* c x" "step x y"
    "rpc_SetConfig cl (created_config path name) (server (mw x)) = (Inr created, server (mw y))" "step\<^sup>*\<^sup>* y d1"
    unfolding task_run_rpc by blast
  from d2(2) d(2) have "step\<^sup>*\<^sup>* d2 e" by (rule rtranclp_trans)
  then show ?thesis
    by (rule carried_outI [OF *(1) rtranclp.rtrancl_refl rtranclp.rtrancl_refl *(2) performs.create [OF *(3)] *(4) d2(1)])
qed

lemma Write_carried_out:
  assumes "task_run cl step (Config_Write_task cl i offset data) c (Inr n) e"
  shows "carried_out cl step (WriteRequest i offset data) c e"
proof -
  obtain b d where b: "step\<^sup>*\<^sup>* c b" "task_run cl step (Snapshot_Write_task cl (Snapshot_Config (snap (mw b)) i) (write_handler offset data)) b (Inr ()) d"
    "step\<^sup>*\<^sup>* d e"
    using assms unfolding Config_Write_task_def by (auto simp: task_run_ReadSnapshot task_run_and_then)
  then obtain full d1 where full: "task_run cl step (FullConfig_task cl (Snapshot_Config (snap (mw b)) i)) b (Inr full) d1"
    and rest: "task_run cl step (case full of None \<Rightarrow> Finished (Inl FsPanic)
       | Some f \<Rightarrow> (case write_handler offset data f of Inl e \<Rightarrow> Finished (Inl e)
            | Inr edited \<Rightarrow> and_then (rpc (rpc_SetConfig cl edited) WritingContent) (\<lambda>_. Refresh_task))) d1 (Inr ()) d"
    unfolding Snapshot_Write_task_def task_run_and_then by blast
  from rest obtain f edited d2 r where f: "full = Some f" "write_handler offset data f = Inr edited"
    "task_run cl step (rpc (rpc_SetConfig cl edited) WritingContent) d1 (Inr r) d2" and ref: "task_run cl step Refresh_task d2 (Inr ()) d"
    by (auto simp: task_run_and_then split: option.splits sum.splits)
  from full f(1) obtain g g' where g: "step\<^sup>*\<^sup>* b g" "step g g'" "step\<^sup>*\<^sup>* g' d1"
    "fst (rpc_GetConfig cl (GetId (Snapshot_Config (snap (mw b)) i)) None (server (mw g))) = Inr (Some f)"
    unfolding FullConfig_task_def task_run_rpc by auto
  from f(3) obtain x y where x: "step\<^sup>*\<^sup>* d1 x" "step x y" "rpc_SetConfig cl edited (server (mw x)) = (Inr r, server (mw y))" "step\<^sup>*\<^sup>* y d2"
    unfolding task_run_rpc by blast
  have "step\<^sup>*\<^sup>* g x" using converse_rtranclp_into_rtranclp [of step, OF g(2) rtranclp_trans [OF g(3) x(1)]] .
  then show ?thesis by (rule carried_outI [OF b(1) g(1) _ x(2) performs.writing [OF g(4) f(2) x(3)] x(4) ref b(3)])
qed

lemma kernel_carried_out:
  assumes "task_run cl step (kernel_task cl opts now req) c (Inr r) e" and "modifies req"
  shows "carried_out cl step req c e"
proof -
  have later: "carried_out cl step req c e" if "carried_out cl step req c d" "step\<^sup>*\<^sup>* d e" for d
    using that refreshed_within [OF rtranclp.rtrancl_refl] unfolding carried_out_def by blast
  show ?thesis
  proof (cases req)
    case (RemoveRequest path name is_dir)
    then obtain d where "task_run cl step (Dir_Remove_task cl path name is_dir) c (Inr ()) d" "step\<^sup>*\<^sup>* d e"
      using assms(1) by (auto simp: reply_def task_run_and_then)
    then have "carried_out cl step (RemoveRequest path name is_dir) c d"
      using Rmdir_carried_out Snapshot_Remove_carried_out unfolding Dir_Remove_task_def by (cases is_dir) (simp_all only: if_True if_False)
    with later RemoveRequest \<open>step\<^sup>*\<^sup>* d e\<close> show ?thesis by simp
  next
    case (MkdirRequest path name)
    with assms(1) later show ?thesis by (auto simp: reply_def task_run_and_then dest: Mkdir_carried_out)
  next
    case (CreateRequest path name)
    with assms(1) later show ?thesis by (auto simp: reply_def task_run_and_then dest: Create_carried_out)
  next
    case (WriteRequest i offset data)
    with assms(1) later show ?thesis by (auto simp: reply_def task_run_and_then dest: Write_carried_out)
  qed (use assms(2) in auto)
qed

lemma modifies_not_reload: "modifies req \<Longrightarrow> kernel_task cl opts now req \<noteq> Reload k"
  by (cases req) (auto simp: reply_def Dir_Remove_task_def Rmdir_task_def Snapshot_Remove_task_def Dir_Mkdir_task_def
      Dir_Create_task_def Snapshot_Create_task_def Config_Write_task_def and_then_def rpc_def)

lemma modifying_request_run:
  assumes start: "(mount_step cl opts R)\<^sup>*\<^sup>* (Serve_mount firings w) c"
    and request: "j < length (tasks c)" "tasks c ! j = kernel_task cl opts now req" "modifies req"
    and run: "(mount_step cl opts R)\<^sup>*\<^sup>* c e" and answer: "tasks e ! j = Finished (Inr r)"
  shows "carried_out cl (mount_step cl opts R) req c e"
proof -
  have holder: "holder_reloads c" using mount_run_holder [OF start] by simp
  then have "lock c \<noteq> Some (j, x)" for x
    using request modifies_not_reload [OF request(3), of cl opts now] by (auto simp: holder_reloads_def)
  with operation_run [OF run request(1) holder answer] have "task_run cl (mount_step cl opts R) (kernel_task cl opts now req) c (Inr r) e"
    by (simp add: goes_on_def request(2))
  then show ?thesis using request(3) by (rule kernel_carried_out)
qed

text \<open>
  C7: When a removal, a creation of a file or directory or a write is answered with success, however
  it interleaved with other operations, refreshes and clients, the one call that changes the service
  took effect after the request arrived, for what the mount showed and the service held of that
  file meanwhile; and the tree on show, from the answer on, is one the service had after that call.
\<close>

theorem change_is_on_show:
  assumes start: "(mount_step cl opts R)\<^sup>*\<^sup>* (Serve_mount firings w) c"
    and request: "j < length (tasks c)" "tasks c ! j = kernel_task cl opts now req" "modifies req"
    and run: "(mount_step cl opts R)\<^sup>*\<^sup>* c e" and answer: "tasks e ! j = Finished (Inr r)"
  shows "\<exists>b g x y z. (mount_step cl opts R)\<^sup>*\<^sup>* c b \<and> (mount_step cl opts R)\<^sup>*\<^sup>* b g \<and> (mount_step cl opts R)\<^sup>*\<^sup>* g x \<and>
    mount_step cl opts R x y \<and> performs cl req b g x y \<and>
    (mount_step cl opts R)\<^sup>*\<^sup>* y z \<and> (mount_step cl opts R)\<^sup>*\<^sup>* z e \<and> view_of cl (server (mw z)) = Some (snap (mw e))"
  using modifying_request_run [OF assms] refreshed_shown unfolding carried_out_def by blast

theorem change_is_on_show_witness:
  "\<exists>x y z. mount_step ops_client None (\<lambda>_ _. True) x y \<and>
     (\<exists>b g. performs ops_client (WriteRequest ''3'' 1 [7, 8]) b g x y) \<and>
     (mount_step ops_client None (\<lambda>_ _. True))\<^sup>*\<^sup>* y z \<and> view_of ops_client (server (mw z)) = Some (snap (mw busy_mount))"
proof -
  let ?t = "\<lparr>ts_seconds = 9, ts_nanos = 0\<rparr>"
  let ?s = "mount_step ops_client None (\<lambda>_ _. True)"
  let ?c = "(Serve_mount 1 loaded_world)\<lparr>tasks := tasks (Serve_mount 1 loaded_world) @ [kernel_task ops_client None ?t (WriteRequest ''3'' 1 [7, 8])]\<rparr>"
  have "?s (Serve_mount 1 loaded_world) ?c" by (rule mount_step.arrive)
  then have start: "?s\<^sup>*\<^sup>* (Serve_mount 1 loaded_world) ?c" by blast
  have run: "?s\<^sup>*\<^sup>* ?c busy_mount"
    using busy_mount_facts(1) by (intro replay_run [where es = "tl busy_schedule"]) (simp_all add: busy_schedule_def del: kernel_task.simps)
  have "1 < length (tasks ?c)" "tasks ?c ! 1 = kernel_task ops_client None ?t (WriteRequest ''3'' 1 [7, 8])"
    by (simp_all add: Serve_mount_def del: kernel_task.simps)
  from change_is_on_show [OF start this _ run busy_mount_facts(3)] show ?thesis by auto
qed

section \<open>Operations end and never block each other\<close>

text \<open>So many own steps are left at most; a refresh counts for three.\<close>

primrec ends_within :: "('s, 'a) task \<Rightarrow> nat \<Rightarrow> bool" where
  "ends_within (Finished a) n \<longleftrightarrow> True"
| "ends_within (ReadSnapshot k) n \<longleftrightarrow> 1 \<le> n \<and> (\<forall>sn. ends_within (k sn) (n - 1))"
| "ends_within (ReadTracker k) n \<longleftrightarrow> 1 \<le> n \<and> (\<forall>t. ends_within (k t) (n - 1))"
| "ends_within (WriteTracker f p) n \<longleftrightarrow> 1 \<le> n \<and> ends_within p (n - 1)"
| "ends_within (CallService g h) n \<longleftrightarrow> 1 \<le> n \<and> (\<forall>s. ends_within (h s) (n - 1))"
| "ends_within (Reload r) n \<longleftrightarrow> 3 \<le> n \<and> (\<forall>e. ends_within (r e) (n - 3))"

lemma ends_within_mono: "ends_within p m \<Longrightarrow> m \<le> n \<Longrightarrow> ends_within p n"
proof (induction p arbitrary: m n)
  case (Finished a)
  show ?case by simp
next
  case (ReadSnapshot k)
  have "ends_within (k x) (n - 1)" for x
    by (rule ReadSnapshot.IH [OF rangeI, of _ "m - 1"]) (use ReadSnapshot.prems in auto)
  with ReadSnapshot.prems show ?case by simp
next
  case (ReadTracker k)
  have "ends_within (k x) (n - 1)" for x
    by (rule ReadTracker.IH [OF rangeI, of _ "m - 1"]) (use ReadTracker.prems in auto)
  with ReadTracker.prems show ?case by simp
next
  case (WriteTracker f p)
  have "ends_within p (n - 1)" by (rule WriteTracker.IH [of "m - 1"]) (use WriteTracker.prems in auto)
  with WriteTracker.prems show ?case by simp
next
  case (CallService f k)
  have "ends_within (k x) (n - 1)" for x
    by (rule CallService.IH [OF rangeI, of _ "m - 1"]) (use CallService.prems in auto)
  with CallService.prems show ?case by simp
next
  case (Reload k)
  have "ends_within (k x) (n - 3)" for x
    by (rule Reload.IH [OF rangeI, of _ "m - 3"]) (use Reload.prems in auto)
  with Reload.prems show ?case by simp
qed

lemma ends_within_tbind: "ends_within p m \<Longrightarrow> (\<And>a. ends_within (g a) n) \<Longrightarrow> ends_within (tbind p g) (m + n)"
proof (induction p arbitrary: m)
  case (Finished a)
  show ?case using ends_within_mono [OF Finished(2), of "m + n"] by simp
next
  case (ReadSnapshot k)
  have "m - 1 + n = m + n - 1" using ReadSnapshot.prems(1) by simp
  then have "ends_within (tbind (k x) g) (m + n - 1)" for x using ReadSnapshot.IH [OF rangeI, of x "m - 1"] ReadSnapshot.prems by simp
  with ReadSnapshot.prems show ?case by simp
next
  case (ReadTracker k)
  have "m - 1 + n = m + n - 1" using ReadTracker.prems(1) by simp
  then have "ends_within (tbind (k x) g) (m + n - 1)" for x using ReadTracker.IH [OF rangeI, of x "m - 1"] ReadTracker.prems by simp
  with ReadTracker.prems show ?case by simp
next
  case (WriteTracker f p)
  have "m - 1 + n = m + n - 1" using WriteTracker.prems(1) by simp
  then have "ends_within (tbind (p) g) (m + n - 1)" using WriteTracker.IH [of "m - 1"] WriteTracker.prems by simp
  with WriteTracker.prems show ?case by simp
next
  case (CallService f k)
  have "m - 1 + n = m + n - 1" using CallService.prems(1) by simp
  then have "ends_within (tbind (k x) g) (m + n - 1)" for x using CallService.IH [OF rangeI, of x "m - 1"] CallService.prems by simp
  with CallService.prems show ?case by simp
next
  case (Reload k)
  have "m - 3 + n = m + n - 3" using Reload.prems(1) by simp
  then have "ends_within (tbind (k x) g) (m + n - 3)" for x using Reload.IH [OF rangeI, of x "m - 3"] Reload.prems by simp
  with Reload.prems show ?case by simp
qed

lemma ends_within_and_then:
  assumes "ends_within p m" and "\<And>a. ends_within (g a) n" and "m + n \<le> l"
  shows "ends_within (and_then p g) l"
proof -
  have "ends_within (and_then p g) (m + n)"
    unfolding and_then_def by (rule ends_within_tbind [OF assms(1)]) (simp split: sum.split add: assms(2))
  then show ?thesis using assms(3) by (rule ends_within_mono)
qed

lemma ends_within_parts [simp]: "1 \<le> n \<Longrightarrow> ends_within (rpc m f) n" "3 \<le> n \<Longrightarrow> ends_within Refresh_task n"
  "2 \<le> n \<Longrightarrow> ends_within (Config_Attr_task opts i) n"
  by (simp_all add: rpc_def Refresh_task_def Config_Attr_task_def split: option.split)

lemma ends_within_kernel_task: "ends_within (kernel_task cl opts now req) 7"
proof (cases req)
  case (RemoveRequest path name is_dir)
  have "ends_within (Dir_Remove_task cl path name is_dir) 7"
    by (auto simp: Dir_Remove_task_def Rmdir_task_def Snapshot_Remove_task_def split: option.split
        intro!: ends_within_and_then [where m = 1 and n = 3])
  with RemoveRequest show ?thesis by (auto simp: reply_def intro: ends_within_and_then [where n = 0])
next
  case (MkdirRequest path name)
  have "ends_within (Snapshot_Mkdir_task cl path name acls) 6" for acls
    unfolding Snapshot_Mkdir_task_def
    by (rule ends_within_and_then [where m = 1 and n = 3], simp, rule ends_within_and_then [where m = 3 and n = 0]) auto
  then have "ends_within (Dir_Mkdir_task cl path name) 7"
    unfolding Dir_Mkdir_task_def by (auto simp: Let_def intro!: ends_within_and_then [where m = 6 and n = 0])
  with MkdirRequest show ?thesis by (auto simp: reply_def intro: ends_within_and_then [where n = 0])
next
  case (CreateRequest path name)
  have "ends_within (Snapshot_Create_task cl c) 5" for c
    unfolding Snapshot_Create_task_def
    by (rule ends_within_and_then [where m = 1 and n = 4], simp, rule ends_within_and_then [where m = 3 and n = 1]) auto
  moreover have "ends_within (tbind (Config_Attr_task opts i) (\<lambda>a. Finished (Inr (n, a)))) (2 + 0)" for i n
    by (rule ends_within_tbind) simp_all
  ultimately have "ends_within (Dir_Create_task cl opts path name) 7"
    unfolding Dir_Create_task_def by (intro ends_within_and_then [where m = 5 and n = 2]) simp_all
  with CreateRequest show ?thesis by (auto simp: reply_def intro: ends_within_and_then [where n = 0])
next
  case (ReadRequest i)
  have "ends_within (ReadAll_task cl now i) 7"
    by (auto simp: ReadAll_task_def FullConfig_task_def intro: ends_within_and_then [where m = 1 and n = 1])
  with ReadRequest show ?thesis by (auto simp: reply_def intro: ends_within_and_then [where n = 0])
next
  case (WriteRequest i offset data)
  have "ends_within (Snapshot_Write_task cl c h) 5" for c h
    unfolding Snapshot_Write_task_def FullConfig_task_def
    by (rule ends_within_and_then [where m = 1 and n = 4], simp)
      (auto split: option.split sum.split intro: ends_within_and_then [where m = 1 and n = 3])
  then have "ends_within (Config_Write_task cl i offset data) 7"
    by (auto simp: Config_Write_task_def intro: ends_within_and_then [where m = 5 and n = 0])
  with WriteRequest show ?thesis by (auto simp: reply_def intro: ends_within_and_then [where n = 0])
next
  case (GetattrFile i)
  have "ends_within (tbind (Config_Attr_task opts i) (\<lambda>a. Finished (Inr (AttrReply a)))) (7 + 0)"
    by (rule ends_within_tbind) simp_all
  with GetattrFile show ?thesis by simp
qed simp_all

text \<open>A run with so many steps of the operation \<open>j\<close> in it.\<close>

inductive own_steps :: "'s client \<Rightarrow> fs_options option \<Rightarrow> ('s \<Rightarrow> 's \<Rightarrow> bool) \<Rightarrow> nat \<Rightarrow> nat \<Rightarrow> 's mount \<Rightarrow> 's mount \<Rightarrow> bool"
  for cl :: "'s client" and opts :: "fs_options option" and R :: "'s \<Rightarrow> 's \<Rightarrow> bool" and j :: nat where
  start: "own_steps cl opts R j 0 c c"
| other: "own_steps cl opts R j n c d \<Longrightarrow> mount_step cl opts R d e \<Longrightarrow> own_steps cl opts R j n c e"
| mine: "own_steps cl opts R j n c d \<Longrightarrow> own_step cl j d e \<Longrightarrow> own_steps cl opts R j (Suc n) c e"

lemma own_steps_run: "own_steps cl opts R j n c d \<Longrightarrow> (mount_step cl opts R)\<^sup>*\<^sup>* c d"
  by (induction rule: own_steps.induct) (auto intro: rtranclp.rtrancl_into_rtrancl mount_step.own)

text \<open>Of the three steps of a refresh, those already taken.\<close>

definition phase :: "nat \<Rightarrow> 's mount \<Rightarrow> nat" where
  "phase j c = (case lock c of None \<Rightarrow> 0 | Some (i, x) \<Rightarrow> if i \<noteq> j then 0 else if x = None then 1 else 2)"

definition steps_left :: "nat \<Rightarrow> 's mount \<Rightarrow> nat \<Rightarrow> bool" where
  "steps_left j c n \<longleftrightarrow> j < length (tasks c) \<and> ends_within (tasks c ! j) (n + phase j c)"

lemma phase_idle: "holder_reloads c \<Longrightarrow> (\<And>r. tasks c ! j \<noteq> Reload r) \<Longrightarrow> phase j c = 0"
  by (auto simp: phase_def holder_reloads_def split: option.split)

lemma steps_left_own:
  assumes "own_step cl j c d" and "steps_left j c n" and holder: "holder_reloads c"
  shows "\<exists>m. n = Suc m \<and> steps_left j d m"
  using assms(1)
proof (cases rule: own_step.cases)
  case (acquire r)
  then show ?thesis using assms(2) by (cases n) (auto simp: steps_left_def phase_def)
next
  case (list res s)
  then obtain r where "tasks c ! j = Reload r" "j < length (tasks c)" using holder by (auto simp: holder_reloads_def)
  then show ?thesis using list assms(2) by (cases n) (auto simp: steps_left_def phase_def)
next
  case timeout
  then obtain r where "tasks c ! j = Reload r" "j < length (tasks c)" using holder by (auto simp: holder_reloads_def)
  then show ?thesis using timeout assms(2) by (cases n) (auto simp: steps_left_def phase_def)
next
  case (install res r err sn)
  then show ?thesis using assms(2) by (cases n) (auto simp: steps_left_def phase_def numeral_3_eq_3 numeral_2_eq_2)
next
  case (read k)
  then show ?thesis using assms(2) by (cases n) (auto simp: steps_left_def phase_def)
next
  case (accessed k)
  moreover from this have "phase j c = 0" using phase_idle [OF holder, of j] by simp
  ultimately show ?thesis using assms(2) by (cases n) (auto simp: steps_left_def phase_def split: option.splits)
next
  case (touch f p)
  moreover from this have "phase j c = 0" using phase_idle [OF holder, of j] by simp
  ultimately show ?thesis using assms(2) by (cases n) (auto simp: steps_left_def phase_def split: option.splits)
next
  case (call g h)
  moreover from this have "phase j c = 0" using phase_idle [OF holder, of j] by simp
  ultimately show ?thesis using assms(2) by (cases n) (auto simp: steps_left_def phase_def split: option.splits)
qed

lemma steps_left_step:
  assumes step: "mount_step cl opts R c d" and left: "steps_left j c n" and holder: "holder_reloads c"
  shows "\<exists>m \<le> n. steps_left j d m"
proof -
  have j: "j < length (tasks c)" using left by (simp add: steps_left_def)
  from step_of_another [OF step j] show ?thesis
  proof (elim disjE conjE)
    assume "own_step cl j c d"
    from steps_left_own [OF this left holder] obtain m where "n = Suc m" "steps_left j d m" by blast
    then show ?thesis by (intro exI [of _ m]) simp
  next
    assume "j < length (tasks d)" and same: "tasks d ! j = tasks c ! j" and lock: "\<forall>x. lock d = Some (j, x) \<longleftrightarrow> lock c = Some (j, x)"
    from lock have "phase j d = phase j c" unfolding phase_def by (auto split: option.split)
    with left same \<open>j < length (tasks d)\<close> show ?thesis by (auto simp: steps_left_def)
  qed
qed

lemma own_steps_bounded:
  "own_steps cl opts R j n c d \<Longrightarrow> steps_left j c b \<Longrightarrow> holder_reloads c \<Longrightarrow> \<exists>m. n + m \<le> b \<and> steps_left j d m"
proof (induction rule: own_steps.induct)
  case (start c)
  then show ?case by auto
next
  case (other n c d e)
  then obtain m where m: "n + m \<le> b" "steps_left j d m" by blast
  have "holder_reloads d" using mount_run_holder [OF own_steps_run [OF other(1)] other(5)] .
  from steps_left_step [OF other(2) m(2) this] obtain m' where "m' \<le> m" "steps_left j e m'" by blast
  with m(1) show ?case by (intro exI [of _ m']) simp
next
  case (mine n c d e)
  then obtain m where m: "n + m \<le> b" "steps_left j d m" by blast
  have "holder_reloads d" using mount_run_holder [OF own_steps_run [OF mine(1)] mine(5)] .
  from steps_left_own [OF mine(2) m(2) this] obtain m' where "m = Suc m'" "steps_left j e m'" by blast
  with m(1) show ?case by (intro exI [of _ m']) simp
qed

lemma somebody_moves:
  assumes holder: "holder_reloads c" and j: "j < length (tasks c)"
  shows "(\<exists>a. tasks c ! j = Finished a) \<or> (\<exists>i d. own_step cl i c d \<and> (i = j \<or> (\<exists>x. lock c = Some (i, x))))"
proof (cases "lock c")
  case None
  show ?thesis using j None by (cases "tasks c ! j") (blast intro: own_step.intros)+
next
  case (Some l)
  obtain i x where l: "lock c = Some (i, x)" using Some by (cases l) auto
  then obtain r where "i < length (tasks c)" "tasks c ! i = Reload r" using holder by (auto simp: holder_reloads_def)
  moreover obtain err sn where "load (the x) (snap (mw c)) = (err, sn)" by (meson surj_pair)
  ultimately have "\<exists>d. own_step cl i c d"
    using l own_step.timeout [of c i cl] own_step.install [of i c "the x" r err sn cl] by (cases x) auto
  with l show ?thesis by blast
qed

text \<open>
  C28: Every file operation is answered after at most seven steps of its own, whatever the others do
  between them, and there is no deadlock: at any time before, the operation itself or the one that
  holds the lock of the snapshot can take a step.
\<close>

theorem mount_requests_end:
  assumes start: "(mount_step cl opts R)\<^sup>*\<^sup>* (Serve_mount firings w) c"
    and request: "j = length (tasks c)" and run: "own_steps cl opts R j n (c\<lparr>tasks := tasks c @ [kernel_task cl opts now req]\<rparr>) d"
  shows "n \<le> 7 \<and> ((\<exists>a. tasks d ! j = Finished a) \<or> (\<exists>i e. own_step cl i d e \<and> (i = j \<or> (\<exists>x. lock d = Some (i, x)))))"
proof -
  let ?c = "c\<lparr>tasks := tasks c @ [kernel_task cl opts now req]\<rparr>"
  have "holder_reloads c" using mount_run_holder [OF start] by simp
  then have holder: "holder_reloads ?c" and idle: "phase j ?c = 0"
    using request by (auto simp: holder_reloads_def nth_append phase_def split: option.split)
  have "steps_left j ?c 7" using idle request ends_within_kernel_task [of cl opts now req] by (simp add: steps_left_def nth_append)
  from own_steps_bounded [OF run this holder] obtain m where m: "n + m \<le> 7" "steps_left j d m" by blast
  have "holder_reloads d" using mount_run_holder [OF own_steps_run [OF run] holder] .
  with m somebody_moves [of d j cl] show ?thesis by (simp add: steps_left_def)
qed

fun moves :: "nat \<Rightarrow> 's mount_event \<Rightarrow> bool" where
  "moves j (Move i) \<longleftrightarrow> i = j"
| "moves j _ \<longleftrightarrow> False"

lemma replay_own_steps:
  assumes "replay cl opts es c = Some d" and "\<And>f s. Disturb f \<in> set es \<Longrightarrow> R s (f s)" and "own_steps cl opts R j n b c"
  shows "own_steps cl opts R j (n + length (filter (moves j) es)) b d"
  using assms
proof (induction es arbitrary: c n)
  case (Cons e es)
  then obtain c' where c': "event_next cl opts e c = Some c'" "replay cl opts es c' = Some d" by (auto split: option.splits)
  have "own_steps cl opts R j (n + (if moves j e then 1 else 0)) b c'"
  proof (cases "moves j e")
    case True
    then have "own_step cl j c c'" using c'(1) by (cases e) (auto intro: own_next_step)
    with True own_steps.mine [OF Cons.prems(3)] show ?thesis by simp
  next
    case False
    have "mount_step cl opts R c c'"
      using c'(1) Cons.prems(2) by (cases e) (auto intro: mount_step.intros own_next_step)
    with False own_steps.other [OF Cons.prems(3)] show ?thesis by simp
  qed
  from Cons.IH [OF c'(2) _ this] Cons.prems(2) show ?case by (auto split: if_splits)
qed simp

theorem mount_requests_end_witness:
  "\<exists>d. own_steps ops_client None (\<lambda>_ _. True) 1 6 ((Serve_mount 1 loaded_world)\<lparr>tasks := tasks (Serve_mount 1 loaded_world) @
       [kernel_task ops_client None \<lparr>ts_seconds = 9, ts_nanos = 0\<rparr> (WriteRequest ''3'' 1 [7, 8])]\<rparr>) d \<and>
     tasks d ! 1 = Finished (Inr (SizeReply 2)) \<and> (6::nat) \<le> 7"
proof -
  let ?t = "\<lparr>ts_seconds = 9, ts_nanos = 0\<rparr>"
  let ?c = "(Serve_mount 1 loaded_world)\<lparr>tasks := tasks (Serve_mount 1 loaded_world) @ [kernel_task ops_client None ?t (WriteRequest ''3'' 1 [7, 8])]\<rparr>"
  have "own_steps ops_client None (\<lambda>_ _. True) 1 (0 + length (filter (moves 1) (tl busy_schedule))) ?c busy_mount"
    by (rule replay_own_steps [where c = ?c])
      (use busy_mount_facts(1) in \<open>simp_all add: busy_schedule_def own_steps.start del: kernel_task.simps\<close>)
  moreover have "0 + length (filter (moves 1) (tl busy_schedule)) = 6" by (simp add: busy_schedule_def eval_nat_numeral)
  ultimately have run: "own_steps ops_client None (\<lambda>_ _. True) 1 6 ?c busy_mount" by (simp only:)
  have one: "1 = length (tasks (Serve_mount 1 loaded_world))" by (simp add: Serve_mount_def)
  from mount_requests_end [OF rtranclp.rtrancl_refl one run] run busy_mount_facts(3) show ?thesis by blast
qed

end
