(* ===== verification/FsGranted.thy ===== *)
theory FsGranted
  imports FsConcurrent
begin

text \<open>
  A mount of the service of \<open>internal/api\<close> under concurrent use: every call its operations make is
  one of the changes that requests make to the database, so whatever it shows was granted to its
  caller, as a whole, by one database on the way.
\<close>

section \<open>A service that changes by certain steps only\<close>

locale mount_service =
  fixes cl :: "'s client" and R :: "'s \<Rightarrow> 's \<Rightarrow> bool"
  assumes refl: "R s s" and trans: "R s t \<Longrightarrow> R t u \<Longrightarrow> R s u"
    and list: "R s (snd (rpc_List cl i s))" and get: "R s (snd (rpc_GetConfig cl i v s))"
    and set: "R s (snd (rpc_SetConfig cl c s))" and delete: "R s (snd (rpc_DeleteConfig cl i s))"
    and mkdir: "R s (snd (rpc_CreateDirectory cl d s))" and rmdir: "R s (snd (rpc_DeleteDirectory cl i s))"
begin

primrec keeps_to :: "('s, 'a) task \<Rightarrow> bool" where
  "keeps_to (Finished a) \<longleftrightarrow> True"
| "keeps_to (ReadSnapshot k) \<longleftrightarrow> (\<forall>sn. keeps_to (k sn))"
| "keeps_to (ReadTracker k) \<longleftrightarrow> (\<forall>t. keeps_to (k t))"
| "keeps_to (WriteTracker f p) \<longleftrightarrow> keeps_to p"
| "keeps_to (CallService g h) \<longleftrightarrow> (\<forall>s. R s (g s) \<and> keeps_to (h s))"
| "keeps_to (Reload r) \<longleftrightarrow> (\<forall>e. keeps_to (r e))"

lemma keeps_to_tbind: "keeps_to p \<Longrightarrow> (\<And>a. keeps_to (g a)) \<Longrightarrow> keeps_to (tbind p g)"
  by (induction p) auto

lemma keeps_to_and_then [intro]: "keeps_to p \<Longrightarrow> (\<And>a. keeps_to (g a)) \<Longrightarrow> keeps_to (and_then p g)"
  unfolding and_then_def by (rule keeps_to_tbind) (auto split: sum.split)

lemma keeps_to_rpc: "(\<And>s. R s (snd (m s))) \<Longrightarrow> keeps_to (rpc m f)"
  by (simp add: rpc_def)

lemma keeps_to_parts [simp]: "keeps_to Refresh_task" "keeps_to (FullConfig_task cl oc)" "keeps_to (Config_Attr_task opts i)"
  "keeps_to (rpc (rpc_SetConfig cl c) f)" "keeps_to (rpc (rpc_DeleteConfig cl i) f)"
  "keeps_to (rpc (rpc_CreateDirectory cl d) f)" "keeps_to (rpc (rpc_DeleteDirectory cl i) f)"
  by (simp_all add: Refresh_task_def FullConfig_task_def Config_Attr_task_def keeps_to_rpc get set delete mkdir rmdir split: option.split)

lemma keeps_to_reply: "keeps_to p \<Longrightarrow> keeps_to (reply f p)"
  unfolding reply_def by auto

lemma keeps_to_kernel_task: "keeps_to (kernel_task cl opts now req)"
proof (cases req)
  case (GetattrFile i)
  then show ?thesis by (auto intro: keeps_to_tbind)
next
  case (RemoveRequest path name is_dir)
  have "keeps_to (Dir_Remove_task cl path name is_dir)"
    by (auto simp: Dir_Remove_task_def Rmdir_task_def Snapshot_Remove_task_def split: option.split)
  with RemoveRequest show ?thesis by (simp add: keeps_to_reply)
next
  case (MkdirRequest path name)
  have "keeps_to (Dir_Mkdir_task cl path name)"
    unfolding Dir_Mkdir_task_def Snapshot_Mkdir_task_def Let_def keeps_to.simps
    by (intro allI keeps_to_and_then) simp_all
  with MkdirRequest show ?thesis by (simp add: keeps_to_reply)
next
  case (CreateRequest path name)
  have "keeps_to (Dir_Create_task cl opts path name)"
    unfolding Dir_Create_task_def Snapshot_Create_task_def by (intro keeps_to_and_then keeps_to_tbind) simp_all
  with CreateRequest show ?thesis by (simp add: keeps_to_reply)
next
  case (ReadRequest i)
  have "keeps_to (ReadAll_task cl now i)" by (auto simp: ReadAll_task_def)
  with ReadRequest show ?thesis by (simp add: keeps_to_reply)
next
  case (WriteRequest i offset data)
  have "keeps_to (case full of None \<Rightarrow> Finished (Inl FsPanic)
       | Some f \<Rightarrow> (case h f of Inl e \<Rightarrow> Finished (Inl e)
            | Inr edited \<Rightarrow> and_then (rpc (rpc_SetConfig cl edited) WritingContent) (\<lambda>_. Refresh_task)))" for full h
    by (auto split: option.split sum.split)
  then have "keeps_to (Config_Write_task cl i offset data)"
    unfolding Config_Write_task_def Snapshot_Write_task_def keeps_to.simps by (intro allI keeps_to_and_then) simp_all
  with WriteRequest show ?thesis by (simp add: keeps_to_reply)
qed simp_all

lemma keeps_to_loop: "keeps_to (backgroundLoop_task n)"
  by (induction n) simp_all

lemma served_step:
  assumes "mount_step cl opts R c d" and "\<forall>p \<in> set (tasks c). keeps_to p"
  shows "R (server (mw c)) (server (mw d)) \<and> (\<forall>p \<in> set (tasks d). keeps_to p)"
  using assms(1)
proof (cases rule: mount_step.cases)
  case (own j)
  have at: "keeps_to (tasks c ! j)" if "j < length (tasks c)" using assms(2) that by simp
  have reads: "R (server (mw c)) (snd (rpc_List cl [] (server (mw c))))" by (rule list)
  have upd: "keeps_to p" if "p \<in> set ((tasks c)[j := q])" "keeps_to q" for p q
    using that assms(2) set_update_subset_insert [of "tasks c" j q] by blast
  from own show ?thesis
  proof (cases rule: own_step.cases)
    case (list res s)
    have "s = snd (rpc_List cl [] (server (mw c)))" using list(3) by simp
    with list(1) reads assms(2) show ?thesis by simp
  next
    case (call g h)
    then have "R (server (mw c)) (g (server (mw c)))" "keeps_to (h (server (mw c)))" using at by auto
    with call show ?thesis by (auto intro: upd)
  qed (use at assms(2) in \<open>auto simp: refl intro: upd\<close>)
qed (use assms(2) in \<open>auto simp: refl keeps_to_kernel_task\<close>)

lemma served_run:
  "(mount_step cl opts R)\<^sup>*\<^sup>* c d \<Longrightarrow> \<forall>p \<in> set (tasks c). keeps_to p \<Longrightarrow> R (server (mw c)) (server (mw d)) \<and> (\<forall>p \<in> set (tasks d). keeps_to p)"
proof (induction rule: rtranclp_induct)
  case base
  then show ?case by (simp add: refl)
next
  case (step d e)
  then show ?case using served_step [OF step(2)] trans by blast
qed

lemma shown_state:
  assumes run: "(mount_step cl opts R)\<^sup>*\<^sup>* (Serve_mount n w) d"
  shows "snap (mw d) = snap w \<or> (\<exists>s. R (server w) s \<and> R s (server (mw d)) \<and> view_of cl s = Some (snap (mw d)))"
proof -
  have start: "\<forall>p \<in> set (tasks (Serve_mount n w)). keeps_to p" by (simp add: Serve_mount_def keeps_to_loop)
  from shown_run [OF run] have "snap (mw d) = snap w \<or> view_from (mount_step cl opts R) cl (Serve_mount n w) d"
    by (simp add: Serve_mount_def)
  then show ?thesis
  proof
    assume "view_from (mount_step cl opts R) cl (Serve_mount n w) d"
    then obtain e where e: "(mount_step cl opts R)\<^sup>*\<^sup>* (Serve_mount n w) e" "(mount_step cl opts R)\<^sup>*\<^sup>* e d"
      "view_of cl (server (mw e)) = Some (snap (mw d))" unfolding view_from_def by blast
    from served_run [OF e(1) start] have "R (server w) (server (mw e))" "\<forall>p \<in> set (tasks e). keeps_to p"
      by (simp_all add: Serve_mount_def)
    with served_run [OF e(2)] e(3) show ?thesis by blast
  qed simp
qed

end

section \<open>The handlers are such a service\<close>

lemma store_write_interference: "store_write now s t \<Longrightarrow> interference s t"
  unfolding interference_def by blast

lemma handle_interference: "interference s (snd (handle q allowed tags now req s))"
  using handle_store_write [of q allowed tags now req s] store_write_interference interference_refl
  by (cases "handle q allowed tags now req s") auto

interpretation api_mount: mount_service "api_client q allowed tags now" interference for q allowed tags now
proof (unfold_locales, goal_cases)
  case (2 s t u)
  then show ?case by (rule interference_trans)
next
  case (5 s c)
  then show ?case using handle_interference [of s q allowed tags now "SetConfigRequest (Some c)"] by simp
next
  case (6 s i)
  then show ?case using handle_interference [of s q allowed tags now "DeleteConfigRequest i"] by simp
next
  case (7 s d)
  then show ?case using handle_interference [of s q allowed tags now "CreateDirectoryRequest (Some d)"] by simp
next
  case (8 s i)
  then show ?case using handle_interference [of s q allowed tags now "DeleteDirectoryRequest i"] by simp
qed simp_all

lemma view_of_granted:
  assumes inv: "store_inv s" and view: "view_of (api_client q allowed tags now) s = Some sn"
  shows "Snapshot_Config sn i = map_option (stored_config s) (find (\<lambda>r. show_int (cr_id r) = i \<and> config_visible s tags r) (config_table s))"
    and "good_path ps \<Longrightarrow> Snapshot_Directory sn (abs_path ps) \<noteq> None \<longleftrightarrow> path_granted s tags ps"
proof -
  let ?w = "\<lparr>server = s, snap = new_snapshot, accessed = None\<rparr>"
  obtain r w' where w': "Refresh (api_client q allowed tags now) ?w = (r, w')" by fastforce
  have sn: "snap w' = sn"
    using w' view unfolding Refresh_def view_of_def by (auto split: prod.splits sum.splits)
  have inv': "store_inv (server ?w)" using inv by simp
  show "Snapshot_Config sn i = map_option (stored_config s) (find (\<lambda>r. show_int (cr_id r) = i \<and> config_visible s tags r) (config_table s))"
    using Refresh_config [OF inv' w', of i] by (simp add: sn)
  assume "good_path ps"
  from Refresh_directory [OF inv' w' this]
  show "Snapshot_Directory sn (abs_path ps) \<noteq> None \<longleftrightarrow> path_granted s tags ps" by (auto simp: sn split: option.splits)
qed


text \<open>The mount of the sample world, whose loop loads it while another client creates a file.\<close>

definition started_mount :: "db mount" where
  "started_mount = the (replay ops_client None [Move 0, Disturb create_new, Move 0, Move 0] (Serve_mount 1 sample_world))"


end
