(* ===== verification/Spec2Isabelle.thy ===== *)
theory Spec2Isabelle
  imports PulumiSetup CmdAuthority Log ApiRaces ApiChanges ApiListing FsInodes FsRaces FsHistories FsGranted
begin

text \<open>
  ConfigFS keeps configuration files in a SQLite database, serves them over gRPC to callers that a
  Tailscale node identifies, and lets a client mount the tree its caller may see.  This development
  models the Go code of the server, its clients and its programs, and proves what makes it correct.

  \<^bold>\<open>Parts of the program and the theories that model them\<close>

    \<^item> \<open>internal/proto/extra.go\<close> and the messages of \<open>proto/configfs.proto\<close>: \<open>ProtoTypes\<close>.  Messages
      are records and datatypes under the names of the source, an enumeration is its number, inodes
      and sizes are 64-bit words.  \<open>GoStrings\<close> holds the functions of Go's library the code calls, on
      strings as byte sequences, and \<open>Paths\<close> the split-and-trim reading of a path string.
    \<^item> \<open>internal/store/sqlite/store.go\<close>: \<open>Tables\<close> (a table is the list of its rows; the database is the
      record \<open>db\<close>; \<open>with_tx\<close> in \<open>Prelude\<close> commits or rolls back), \<open>AclTables\<close>, \<open>StoreDirectories\<close>,
      \<open>StoreConfigs\<close> and \<open>DirTree\<close> (\<open>TreeForACLTags\<close>), with one definition per method and one
      branch per early return.  \<open>Migrate\<close> is \<open>NewStore\<close>: the statements of the schema and the
      migrations run on tables of named columns, whatever earlier shape they have.
    \<^item> \<open>internal/api/server.go\<close>: \<open>Api\<close> (interceptors, gates, the eight handlers) and \<open>ApiSystem\<close> (the
      service as a step relation on the database over all requests).
    \<^item> The same service with requests in flight together: \<open>ApiSteps\<close> (processes; the reads of the store,
      one step per query), \<open>ApiRequests\<close> (gates and handlers as processes, one step per transaction),
      \<open>ApiInterleaved\<close> (\<open>server_step\<close>: requests arrive, and any of them takes its next step) and
      \<open>ApiInterference\<close> (one request, and what the others do to the database between its steps).  The
      grain is that of \<open>querier\<close> and \<open>withTx\<close>: the store has one connection, a statement outside a
      transaction has it to itself, and a transaction holds it from begin to commit.
    \<^item> \<open>internal/fs/fs.go\<close>: \<open>FsSnapshot\<close> (the loaded tree, its indexes and its operations), \<open>FsNodes\<close>
      (what the kernel calls on directories and files) and \<open>FsMount\<close> (before, at and after mounting).
      They are written against the record \<open>client\<close> of \<open>Client\<close>, the generated interface of the service;
      \<open>api_client\<close> is that interface on the modelled server.
    \<^item> The same mount with operations in flight together: \<open>FsTasks\<close> (each operation as a task, one step
      per critical section of the snapshot and the access times and per call), \<open>FsConcurrent\<close>
      (\<open>mount_step\<close>: requests of the kernel arrive, other clients change the service, and any operation
      or the refresh loop takes its next step; readers wait while \<open>Refresh\<close> holds the write lock, which
      it does during its \<open>List\<close> call and at most until that times out) and \<open>FsHistories\<close> (the part of a
      run that one operation goes through).
    \<^item> \<open>cmd/pulumi/main.go\<close>: \<open>Pulumi\<close>, both resources against the same client, and \<open>PulumiSetup\<close>, the
      configuration, the end of the program and the declared dependencies.
    \<^item> \<open>internal/log/log.go\<close>: \<open>Log\<close>, the logger of a context and the adapter for the middleware.
    \<^item> \<open>cmd/fs/main.go\<close> and \<open>cmd/server/main.go\<close>: \<open>Cmd\<close>, the flags and the order of the start;
      \<open>CmdAuthority\<close> puts the interceptors of the server before its handlers.

  \<^bold>\<open>Specifications\<close>

  \<open>StoreInv.store_inv\<close> is the well-formedness of a database; \<open>StoreInv.dir_tree\<close> reads the directories
  as a map from component lists to access lists, and the directory operations refine insertion,
  update and deletion of that map.  \<open>DirTree.path_granted\<close> and \<open>DirTree.config_visible\<close> say who may see
  what, without reference to the code that decides it.  The locale \<open>Client.config_service\<close> states
  what a client relies on; it is interpreted on the modelled server, where the laws are theorems.
  \<open>FsGranted.mount_service\<close> states which changes of the service the calls of a mount can make; the
  modelled server is interpreted with \<open>interference\<close>, what any requests do to its database.

  \<^bold>\<open>What is shown\<close>

    \<^item> Store: every operation keeps the invariant (\<open>CreateDirectoryProofs\<close>, \<open>DirectoryProofs\<close>,
      \<open>ConfigProofs\<close>, \<open>UpsertProofs\<close>) and refines the abstract tree; what is written is read back, versions
      are immutable and confined to their config, writes leave other configs alone
      (\<open>ConfigTheorems\<close>); every error branch is characterised; the tree holds exactly what is granted
      (\<open>DirTree\<close>, \<open>DirTreeProofs\<close>).  Opening an old database brings it to the current shape without
      losing a row, and opening is idempotent (\<open>Migrate\<close>).
    \<^item> Service: the gates of the handlers and of the tree agree and are the specification
      (\<open>ApiGates\<close>, \<open>ApiReads\<close>); every reachable database is well-formed and its versions last
      (\<open>ApiSystem\<close>); no request writes without authority (\<open>ApiAuthority\<close>); what refusals say, and where
      the code refuses or allows more than it means to (\<open>ApiOutcomes\<close>); the identities a handler
      sees are never the client's own claim (\<open>Cmd\<close>), so from the socket to the database what a call
      reads or changes was granted to its peer (\<open>CmdAuthority\<close>).
    \<^item> Service with requests in flight: undisturbed, a request is its handler (\<open>ApiRequests\<close>); in every
      interleaving the databases are well-formed, versions last, and each request ends within six
      steps of its own (\<open>ApiInterleaved\<close>).  As long as no directory is deleted meanwhile, \<open>GetConfig\<close>
      and \<open>List\<close> return nothing that was not granted (\<open>ApiQuiet\<close>, \<open>ApiListing\<close>) and every change but
      the deletion of a directory had its authority before its transaction (\<open>ApiQuiet\<close>, \<open>ApiChanges\<close>;
      \<open>DeleteConfig\<close> in any case); \<open>ApiRaces\<close> holds the schedules that show what goes wrong otherwise.
    \<^item> Mount: the indexes are the tree (\<open>FsIndex\<close>), a refreshed mount shows what the database grants
      and names resolve as the database does (\<open>FsLookup\<close>), a write is an overwrite at an offset that is
      read back, created files are found and removed ones are the right ones (\<open>FsFiles\<close>), every node
      has an inode number of its own (\<open>FsInodes\<close>), a mount serves its last loaded tree whatever fails
      (\<open>FsLife\<close>, \<open>Cmd\<close>), and a write undoes what another client wrote between its two calls
      (\<open>FsRaces\<close>).
    \<^item> Mount with operations in flight: undisturbed, an operation is that of \<open>FsNodes\<close> (\<open>FsTasks\<close>); the
      snapshot only ever moves on, as a whole, to a state the service had since (\<open>FsConcurrent\<close>); a
      change that is answered with success reached the service and is in what is shown from then on,
      no operation takes more than seven steps of its own, and none waits for ever (\<open>FsHistories\<close>);
      against the modelled server what is shown is what one database granted the caller
      (\<open>FsGranted\<close>).
    \<^item> Provider: entries survive the translation, resources converge, deletes can be repeated
      (\<open>PulumiProofs\<close>), and the declared dependencies are those of the outputs (\<open>PulumiSetup\<close>).

  Each theorem with a hypothesis is applied to a concrete database, mount or flag beside it;
  \<open>Samples\<close> holds the database most of them share.

  \<^bold>\<open>Bounds\<close>

  The only fuel is the depth of \<open>populateDirectory\<close>, one more than the number of directories: a
  directory lies below fewer directories than there are, so the recursion returns, and more fuel
  gives the same tree (\<open>DirTreeProofs.tree_recursion_returns\<close>).  Every other loop is structural.
  A process is finite by its type; the bound of six steps is that of \<open>List\<close> and \<open>SetConfig\<close>, the
  longest handlers.  A task is finite by its type too; the bound of seven is that of a creation, in
  which the refresh counts for three steps.  The refresh loop is taken for some number of firings of
  its timer, which no theorem bounds.

  \<^bold>\<open>Parameters\<close>

  Code outside the repository is an argument: \<open>q\<close> (the \<open>%q\<close> verb in error texts), the clock, the gRPC
  metadata functions and the Tailscale lookup, the library interceptors around a handler, the answers
  of the kernel, of external commands and of sockets, and the Pulumi framework's \<open>DefaultCheck\<close>.
  What is assumed of metadata and interceptors are named laws (\<open>metadata_laws\<close>, \<open>outer_laws\<close>).

  \<^bold>\<open>Not modelled\<close>

    \<^item> Failures of the SQL driver and cancelled contexts; indexes, column types and constraints of the
      statements (the invariant states what keys and foreign keys mean), and what \<open>STRING\<close> affinity
      makes of a path that looks like a number.
    \<^item> In the mount with operations in flight a call is one step of the service, though the server runs
      it in several (\<open>ApiRequests\<close>).  The caches of the kernel and its cancelled requests.
    \<^item> Which of the requests waiting for the connection or the lock gets it next (every order is
      allowed); a panic leaves the transaction rolled back, as the library does when the call's context
      ends.
    \<^item> Memory: a write at a large offset grows the content as far as the offset says.
    \<^item> Message encoding: a message arrives as it was sent, as valid UTF-8 strings do.
    \<^item> The FUSE library behind \<open>Serve\<close> and \<open>Close\<close>, shutdown, TLS, descriptions for the framework, the texts of status
      messages, and the calls of the logger in the other components, but for the two entries of
      \<open>refresh\<close>.
    \<^item> The generated code \<open>configfs.pb.go\<close> and \<open>configfs_grpc.pb.go\<close>; a getter on an absent message
      is an option case where the code relies on it.
\<close>

end
